(* ===== verification/Prelude.thy ===== *)
theory Prelude
  imports Main "HOL-Library.Word"
begin

text \<open>
  Shared vocabulary of the development: the machine types of the C code, writes into byte
  buffers, network byte order on a little-endian host, wrap-around arithmetic on
  \<^verbatim>\<open>size_t\<close>, and the lemma collections the component theories add to.

  Pointers are natural numbers with 0 for \<^verbatim>\<open>NULL\<close>; a C \<^verbatim>\<open>int\<close> that is only
  compared and returned is an \<open>int\<close>; a byte is an \<open>8 word\<close>.
\<close>

unbundle bit_operations_syntax

type_synonym u8 = "8 word"
type_synonym u16 = "16 word"
type_synonym u32 = "32 word"
type_synonym ptr = nat

abbreviation (input) NULL :: ptr where
  "NULL \<equiv> 0"

named_theorems buf_simps \<open>reading back and measuring writes into byte buffers\<close>
named_theorems endian_simps \<open>conversions between words and bytes\<close>

text \<open>Sizes read from words are compared as naturals throughout.\<close>

declare of_nat_unat [simp del]

lemma word_of_nat_unat [simp]: "(of_nat (unat w) :: 'a::len word) = w"
  by (metis of_nat_unat ucast_id)

subsection \<open>Byte buffers\<close>

text \<open>\<open>memcpy (m + off, xs, length xs)\<close> on a buffer \<open>m\<close>.\<close>

definition mem_write :: "'a list \<Rightarrow> nat \<Rightarrow> 'a list \<Rightarrow> 'a list" where
  "mem_write m off xs = take off m @ xs @ drop (off + length xs) m"

text \<open>\<open>n\<close> elements of the buffer from offset \<open>off\<close>.\<close>

definition mem_read :: "'a list \<Rightarrow> nat \<Rightarrow> nat \<Rightarrow> 'a list" where
  "mem_read m off n = take n (drop off m)"

lemma length_mem_write [simp]:
  "off + length xs \<le> length m \<Longrightarrow> length (mem_write m off xs) = length m"
  by (simp add: mem_write_def)

lemma length_mem_read [simp]:
  "off + n \<le> length m \<Longrightarrow> length (mem_read m off n) = n"
  by (simp add: mem_read_def)

lemma mem_read_write_same [buf_simps]:
  "off + length xs \<le> length m \<Longrightarrow> n = length xs \<Longrightarrow> mem_read (mem_write m off xs) off n = xs"
  by (simp add: mem_read_def mem_write_def)

lemma take_mem_write_below [buf_simps]:
  "n \<le> off \<Longrightarrow> off \<le> length m \<Longrightarrow> take n (mem_write m off xs) = take n m"
  by (simp add: mem_write_def min_def)

lemma drop_mem_write_above [buf_simps]:
  "off + length xs \<le> n \<Longrightarrow> off \<le> length m \<Longrightarrow> drop n (mem_write m off xs) = drop n m"
  by (simp add: mem_write_def)

lemma nth_mem_write:
  "off + length xs \<le> length m \<Longrightarrow> i < length m \<Longrightarrow>
   mem_write m off xs ! i = (if off \<le> i \<and> i < off + length xs then xs ! (i - off) else m ! i)"
  by (auto simp: mem_write_def nth_append)

lemma mem_read_write_other [buf_simps]:
  "off + length xs \<le> length m \<Longrightarrow> i + n \<le> off \<or> off + length xs \<le> i \<Longrightarrow> i + n \<le> length m \<Longrightarrow>
   mem_read (mem_write m off xs) i n = mem_read m i n"
  by (rule nth_equalityI) (auto simp: mem_read_def nth_mem_write)

lemma mem_read_append:
  "i + n + k \<le> length m \<Longrightarrow> mem_read m i (n + k) = mem_read m i n @ mem_read m (i + n) k"
  unfolding mem_read_def take_add drop_drop by (simp add: add.commute)

lemma mem_read_0 [simp]: "mem_read m i 0 = []"
  by (simp add: mem_read_def)

lemma list_update_mem_write: "i < length m \<Longrightarrow> m[i := x] = mem_write m i [x]"
  by (simp add: mem_write_def upd_conv_take_nth_drop)

lemma take_eq_mem_read: "take n m = mem_read m 0 n"
  by (simp add: mem_read_def)

lemma mem_read_one: "i < length m \<Longrightarrow> mem_read m i 1 = [m ! i]"
  by (simp add: mem_read_def take_Suc_conv_app_nth hd_drop_conv_nth take_Suc)

lemma mem_read_all: "n = length m \<Longrightarrow> mem_read m 0 n = m"
  by (simp add: mem_read_def)

subsection \<open>Network byte order on a little-endian host\<close>

definition hi8 :: "u16 \<Rightarrow> u8" where
  "hi8 w = ucast (drop_bit 8 w)"

definition lo8 :: "u16 \<Rightarrow> u8" where
  "lo8 w = ucast w"

definition mk16 :: "u8 \<Rightarrow> u8 \<Rightarrow> u16" where
  "mk16 h l = push_bit 8 (ucast h) OR ucast l"

text \<open>The two bytes a \<^verbatim>\<open>uint16_t\<close> occupies in memory, and back.\<close>

definition le16 :: "u16 \<Rightarrow> u8 list" where
  "le16 w = [lo8 w, hi8 w]"

definition of_le16 :: "u8 list \<Rightarrow> u16" where
  "of_le16 bs = mk16 (bs ! 1) (bs ! 0)"

definition htons :: "u16 \<Rightarrow> u16" where
  "htons w = mk16 (lo8 w) (hi8 w)"

abbreviation ntohs :: "u16 \<Rightarrow> u16" where
  "ntohs \<equiv> htons"

text \<open>The byte pair on the wire.\<close>

definition be16 :: "u16 \<Rightarrow> u8 list" where
  "be16 w = [hi8 w, lo8 w]"

lemma lo8_mk16 [simp, endian_simps]: "lo8 (mk16 h l) = l"
  by (rule bit_word_eqI) (auto simp: lo8_def mk16_def bit_simps)

lemma hi8_mk16 [simp, endian_simps]: "hi8 (mk16 h l) = h"
  by (rule bit_word_eqI) (auto simp: hi8_def mk16_def bit_simps dest: bit_imp_le_length)

lemma mk16_hi_lo [simp, endian_simps]: "mk16 (hi8 w) (lo8 w) = w"
  by (rule bit_word_eqI) (auto simp: hi8_def lo8_def mk16_def bit_simps)

lemma mk16_inject [simp]: "mk16 a b = mk16 c d \<longleftrightarrow> a = c \<and> b = d"
  by (metis lo8_mk16 hi8_mk16)

lemma htons_htons [simp]: "htons (htons w) = w"
  by (simp add: htons_def)

lemma of_le16_le16 [simp]: "of_le16 (le16 w) = w"
  by (simp add: of_le16_def le16_def)

lemma le16_of_le16: "length bs = 2 \<Longrightarrow> le16 (of_le16 bs) = bs"
  by (cases bs; cases "tl bs") (auto simp: le16_def of_le16_def)

lemma length_le16 [simp]: "length (le16 w) = 2"
  by (simp add: le16_def)

lemma length_be16 [simp]: "length (be16 w) = 2"
  by (simp add: be16_def)

lemma le16_htons: "le16 (htons w) = be16 w"
  by (simp add: le16_def be16_def htons_def)

lemma unat_mk16: "unat (mk16 h l) = 256 * unat h + unat l"
proof -
  have "mk16 h l = push_bit 8 (ucast h) + ucast l"
    unfolding mk16_def
    by (rule disjunctive_add [symmetric]) (auto simp: bit_simps dest: bit_imp_le_length)
  moreover have "unat h < 256" "unat l < 256"
    using unsigned_less [of h] unsigned_less [of l] by simp_all
  ultimately show ?thesis
    by (simp add: unat_word_ariths push_bit_eq_mult unsigned_ucast_eq take_bit_eq_mod)
qed

subsection \<open>Arithmetic on size_t\<close>

text \<open>\<^verbatim>\<open>size_t\<close> values are naturals below \<open>2 ^ 64\<close>; addition and subtraction wrap.\<close>

definition sz_add :: "nat \<Rightarrow> nat \<Rightarrow> nat" where
  "sz_add a b = (a + b) mod 2 ^ 64"

definition sz_sub :: "nat \<Rightarrow> nat \<Rightarrow> nat" where
  "sz_sub a b = (a + (2 ^ 64 - b mod 2 ^ 64)) mod 2 ^ 64"

lemma sz_add_small: "a + b < 2 ^ 64 \<Longrightarrow> sz_add a b = a + b"
  by (simp add: sz_add_def)

lemma sz_sub_small: "b \<le> a \<Longrightarrow> a < 2 ^ 64 \<Longrightarrow> sz_sub a b = a - b"
proof -
  assume a: "b \<le> a" "a < 2 ^ 64"
  then have "b mod 2 ^ 64 = b" and eq: "a + (2 ^ 64 - b) = (a - b) + 2 ^ 64" by simp_all
  then have "sz_sub a b = ((a - b) + 2 ^ 64) mod 2 ^ 64"
    unfolding sz_sub_def by (simp only: eq)
  also have "\<dots> = a - b"
    using a by (simp only: mod_add_self2) simp
  finally show ?thesis .
qed

lemma sz_sub_wraps: "a < b \<Longrightarrow> b < 2 ^ 64 \<Longrightarrow> sz_sub a b = a + 2 ^ 64 - b"
  by (simp add: sz_sub_def)

lemma mod_wrap: "x < 2 * m \<Longrightarrow> x mod m = (if x < m then x else x - m)" for x m :: nat
  by (auto simp: le_mod_geq)

subsection \<open>Lists\<close>

lemma remove1_mid: "x \<notin> set xs \<Longrightarrow> remove1 x (xs @ x # ys) = xs @ ys"
  by (simp add: remove1_append)

lemma take_map_nth: "n \<le> length xs \<Longrightarrow> map ((!) xs) [0..<n] = take n xs"
  by (rule nth_equalityI) auto

end
