(* ===== verification/Hev_List.thy ===== *)
theory Hev_List
  imports Prelude
begin

text \<open>
  The intrusive doubly-linked list of \<^verbatim>\<open>src/misc/hev-list.c\<close> on an explicit heap.
  A node is named by the address of the structure it is embedded in, so
  \<^verbatim>\<open>container_of\<close> is the identity. \<open>list_rep\<close> relates a list header and a heap to the
  sequence of node addresses; the locale \<open>node_queue\<close> is the contract the list's clients
  (session set, mapped DNS, UDP frame queue) rely on, interpreted here on the real
  operations.
\<close>

record HevListNode =
  n_next :: ptr
  n_prev :: ptr

record HevList =
  l_head :: ptr
  l_tail :: ptr

type_synonym lheap = "ptr \<Rightarrow> HevListNode"
type_synonym lstate = "HevList \<times> lheap"

definition hev_list_add_tail :: "lstate \<Rightarrow> ptr \<Rightarrow> lstate" where
  "hev_list_add_tail s new' =
     (let (self, h) = s;
          h = h(new' := (h new')\<lparr>n_prev := l_tail self\<rparr>);
          h = h(new' := (h new')\<lparr>n_next := NULL\<rparr>);
          (self, h) =
            (if l_tail self \<noteq> NULL
             then (self, h(l_tail self := (h (l_tail self))\<lparr>n_next := new'\<rparr>))
             else (self\<lparr>l_head := new'\<rparr>, h))
      in (self\<lparr>l_tail := new'\<rparr>, h))"

definition hev_list_del :: "lstate \<Rightarrow> ptr \<Rightarrow> lstate" where
  "hev_list_del s node =
     (let (self, h) = s;
          (self, h) =
            (if n_prev (h node) \<noteq> NULL
             then (self, h(n_prev (h node) := (h (n_prev (h node)))\<lparr>n_next := n_next (h node)\<rparr>))
             else (self\<lparr>l_head := n_next (h node)\<rparr>, h));
          (self, h) =
            (if n_next (h node) \<noteq> NULL
             then (self, h(n_next (h node) := (h (n_next (h node)))\<lparr>n_prev := n_prev (h node)\<rparr>))
             else (self\<lparr>l_tail := n_prev (h node)\<rparr>, h))
      in (self, h))"

definition hev_list_first :: "lstate \<Rightarrow> ptr" where
  "hev_list_first s = l_head (fst s)"

definition hev_list_last :: "lstate \<Rightarrow> ptr" where
  "hev_list_last s = l_tail (fst s)"

definition hev_list_node_next :: "lstate \<Rightarrow> ptr \<Rightarrow> ptr" where
  "hev_list_node_next s node = n_next (snd s node)"

definition hev_list_node_prev :: "lstate \<Rightarrow> ptr \<Rightarrow> ptr" where
  "hev_list_node_prev s node = n_prev (snd s node)"

text \<open>
  The traversal every client writes, \<^verbatim>\<open>for (n = first; n; n = next (n))\<close>, as the list of the
  nodes it visits; the fuel bounds the number of steps.
\<close>

fun hev_list_walk :: "nat \<Rightarrow> lstate \<Rightarrow> ptr \<Rightarrow> ptr list" where
  "hev_list_walk 0 s n = []"
| "hev_list_walk (Suc fuel) s n =
     (if n = NULL then [] else n # hev_list_walk fuel s (hev_list_node_next s n))"

definition empty_list :: "lheap \<Rightarrow> lstate" where
  "empty_list h = (\<lparr>l_head = NULL, l_tail = NULL\<rparr>, h)"

subsection \<open>Segments and the representation relation\<close>

fun first_or :: "ptr list \<Rightarrow> ptr \<Rightarrow> ptr" where
  "first_or [] d = d"
| "first_or (x # xs) d = x"

fun last_or :: "ptr \<Rightarrow> ptr list \<Rightarrow> ptr" where
  "last_or d [] = d"
| "last_or d (x # xs) = last_or x xs"

fun lseg :: "lheap \<Rightarrow> ptr \<Rightarrow> ptr list \<Rightarrow> ptr \<Rightarrow> bool" where
  "lseg h pr [] nx = True"
| "lseg h pr (x # xs) nx =
     (x \<noteq> NULL \<and> n_prev (h x) = pr \<and> n_next (h x) = first_or xs nx \<and> lseg h x xs nx)"

definition list_rep :: "lstate \<Rightarrow> ptr list \<Rightarrow> bool" where
  "list_rep s xs \<longleftrightarrow>
     distinct xs \<and> l_head (fst s) = first_or xs NULL \<and> l_tail (fst s) = last_or NULL xs \<and>
     lseg (snd s) NULL xs NULL"

lemma first_or_append [simp]: "first_or (xs @ ys) d = first_or xs (first_or ys d)"
  by (cases xs) auto

lemma last_or_append [simp]: "last_or d (xs @ ys) = last_or (last_or d xs) ys"
  by (induction xs arbitrary: d) auto

lemma last_or_in: "xs \<noteq> [] \<Longrightarrow> last_or d xs \<in> set xs"
  by (induction xs arbitrary: d) (auto, metis last_or.simps(1) list.exhaust)

lemma last_or_snoc: "xs \<noteq> [] \<Longrightarrow> \<exists>ys. xs = ys @ [last_or d xs]"
  by (induction xs rule: rev_induct) auto

lemma lseg_append [simp]:
  "lseg h pr (xs @ ys) nx \<longleftrightarrow> lseg h pr xs (first_or ys nx) \<and> lseg h (last_or pr xs) ys nx"
  by (induction xs arbitrary: pr) auto

lemma lseg_nonnull: "lseg h pr xs nx \<Longrightarrow> x \<in> set xs \<Longrightarrow> x \<noteq> NULL"
  by (induction xs arbitrary: pr) auto

lemma lseg_frame:
  "(\<And>x. x \<in> set xs \<Longrightarrow> h' x = h x) \<Longrightarrow> lseg h' pr xs nx = lseg h pr xs nx"
  by (induction xs arbitrary: pr) auto

lemma lseg_upd_other [simp]: "a \<notin> set xs \<Longrightarrow> lseg (h(a := v)) pr xs nx = lseg h pr xs nx"
  by (rule lseg_frame) auto

lemma list_rep_nonnull: "list_rep s xs \<Longrightarrow> x \<in> set xs \<Longrightarrow> x \<noteq> NULL"
  unfolding list_rep_def by (metis lseg_nonnull)

lemma list_rep_frame:
  "list_rep (self, h) xs \<Longrightarrow> (\<And>x. x \<in> set xs \<Longrightarrow> h' x = h x) \<Longrightarrow> list_rep (self, h') xs"
  unfolding list_rep_def by (auto simp: lseg_frame [of xs h' h])

lemma list_rep_empty [simp]: "list_rep (empty_list h) []"
  by (simp add: list_rep_def empty_list_def)

lemma last_or_NULL_cases: "last_or NULL xs = NULL \<Longrightarrow> lseg h NULL xs nx \<Longrightarrow> xs = []"
  using last_or_in lseg_nonnull by blast

subsection \<open>The operations refine operations on sequences\<close>

lemma lseg_relink_last:
  assumes "lseg h pr (xs @ [t]) nx" and "t \<notin> set xs"
  shows "lseg (h(t := (h t)\<lparr>n_next := nx'\<rparr>)) pr (xs @ [t]) nx'"
  using assms by simp

lemma add_tail_rep:
  assumes rep: "list_rep s xs" and new: "x \<notin> set xs" "x \<noteq> NULL"
  shows "list_rep (hev_list_add_tail s x) (xs @ [x])"
proof (cases "xs = []")
  case True
  with assms show ?thesis
    by (cases s) (auto simp: list_rep_def hev_list_add_tail_def Let_def)
next
  case False
  obtain self h where s: "s = (self, h)" by (cases s)
  from False obtain ys t where xs: "xs = ys @ [t]" by (metis rev_exhaust)
  from rep xs s have d: "distinct (ys @ [t])" "l_head self = first_or ys t" "l_tail self = t"
    "lseg h NULL (ys @ [t]) NULL" and t: "t \<noteq> NULL"
    by (auto simp: list_rep_def)
  define h1 where "h1 = h(x := (h x)\<lparr>n_prev := t, n_next := NULL\<rparr>)"
  from new xs have xt: "x \<noteq> t" "x \<notin> set ys" by auto
  have "hev_list_add_tail s x =
      (self\<lparr>l_tail := x\<rparr>, h1(t := (h1 t)\<lparr>n_next := x\<rparr>))"
    using d t xt by (simp add: hev_list_add_tail_def s h1_def Let_def)
  moreover have "lseg (h1(t := (h1 t)\<lparr>n_next := x\<rparr>)) NULL (ys @ [t]) x"
    using d xt by (intro lseg_relink_last) (auto simp: h1_def)
  moreover have "(h1(t := (h1 t)\<lparr>n_next := x\<rparr>)) x = (h x)\<lparr>n_prev := t, n_next := NULL\<rparr>"
    using xt by (simp add: h1_def)
  ultimately show ?thesis
    using d xt new xs by (auto simp: list_rep_def)
qed

lemma del_rep_split:
  assumes rep: "list_rep s (xs @ x # ys)"
  shows "list_rep (hev_list_del s x) (xs @ ys)"
proof -
  obtain self h where s: "s = (self, h)" by (cases s)
  from rep have d: "distinct (xs @ x # ys)" "l_head self = first_or xs x"
    "l_tail self = last_or x ys"
    and seg: "lseg h NULL xs x" "lseg h x ys NULL"
    and hx: "n_prev (h x) = last_or NULL xs" "n_next (h x) = first_or ys NULL" "x \<noteq> NULL"
    by (auto simp: list_rep_def s)
  show ?thesis
  proof (cases xs rule: rev_cases; cases ys)
    assume "xs = []" "ys = []"
    then show ?thesis using hx d by (simp add: list_rep_def hev_list_del_def s)
  next
    fix y ys' assume "xs = []" and ys: "ys = y # ys'"
    then show ?thesis using hx d seg by (auto simp: list_rep_def hev_list_del_def s)
  next
    fix xs' p assume xs: "xs = xs' @ [p]" and "ys = []"
    then show ?thesis using hx d seg
      by (auto simp: list_rep_def hev_list_del_def s Let_def)
  next
    fix xs' p y ys' assume xs: "xs = xs' @ [p]" and ys: "ys = y # ys'"
    then show ?thesis using hx d seg
      by (auto simp: list_rep_def hev_list_del_def s Let_def)
  qed
qed

lemma del_rep:
  assumes rep: "list_rep s xs" and x: "x \<in> set xs"
  shows "list_rep (hev_list_del s x) (remove1 x xs)"
proof -
  from x obtain ys zs where xs: "xs = ys @ x # zs" by (meson split_list)
  with rep have "x \<notin> set ys" by (simp add: list_rep_def)
  with del_rep_split [of s ys x zs] rep xs show ?thesis by (simp add: remove1_mid)
qed

lemma first_rep: "list_rep s xs \<Longrightarrow> hev_list_first s = first_or xs NULL"
  by (simp add: list_rep_def hev_list_first_def)

lemma last_rep: "list_rep s xs \<Longrightarrow> hev_list_last s = last_or NULL xs"
  by (simp add: list_rep_def hev_list_last_def)

lemma walk_lseg:
  "lseg (snd s) pr xs NULL \<Longrightarrow> length xs < fuel \<Longrightarrow>
   hev_list_walk fuel s (first_or xs NULL) = xs"
proof (induction xs arbitrary: pr fuel)
  case Nil
  then show ?case by (cases fuel) auto
next
  case (Cons x xs)
  then obtain f where "fuel = Suc f" "length xs < f" by (cases fuel) auto
  with Cons.IH [of x f] Cons.prems show ?case by (simp add: hev_list_node_next_def)
qed

lemma walk_rep:
  "list_rep s xs \<Longrightarrow> length xs < fuel \<Longrightarrow> hev_list_walk fuel s (hev_list_first s) = xs"
  by (simp add: first_rep) (auto simp: list_rep_def intro: walk_lseg)

lemma add_tail_frame:
  "snd (hev_list_add_tail s x) a \<noteq> snd s a \<Longrightarrow> a = x \<or> a = l_tail (fst s)"
  by (cases s) (auto simp: hev_list_add_tail_def Let_def split: if_splits)

subsection \<open>The contract its clients use\<close>

locale node_queue =
  fixes rep :: "'s \<Rightarrow> ptr list \<Rightarrow> bool"
    and add_tail :: "'s \<Rightarrow> ptr \<Rightarrow> 's"
    and del :: "'s \<Rightarrow> ptr \<Rightarrow> 's"
    and first :: "'s \<Rightarrow> ptr"
  assumes rep_distinct: "rep s xs \<Longrightarrow> distinct xs"
    and rep_nonnull: "rep s xs \<Longrightarrow> x \<in> set xs \<Longrightarrow> x \<noteq> NULL"
    and rep_add_tail: "rep s xs \<Longrightarrow> x \<notin> set xs \<Longrightarrow> x \<noteq> NULL \<Longrightarrow> rep (add_tail s x) (xs @ [x])"
    and rep_del: "rep s xs \<Longrightarrow> x \<in> set xs \<Longrightarrow> rep (del s x) (remove1 x xs)"
    and rep_first: "rep s xs \<Longrightarrow> first s = first_or xs NULL"
begin

text \<open>The \<^verbatim>\<open>del\<close> then \<^verbatim>\<open>add_tail\<close> pair with which every client moves a node to the tail.\<close>

lemma rep_touch:
  assumes "rep s xs" and "x \<in> set xs"
  shows "rep (add_tail (del s x) x) (remove1 x xs @ [x])"
  using assms rep_distinct rep_nonnull by (intro rep_add_tail rep_del) auto

lemma touch_same_nodes:
  assumes "rep s xs" and "x \<in> set xs"
  shows "set (remove1 x xs @ [x]) = set xs" and "length (remove1 x xs @ [x]) = length xs"
  using assms rep_distinct [of s xs] by (auto simp: length_remove1 intro!: Suc_pred)

lemma rep_evict:
  assumes "rep s xs" and "xs \<noteq> []"
  shows "first s = hd xs" and "rep (del s (first s)) (tl xs)"
  using assms rep_first [of s xs] rep_del [of s xs "hd xs"] by (cases xs; force)+

end

interpretation hl: node_queue list_rep hev_list_add_tail hev_list_del hev_list_first
proof unfold_locales
  show "distinct xs" if "list_rep s xs" for s xs
    using that by (simp add: list_rep_def)
qed (fact list_rep_nonnull add_tail_rep del_rep first_rep)+

subsection \<open>Properties\<close>

text \<open>The pointer code for moving a node to the tail (\<^verbatim>\<open>hev_list_del\<close> then
  \<^verbatim>\<open>hev_list_add_tail\<close>) implements the move on the sequence of nodes: a traversal of the
  resulting list from its head ends, and visits the other nodes in their old order and then the
  moved one.\<close>

theorem list_move_to_tail:
  assumes "list_rep s xs" and "x \<in> set xs"
  shows "hev_list_walk (Suc (length xs)) (hev_list_add_tail (hev_list_del s x) x)
           (hev_list_first (hev_list_add_tail (hev_list_del s x) x)) = remove1 x xs @ [x]"
proof (rule walk_rep [OF hl.rep_touch [OF assms]])
  show "length (remove1 x xs @ [x]) < Suc (length xs)" using hl.touch_same_nodes(2) [OF assms] by simp
qed

definition demo_list :: lstate where
  "demo_list = hev_list_add_tail (hev_list_add_tail (hev_list_add_tail
     (empty_list (\<lambda>a. \<lparr>n_next = 99, n_prev = 99\<rparr>)) 10) 20) 30"

lemma demo_list_rep: "list_rep demo_list [10, 20, 30]"
  by (simp add: demo_list_def hev_list_add_tail_def empty_list_def list_rep_def)

theorem list_move_to_tail_witness:
  "hev_list_walk 4 (hev_list_add_tail (hev_list_del demo_list 20) 20)
     (hev_list_first (hev_list_add_tail (hev_list_del demo_list 20) 20)) = [10, 30, 20]"
  using list_move_to_tail [OF demo_list_rep, of 20] by (simp add: numeral_eq_Suc del: hev_list_walk.simps)

end
