(* ===== verification/Hev_Ring_Buffer.thy ===== *)
theory Hev_Ring_Buffer
  imports Prelude
begin

text \<open>
  The ring buffer of \<^verbatim>\<open>src/misc/hev-ring-buffer.c\<close>, which carries the bytes of a TCP
  session from the SOCKS5 socket to lwIP. A byte is first pending (\<^verbatim>\<open>rda_size\<close> of
  them), then handed to \<^verbatim>\<open>tcp_write\<close> by reference and in flight until lwIP acknowledges
  it (\<^verbatim>\<open>use_size\<close> counts both). \<open>rb_view\<close> gives the two byte sequences; the lemmas
  show that each operation acts on them as on a queue, and in particular that a write never
  touches a byte lwIP may still retransmit.
\<close>

record HevRingBuffer =
  rp :: nat
  wp :: nat
  rda_size :: nat
  use_size :: nat
  max_size :: nat
  rb_data :: "u8 list"

text \<open>An \<^verbatim>\<open>iovec\<close> into the buffer: offset of \<^verbatim>\<open>iov_base\<close> from \<^verbatim>\<open>data\<close>, and \<^verbatim>\<open>iov_len\<close>.\<close>

type_synonym iov = "(nat \<times> nat) list"

text \<open>\<open>mem\<close> is the memory \<^verbatim>\<open>alloca\<close> returns, of the requested size.\<close>

definition hev_ring_buffer_alloca :: "nat \<Rightarrow> u8 list \<Rightarrow> HevRingBuffer" where
  "hev_ring_buffer_alloca s mem =
     \<lparr>rp = 0, wp = 0, rda_size = 0, use_size = 0, max_size = s, rb_data = mem\<rparr>"

definition hev_ring_buffer_get_max_size :: "HevRingBuffer \<Rightarrow> nat" where
  "hev_ring_buffer_get_max_size self = max_size self"

definition hev_ring_buffer_get_use_size :: "HevRingBuffer \<Rightarrow> nat" where
  "hev_ring_buffer_get_use_size self = use_size self"

definition hev_ring_buffer_reading :: "HevRingBuffer \<Rightarrow> iov" where
  "hev_ring_buffer_reading self =
     (if rda_size self = 0 then []
      else let upper_size = sz_sub (max_size self) (rp self)
           in if rda_size self \<le> upper_size then [(rp self, rda_size self)]
              else [(rp self, upper_size), (0, sz_sub (rda_size self) upper_size)])"

definition hev_ring_buffer_read_finish :: "HevRingBuffer \<Rightarrow> nat \<Rightarrow> HevRingBuffer" where
  "hev_ring_buffer_read_finish self size' =
     self\<lparr>rp := sz_add (rp self) size' mod max_size self,
          rda_size := sz_sub (rda_size self) size'\<rparr>"

definition hev_ring_buffer_read_release :: "HevRingBuffer \<Rightarrow> nat \<Rightarrow> HevRingBuffer" where
  "hev_ring_buffer_read_release self size' =
     (let self = self\<lparr>use_size := sz_sub (use_size self) size'\<rparr>
      in if use_size self = 0 then self\<lparr>rp := 0, wp := 0\<rparr> else self)"

definition hev_ring_buffer_writing :: "HevRingBuffer \<Rightarrow> iov" where
  "hev_ring_buffer_writing self =
     (if use_size self = max_size self then []
      else let upper_size = sz_sub (max_size self) (wp self);
               spc_size = sz_sub (max_size self) (use_size self)
           in if spc_size \<le> upper_size then [(wp self, spc_size)]
              else [(wp self, upper_size), (0, sz_sub spc_size upper_size)])"

definition hev_ring_buffer_write_finish :: "HevRingBuffer \<Rightarrow> nat \<Rightarrow> HevRingBuffer" where
  "hev_ring_buffer_write_finish self size' =
     self\<lparr>wp := sz_add (wp self) size' mod max_size self,
          use_size := sz_add (use_size self) size',
          rda_size := sz_add (rda_size self) size'\<rparr>"

text \<open>What \<^verbatim>\<open>readv\<close> stores through an \<^verbatim>\<open>iovec\<close>, and what a reader finds through one.\<close>

fun iov_fill :: "u8 list \<Rightarrow> iov \<Rightarrow> u8 list \<Rightarrow> u8 list" where
  "iov_fill d [] bs = d"
| "iov_fill d ((off, len) # v) bs = iov_fill (mem_write d off (take len bs)) v (drop len bs)"

fun iov_bytes :: "u8 list \<Rightarrow> iov \<Rightarrow> u8 list" where
  "iov_bytes d [] = []"
| "iov_bytes d ((off, len) # v) = mem_read d off len @ iov_bytes d v"

definition iov_len :: "iov \<Rightarrow> nat" where
  "iov_len v = sum_list (map snd v)"

definition rb_store :: "HevRingBuffer \<Rightarrow> u8 list \<Rightarrow> HevRingBuffer" where
  "rb_store self bs = self\<lparr>rb_data := iov_fill (rb_data self) (hev_ring_buffer_writing self) bs\<rparr>"

subsection \<open>Invariant and the bytes held\<close>

definition rb_ok :: "HevRingBuffer \<Rightarrow> bool" where
  "rb_ok self \<longleftrightarrow>
     0 < max_size self \<and> max_size self < 2 ^ 63 \<and> length (rb_data self) = max_size self \<and>
     rp self < max_size self \<and> rda_size self \<le> use_size self \<and> use_size self \<le> max_size self \<and>
     wp self = (rp self + rda_size self) mod max_size self"

definition ring :: "u8 list \<Rightarrow> nat \<Rightarrow> nat \<Rightarrow> nat \<Rightarrow> u8 list" where
  "ring d m start n = map (\<lambda>i. d ! ((start + i) mod m)) [0..<n]"

definition rb_base :: "HevRingBuffer \<Rightarrow> nat" where
  "rb_base self = rp self + max_size self - (use_size self - rda_size self)"

definition rb_inflight :: "HevRingBuffer \<Rightarrow> u8 list" where
  "rb_inflight self =
     ring (rb_data self) (max_size self) (rb_base self) (use_size self - rda_size self)"

definition rb_pending :: "HevRingBuffer \<Rightarrow> u8 list" where
  "rb_pending self = ring (rb_data self) (max_size self) (rp self) (rda_size self)"

definition rb_view :: "HevRingBuffer \<Rightarrow> u8 list \<times> u8 list" where
  "rb_view self = (rb_inflight self, rb_pending self)"

lemma length_ring [simp]: "length (ring d m s n) = n"
  by (simp add: ring_def)

lemma ring_nth [simp]: "i < n \<Longrightarrow> ring d m s n ! i = d ! ((s + i) mod m)"
  by (simp add: ring_def)

lemma ring_mod_start: "ring d m (s mod m) n = ring d m s n"
  by (simp add: ring_def mod_add_left_eq)

lemma ring_add: "ring d m s (n + k) = ring d m s n @ ring d m (s + n) k"
  by (rule nth_equalityI) (auto simp: nth_append add.assoc)

lemma ring_linear:
  "s + n \<le> m \<Longrightarrow> length d = m \<Longrightarrow> ring d m s n = mem_read d s n"
  by (rule nth_equalityI) (auto simp: mem_read_def)

lemma ring_wrap:
  assumes "s < m" "m - s \<le> n" "n \<le> m" "length d = m"
  shows "ring d m s n = mem_read d s (m - s) @ mem_read d 0 (n - (m - s))"
proof -
  have "ring d m s n = ring d m s (m - s) @ ring d m m (n - (m - s))"
    using ring_add [of d m s "m - s" "n - (m - s)"] assms by simp
  also have "ring d m m (n - (m - s)) = ring d m 0 (n - (m - s))"
    using ring_mod_start [of d m m] by simp
  finally show ?thesis using assms by (simp add: ring_linear)
qed

lemma rb_okD:
  assumes "rb_ok self"
  shows "0 < max_size self" "max_size self < 2 ^ 63" "length (rb_data self) = max_size self"
    "rp self < max_size self" "wp self < max_size self" "rda_size self \<le> use_size self"
    "use_size self \<le> max_size self" "wp self = (rp self + rda_size self) mod max_size self"
    "sz_sub (max_size self) (rp self) = max_size self - rp self"
    "sz_sub (max_size self) (wp self) = max_size self - wp self"
    "sz_sub (max_size self) (use_size self) = max_size self - use_size self"
  using assms by (auto simp: rb_ok_def sz_sub_small)

lemma rb_ok_alloca:
  "0 < s \<Longrightarrow> s < 2 ^ 63 \<Longrightarrow> length mem = s \<Longrightarrow>
   rb_ok (hev_ring_buffer_alloca s mem) \<and> rb_view (hev_ring_buffer_alloca s mem) = ([], [])"
  by (simp add: rb_ok_def hev_ring_buffer_alloca_def rb_view_def rb_inflight_def rb_pending_def
      ring_def)

subsection \<open>Reading\<close>

lemma reading_bytes:
  assumes ok: "rb_ok self"
  shows "iov_bytes (rb_data self) (hev_ring_buffer_reading self) = rb_pending self"
proof (cases "rda_size self \<le> max_size self - rp self")
  case True
  with rb_okD [OF ok] show ?thesis
    by (cases "rda_size self = 0")
      (simp_all add: hev_ring_buffer_reading_def rb_pending_def ring_linear)
next
  case False
  with rb_okD [OF ok] show ?thesis
    by (simp add: hev_ring_buffer_reading_def rb_pending_def ring_wrap sz_sub_small)
qed

lemma reading_in_bounds:
  assumes "rb_ok self" and "(off, len) \<in> set (hev_ring_buffer_reading self)"
  shows "0 < len \<and> off + len \<le> max_size self"
  using assms(2) rb_okD(1-7,9-11) [OF assms(1)]
  by (auto simp: hev_ring_buffer_reading_def Let_def sz_sub_small split: if_splits)

lemma read_finish_view:
  assumes ok: "rb_ok self" and n: "n \<le> rda_size self"
  shows "rb_ok (hev_ring_buffer_read_finish self n)"
    and "rb_view (hev_ring_buffer_read_finish self n) =
           (rb_inflight self @ take n (rb_pending self), drop n (rb_pending self))"
proof -
  note d = rb_okD [OF ok]
  let ?m = "max_size self" and ?s = "hev_ring_buffer_read_finish self n"
  have sums: "sz_add (rp self) n = rp self + n" "sz_sub (rda_size self) n = rda_size self - n"
    using d n by (auto simp: sz_add_small sz_sub_small)
  have f: "rp ?s = (rp self + n) mod ?m" "rda_size ?s = rda_size self - n"
    "use_size ?s = use_size self" "max_size ?s = ?m" "rb_data ?s = rb_data self"
    using sums by (simp_all add: hev_ring_buffer_read_finish_def)
  have base: "ring (rb_data self) ?m (rb_base ?s) (use_size self - (rda_size self - n)) =
      ring (rb_data self) ?m (rb_base self) (use_size self - (rda_size self - n))"
  proof -
    have "(rb_base ?s) mod ?m = (rb_base self) mod ?m"
    proof (cases "rp self + n < ?m")
      case True
      then have "rb_base ?s = rb_base self" using d(6,7) n sums
        by (simp add: rb_base_def hev_ring_buffer_read_finish_def)
      then show ?thesis by simp
    next
      case False
      then have "(rp self + n) mod ?m = rp self + n - ?m" using d(4,6,7) n by (simp add: mod_wrap)
      then have "rb_base ?s + ?m = rb_base self" if "0 < n" using d(4,6,7) n sums False that
        by (simp add: rb_base_def hev_ring_buffer_read_finish_def)
      then show ?thesis using False d by (cases "0 < n") (auto, metis mod_add_self2)
    qed
    then show ?thesis by (metis ring_mod_start)
  qed
  have len: "use_size self - (rda_size self - n) = (use_size self - rda_size self) + n"
    using d n by simp
  have pend: "rb_pending self =
      ring (rb_data self) ?m (rp self) n @ ring (rb_data self) ?m (rp self + n) (rda_size self - n)"
    using ring_add [of "rb_data self" ?m "rp self" n "rda_size self - n"] n
    by (simp add: rb_pending_def)
  have flight: "ring (rb_data self) ?m (rb_base self) ((use_size self - rda_size self) + n) =
      rb_inflight self @ ring (rb_data self) ?m (rp self) n"
  proof -
    have "(rb_base self + (use_size self - rda_size self)) mod ?m = rp self mod ?m"
      using d by (simp add: rb_base_def)
    then show ?thesis
      by (simp add: ring_add rb_inflight_def) (metis ring_mod_start)
  qed
  have "(rp self + n) mod ?m + (rda_size self - n) = rp self + n + (rda_size self - n) \<or>
      ((rp self + n) mod ?m + (rda_size self - n)) mod ?m = (rp self + rda_size self) mod ?m"
    using n by (metis mod_add_left_eq add.assoc le_add_diff_inverse)
  then show "rb_ok ?s" using d n sums
    by (auto simp: rb_ok_def hev_ring_buffer_read_finish_def)
  show "rb_view ?s = (rb_inflight self @ take n (rb_pending self), drop n (rb_pending self))"
    unfolding rb_view_def rb_inflight_def [of ?s] rb_pending_def [of ?s] f base [unfolded len] len flight
    by (simp add: ring_mod_start pend)
qed

lemma read_release_view:
  assumes ok: "rb_ok self" and n: "n \<le> use_size self - rda_size self"
  shows "rb_ok (hev_ring_buffer_read_release self n)"
    and "rb_view (hev_ring_buffer_read_release self n) =
           (drop n (rb_inflight self), rb_pending self)"
proof -
  note d = rb_okD [OF ok]
  let ?m = "max_size self" and ?s = "hev_ring_buffer_read_release self n"
  have sub: "sz_sub (use_size self) n = use_size self - n"
    using d n by (auto simp: sz_sub_small)
  show "rb_ok ?s"
    using d n sub by (auto simp: rb_ok_def hev_ring_buffer_read_release_def Let_def)
  have "rb_inflight self = ring (rb_data self) ?m (rb_base self) n @
      ring (rb_data self) ?m (rb_base self + n) (use_size self - rda_size self - n)"
    using ring_add [of "rb_data self" ?m "rb_base self" n "use_size self - rda_size self - n"]
    by (simp add: rb_inflight_def le_add_diff_inverse [OF n] del: diff_diff_left)
  moreover have "rb_base self + n = rp self + ?m - (use_size self - n - rda_size self)"
    using d n by (simp add: rb_base_def)
  ultimately have flight: "drop n (rb_inflight self) = ring (rb_data self) ?m
      (rp self + ?m - (use_size self - n - rda_size self)) (use_size self - rda_size self - n)"
    by simp
  show "rb_view ?s = (drop n (rb_inflight self), rb_pending self)"
  proof (cases "use_size self = n")
    case True
    with d(6) n have "rda_size self = 0" by simp
    with True sub show ?thesis
      by (simp add: rb_view_def rb_inflight_def rb_pending_def hev_ring_buffer_read_release_def
          ring_def)
  next
    case False
    with n sub have "?s = self\<lparr>use_size := use_size self - n\<rparr>"
      by (simp add: hev_ring_buffer_read_release_def Let_def)
    then show ?thesis
      unfolding rb_view_def flight
      by (simp add: rb_inflight_def rb_pending_def rb_base_def add.commute)
  qed
qed

subsection \<open>Writing\<close>

lemma iov_fill_nth:
  assumes "s < m" "length d = m" "length bs \<le> k" "k \<le> m" "i < m"
    and v: "v = (if k \<le> m - s then [(s, k)] else [(s, m - s), (0, k - (m - s))])"
  shows "iov_fill d v bs ! ((s + i) mod m) = (if i < length bs then bs ! i else d ! ((s + i) mod m))"
    and "length (iov_fill d v bs) = m"
proof -
  have idx: "(s + i) mod m = (if s + i < m then s + i else s + i - m)"
    using assms by (simp add: mod_if)
  show "length (iov_fill d v bs) = m"
    using assms by auto
  show "iov_fill d v bs ! ((s + i) mod m) = (if i < length bs then bs ! i else d ! ((s + i) mod m))"
  proof (cases "k \<le> m - s")
    case True
    with assms idx show ?thesis by (auto simp: nth_mem_write)
  next
    case False
    then have v2: "iov_fill d v bs = mem_write (mem_write d s (take (m - s) bs)) 0 (drop (m - s) bs)"
      using v assms(3) by simp
    show ?thesis
    proof (cases "s + i < m")
      case True
      with idx have "(s + i) mod m = s + i" by simp
      moreover have "\<not> s + i < length bs - (m - s)" "i < m - s" using True assms(1,3,4) by auto
      ultimately show ?thesis using False assms(1-5) by (simp add: v2 nth_mem_write del: diff_diff_right)
    next
      case wrap: False
      define j where "j = s + i - m"
      have j: "(s + i) mod m = j" "j < s" "j < m" "i = m - s + j" using idx wrap assms(1,5) by (simp_all add: j_def)
      have "j < length bs - (m - s) \<longleftrightarrow> i < length bs" using j(4) by auto
      with j False assms(1-4) show ?thesis by (simp add: v2 nth_mem_write del: diff_diff_right)
    qed
  qed
qed

lemma writing_room:
  assumes "rb_ok self"
  shows "iov_len (hev_ring_buffer_writing self) = max_size self - use_size self"
  using rb_okD(1-7,9-11) [OF assms]
  by (auto simp: hev_ring_buffer_writing_def iov_len_def sz_sub_small Let_def)

lemma writing_in_bounds:
  assumes "rb_ok self" and "(off, len) \<in> set (hev_ring_buffer_writing self)"
  shows "0 < len \<and> off + len \<le> max_size self"
  using assms(2) rb_okD(1-7,9-11) [OF assms(1)]
  by (auto simp: hev_ring_buffer_writing_def Let_def sz_sub_small split: if_splits)

lemma rb_store_nth:
  assumes ok: "rb_ok self" and room: "length bs \<le> max_size self - use_size self"
    and i: "i < max_size self"
  shows "rb_data (rb_store self bs) ! ((wp self + i) mod max_size self) =
     (if i < length bs then bs ! i else rb_data self ! ((wp self + i) mod max_size self))"
    and "length (rb_data (rb_store self bs)) = max_size self"
proof -
  note d = rb_okD [OF ok]
  let ?k = "max_size self - use_size self"
  have full: "use_size self = max_size self \<Longrightarrow> bs = []" using room by simp
  have v: "hev_ring_buffer_writing self =
      (if ?k \<le> max_size self - wp self then [(wp self, ?k)]
       else [(wp self, max_size self - wp self), (0, ?k - (max_size self - wp self))])"
    if "use_size self \<noteq> max_size self"
    using that d by (simp add: hev_ring_buffer_writing_def sz_sub_small)
  show "rb_data (rb_store self bs) ! ((wp self + i) mod max_size self) =
     (if i < length bs then bs ! i else rb_data self ! ((wp self + i) mod max_size self))"
    using iov_fill_nth(1) [OF d(5,3) room _ i v] full
    by (cases "use_size self = max_size self")
      (auto simp: rb_store_def hev_ring_buffer_writing_def)
  show "length (rb_data (rb_store self bs)) = max_size self"
    using iov_fill_nth(2) [OF d(5,3) room _ i v] d(3)
    by (cases "use_size self = max_size self")
      (auto simp: rb_store_def hev_ring_buffer_writing_def)
qed

lemma rb_store_fields [simp]:
  "rp (rb_store self bs) = rp self" "wp (rb_store self bs) = wp self"
  "rda_size (rb_store self bs) = rda_size self" "use_size (rb_store self bs) = use_size self"
  "max_size (rb_store self bs) = max_size self" "rb_base (rb_store self bs) = rb_base self"
  by (simp_all add: rb_store_def rb_base_def)

lemma store_keeps_used:
  assumes ok: "rb_ok self" and room: "length bs \<le> max_size self - use_size self"
    and j: "j < use_size self"
  shows "rb_data (rb_store self bs) ! ((rb_base self + j) mod max_size self) =
         rb_data self ! ((rb_base self + j) mod max_size self)"
proof -
  note d = rb_okD [OF ok]
  let ?m = "max_size self" and ?i = "max_size self - use_size self + j"
  have "(wp self + ?i) mod ?m = (rp self + rda_size self + ?i) mod ?m"
    by (simp add: d(8) mod_add_left_eq)
  also have "rp self + rda_size self + ?i = rb_base self + j"
    using d j by (simp add: rb_base_def)
  finally have pos: "(wp self + ?i) mod ?m = (rb_base self + j) mod ?m" .
  have "?i < ?m" and "\<not> ?i < length bs" using d(7) j room by auto
  with rb_store_nth(1) [OF ok room, of ?i] show ?thesis by (simp only: pos if_False)
qed

lemma write_view:
  assumes ok: "rb_ok self" and room: "length bs \<le> max_size self - use_size self"
  defines "s' \<equiv> hev_ring_buffer_write_finish (rb_store self bs) (length bs)"
  shows "rb_ok s'" and "rb_view s' = (rb_inflight self, rb_pending self @ bs)"
proof -
  note d = rb_okD [OF ok]
  let ?m = "max_size self"
  have sums: "sz_add (wp self) (length bs) = wp self + length bs"
    "sz_add (use_size self) (length bs) = use_size self + length bs"
    "sz_add (rda_size self) (length bs) = rda_size self + length bs"
    using d(1-7) room by (auto simp: sz_add_small)
  have data: "rb_data s' = rb_data (rb_store self bs)"
    by (simp add: s'_def hev_ring_buffer_write_finish_def)
  have f: "rp s' = rp self" "rda_size s' = rda_size self + length bs" "max_size s' = ?m"
    "use_size s' = use_size self + length bs" "wp s' = (wp self + length bs) mod ?m"
    using sums by (simp_all add: s'_def hev_ring_buffer_write_finish_def)
  have base: "rb_base s' = rb_base self" by (simp add: rb_base_def f)
  show "rb_ok s'"
    using d room rb_store_nth(2) [OF ok room d(1)]
    by (auto simp: rb_ok_def f data mod_add_left_eq add.assoc)
  have "rb_inflight s' = rb_inflight self"
    using store_keeps_used [OF ok room] d
    by (intro nth_equalityI) (auto simp: rb_inflight_def f data base)
  moreover have "rb_pending s' ! i = (rb_pending self @ bs) ! i"
    if i: "i < rda_size self + length bs" for i
  proof (cases "i < rda_size self")
    case True
    have "rb_base self + (use_size self - rda_size self + i) = rp self + i + ?m"
      using d(4,6,7) by (simp add: rb_base_def)
    then have "(rp self + i) mod ?m = (rb_base self + (use_size self - rda_size self + i)) mod ?m"
      by (simp only: mod_add_self2)
    with True d(6) store_keeps_used [OF ok room, of "use_size self - rda_size self + i"]
    show ?thesis by (simp add: rb_pending_def f data nth_append)
  next
    case False
    then obtain k where k: "i = rda_size self + k" by (metis le_add_diff_inverse not_less)
    then have "(rp self + i) mod ?m = (wp self + (i - rda_size self)) mod ?m"
      by (simp add: d(8) mod_add_left_eq add.assoc)
    with k i rb_store_nth(1) [OF ok room, of k] d(7) room
    show ?thesis by (simp add: rb_pending_def f data nth_append)
  qed
  then have "rb_pending s' = rb_pending self @ bs"
    by (intro nth_equalityI) (auto simp: rb_pending_def f)
  ultimately show "rb_view s' = (rb_inflight self, rb_pending self @ bs)"
    by (simp add: rb_view_def)
qed

subsection \<open>The contract its client uses\<close>

text \<open>
  The stream buffer a TCP session needs: bytes enter at the tail of the pending part, move to the
  in-flight part in order, and leave it from the front.
\<close>

locale stream_buffer =
  fixes ok :: "'b \<Rightarrow> bool"
    and view :: "'b \<Rightarrow> u8 list \<times> u8 list"
    and room :: "'b \<Rightarrow> nat"
    and put :: "'b \<Rightarrow> u8 list \<Rightarrow> 'b"
    and advance :: "'b \<Rightarrow> nat \<Rightarrow> 'b"
    and release :: "'b \<Rightarrow> nat \<Rightarrow> 'b"
  assumes put_ok: "ok b \<Longrightarrow> length bs \<le> room b \<Longrightarrow> ok (put b bs)"
    and put_view: "ok b \<Longrightarrow> length bs \<le> room b \<Longrightarrow> view b = (f, p) \<Longrightarrow> view (put b bs) = (f, p @ bs)"
    and advance_ok: "ok b \<Longrightarrow> view b = (f, p) \<Longrightarrow> n \<le> length p \<Longrightarrow> ok (advance b n)"
    and advance_view: "ok b \<Longrightarrow> view b = (f, p) \<Longrightarrow> n \<le> length p \<Longrightarrow>
      view (advance b n) = (f @ take n p, drop n p)"
    and release_ok: "ok b \<Longrightarrow> view b = (f, p) \<Longrightarrow> n \<le> length f \<Longrightarrow> ok (release b n)"
    and release_view: "ok b \<Longrightarrow> view b = (f, p) \<Longrightarrow> n \<le> length f \<Longrightarrow> view (release b n) = (drop n f, p)"
begin

text \<open>The bytes held, in stream order.\<close>

definition held :: "'b \<Rightarrow> u8 list" where
  "held b = fst (view b) @ snd (view b)"

lemma held_put: "ok b \<Longrightarrow> length bs \<le> room b \<Longrightarrow> held (put b bs) = held b @ bs"
  using put_view [of b bs] by (cases "view b") (simp add: held_def)

lemma held_advance: "ok b \<Longrightarrow> n \<le> length (snd (view b)) \<Longrightarrow> held (advance b n) = held b"
  using advance_view [of b _ _ n] by (cases "view b") (simp add: held_def)

lemma held_release: "ok b \<Longrightarrow> n \<le> length (fst (view b)) \<Longrightarrow> held (release b n) = drop n (held b)"
  using release_view [of b _ _ n] by (cases "view b") (simp add: held_def)

end

definition rb_put :: "HevRingBuffer \<Rightarrow> u8 list \<Rightarrow> HevRingBuffer" where
  "rb_put self bs = hev_ring_buffer_write_finish (rb_store self bs) (length bs)"

definition rb_room :: "HevRingBuffer \<Rightarrow> nat" where
  "rb_room self = iov_len (hev_ring_buffer_writing self)"

lemma length_rb_view:
  "length (rb_inflight self) = use_size self - rda_size self" "length (rb_pending self) = rda_size self"
  by (simp_all add: rb_inflight_def rb_pending_def)

interpretation rb: stream_buffer rb_ok rb_view rb_room rb_put
  hev_ring_buffer_read_finish hev_ring_buffer_read_release
proof unfold_locales
  fix b f p n
  assume ok: "rb_ok b" and v: "rb_view b = (f, p)"
  then have fp: "f = rb_inflight b" "p = rb_pending b" by (simp_all add: rb_view_def)
  show "n \<le> length p \<Longrightarrow> rb_ok (hev_ring_buffer_read_finish b n)"
    "n \<le> length p \<Longrightarrow> rb_view (hev_ring_buffer_read_finish b n) = (f @ take n p, drop n p)"
    "n \<le> length f \<Longrightarrow> rb_ok (hev_ring_buffer_read_release b n)"
    "n \<le> length f \<Longrightarrow> rb_view (hev_ring_buffer_read_release b n) = (drop n f, p)"
    using read_finish_view [OF ok] read_release_view [OF ok] by (auto simp: fp length_rb_view)
qed (auto simp: rb_put_def rb_room_def writing_room write_view rb_view_def
    dest: write_view(2) [unfolded rb_view_def])

subsection \<open>Properties\<close>

text \<open>C22 Filling the buffers \<^verbatim>\<open>hev_ring_buffer_writing\<close> offers and committing them appends
  exactly those bytes to the pending data and changes neither the order nor the contents of what
  is pending or still unacknowledged, wherever the pointers wrap; the buffer invariant holds
  afterwards, and every offered vector lies inside the storage.\<close>

theorem ring_write_appends:
  assumes "rb_ok self" and "length bs \<le> iov_len (hev_ring_buffer_writing self)"
  shows "rb_ok (hev_ring_buffer_write_finish (rb_store self bs) (length bs)) \<and>
    rb_view (hev_ring_buffer_write_finish (rb_store self bs) (length bs)) =
      (rb_inflight self, rb_pending self @ bs) \<and>
    (\<forall>(off, len) \<in> set (hev_ring_buffer_writing self). off + len \<le> max_size self)"
  using assms writing_in_bounds [OF assms(1)] write_view [OF assms(1), of bs]
  by (auto simp: writing_room)

definition demo_ring :: HevRingBuffer where
  "demo_ring = \<lparr>rp = 3, wp = 1, rda_size = 2, use_size = 3, max_size = 4, rb_data = [11, 12, 13, 14]\<rparr>"

lemma demo_ring_facts:
  "rb_ok demo_ring" "iov_len (hev_ring_buffer_writing demo_ring) = 1"
  "rb_view demo_ring = ([13], [14, 11])" "rda_size demo_ring = 2" "use_size demo_ring = 3"
  by (simp_all add: rb_ok_def demo_ring_def hev_ring_buffer_writing_def iov_len_def sz_sub_def
      rb_view_def rb_inflight_def rb_pending_def rb_base_def ring_def upt_rec)

theorem ring_write_appends_witness:
  "rb_view (hev_ring_buffer_write_finish (rb_store demo_ring [7]) 1) = ([13], [14, 11, 7])"
  using ring_write_appends [OF demo_ring_facts(1), of "[7]"] demo_ring_facts(2,3)
  by (simp add: rb_view_def)

text \<open>C23 Reading and acknowledging act on the two parts of the buffer as on one queue: the vectors
  \<^verbatim>\<open>hev_ring_buffer_reading\<close> offers are the pending bytes in order; finishing a read of \<open>n\<close>
  bytes moves the first \<open>n\<close> of them to the unacknowledged part, and releasing \<open>k\<close> bytes drops
  the oldest \<open>k\<close> unacknowledged ones.\<close>

theorem ring_read_release:
  assumes "rb_ok self" and "n \<le> rda_size self" and "k \<le> use_size self - rda_size self + n"
  shows "iov_bytes (rb_data self) (hev_ring_buffer_reading self) = rb_pending self \<and>
    rb_ok (hev_ring_buffer_read_release (hev_ring_buffer_read_finish self n) k) \<and>
    rb_view (hev_ring_buffer_read_release (hev_ring_buffer_read_finish self n) k) =
      (drop k (rb_inflight self @ take n (rb_pending self)), drop n (rb_pending self))"
proof -
  let ?s = "hev_ring_buffer_read_finish self n"
  have s: "rb_ok ?s" "rb_view ?s = (rb_inflight self @ take n (rb_pending self), drop n (rb_pending self))"
    using read_finish_view [OF assms(1,2)] by simp_all
  have "k \<le> length (rb_inflight self @ take n (rb_pending self))"
    using assms(2,3) by (simp add: length_rb_view)
  with rb.release_ok [OF s] rb.release_view [OF s] reading_bytes [OF assms(1)] show ?thesis by simp
qed

theorem ring_read_release_witness:
  "rb_view (hev_ring_buffer_read_release (hev_ring_buffer_read_finish demo_ring 1) 2) = ([], [11])"
  using ring_read_release [OF demo_ring_facts(1), of 1 2] demo_ring_facts(3-5)
  by (simp add: rb_view_def)

end
