(* ===== verification/Task_IO.thy ===== *)
theory Task_IO
  imports Prelude
begin

text \<open>
  Socket I/O of the cooperative task library
  (\<^verbatim>\<open>third-part/hev-task-system/src/lib/io/socket/hev-task-io-socket.c\<close>) and the base object
  \<^verbatim>\<open>HevSocks5\<close> (\<^verbatim>\<open>core/src/hev-socks5.c\<close>) whose yielder
  (\<^verbatim>\<open>core/src/hev-socks5-misc.c\<close>) decides when a blocked call gives up.

  The kernel is not part of the repository: every system call takes its answer from a script
  that is an argument of the model, so a theorem that quantifies over scripts covers every
  finite behaviour of the peer and of the network. A receive script ends in end-of-file; past
  the end of a send script the kernel accepts everything. A suspended task is resumed with a
  \<open>wait\<close>: the time \<^verbatim>\<open>hev_task_sleep\<close> reports as left, whether another task called
  \<^verbatim>\<open>hev_socks5_session_terminate\<close> meanwhile, and the state of the control connection that
  the UDP yielder polls.
\<close>

subsection \<open>The base object\<close>

datatype HevSocks5Type =
  HEV_SOCKS5_TYPE_NONE | HEV_SOCKS5_TYPE_TCP | HEV_SOCKS5_TYPE_UDP_IN_TCP | HEV_SOCKS5_TYPE_UDP_IN_UDP

datatype HevTaskYieldType = HEV_TASK_YIELD | HEV_TASK_WAITIO

datatype ctl_answer = CtlByte | CtlEof | CtlAgain | CtlErr

record wait =
  w_left :: int
  w_term :: bool
  w_ctl :: ctl_answer

datatype rx = RxData "u8 list" | RxAgain wait | RxFail
datatype tx = TxOk nat | TxAgain wait | TxFail
datatype cx = CxOk | CxInProgress wait | CxIsConn | CxFail

text \<open>
  \<^verbatim>\<open>HevSocks5\<close>, followed by the kernel's side of its socket \<open>fd\<close>: the answers still to
  come, the bytes accepted for sending, whether \<^verbatim>\<open>errno\<close> is
  \<^verbatim>\<open>EAGAIN\<close>, and the descriptors the object's operations have closed.
\<close>

record HevSocks5 =
  fd :: int
  timeout :: int
  udp_associated :: bool
  s_type :: HevSocks5Type
  addr_family :: int
  rxq :: "rx list"
  txq :: "tx list"
  sent :: "u8 list"
  eagain :: bool
  closed :: "int list"

definition hev_socks5_get_timeout :: "'a HevSocks5_scheme \<Rightarrow> int" where
  "hev_socks5_get_timeout self = timeout self"

definition hev_socks5_set_timeout :: "'a HevSocks5_scheme \<Rightarrow> int \<Rightarrow> 'a HevSocks5_scheme" where
  "hev_socks5_set_timeout self t = self\<lparr>timeout := t\<rparr>"

definition hev_socks5_get_addr_family :: "'a HevSocks5_scheme \<Rightarrow> int" where
  "hev_socks5_get_addr_family self = addr_family self"

definition hev_socks5_set_addr_family :: "'a HevSocks5_scheme \<Rightarrow> int \<Rightarrow> 'a HevSocks5_scheme" where
  "hev_socks5_set_addr_family self f = self\<lparr>addr_family := f\<rparr>"

text \<open>\<^verbatim>\<open>hev_socks5_bind\<close>, the binder of the base class, accepts every socket.\<close>

definition hev_socks5_bind :: "'a HevSocks5_scheme \<Rightarrow> int \<Rightarrow> int" where
  "hev_socks5_bind self sock = 0"

definition hev_socks5_construct :: "'a HevSocks5_scheme \<Rightarrow> HevSocks5Type \<Rightarrow> int \<times> 'a HevSocks5_scheme" where
  "hev_socks5_construct self t =
     (0, self\<lparr>fd := -1, timeout := -1, s_type := t, addr_family := 0\<rparr>)"

text \<open>\<^verbatim>\<open>hev_socks5_destruct\<close>: the descriptors it removes from the task and closes.\<close>

definition hev_socks5_destruct :: "'a HevSocks5_scheme \<Rightarrow> 'a HevSocks5_scheme" where
  "hev_socks5_destruct self =
     (if fd self \<ge> 0 then self\<lparr>closed := closed self @ [fd self]\<rparr> else self)"

subsection \<open>Yielders\<close>

definition resume :: "wait \<Rightarrow> 'a HevSocks5_scheme \<Rightarrow> 'a HevSocks5_scheme" where
  "resume w self = (if w_term w then self\<lparr>timeout := 0\<rparr> else self)"

definition hev_socks5_task_io_yielder ::
  "HevTaskYieldType \<Rightarrow> wait \<Rightarrow> 'a HevSocks5_scheme \<Rightarrow> int \<times> 'a HevSocks5_scheme" where
  "hev_socks5_task_io_yielder type w self =
     (if type = HEV_TASK_YIELD then (0, resume w self)
      else if timeout self < 0 then (0, resume w self)
      else if w_left w \<le> 0 then (-1, resume w self)
      else (0, resume w self))"

text \<open>The UDP yielder of \<^verbatim>\<open>core/src/hev-socks5-udp.c\<close> first polls the control connection.\<close>

definition udp_task_io_yielder ::
  "HevTaskYieldType \<Rightarrow> wait \<Rightarrow> 'a HevSocks5_scheme \<Rightarrow> int \<times> 'a HevSocks5_scheme" where
  "udp_task_io_yielder type w self =
     (if s_type self = HEV_SOCKS5_TYPE_UDP_IN_UDP \<and> (w_ctl w = CtlEof \<or> w_ctl w = CtlErr)
      then (-1, hev_socks5_set_timeout self 0)
      else hev_socks5_task_io_yielder type w self)"

type_synonym 'o yielder = "HevTaskYieldType \<Rightarrow> wait \<Rightarrow> 'o \<Rightarrow> int \<times> 'o"

subsection \<open>Stream sockets\<close>

text \<open>
  The retry loop of \<^verbatim>\<open>hev_task_io_socket_recv\<close> over the receive script: \<open>wa\<close> is
  \<^verbatim>\<open>MSG_WAITALL\<close>, \<open>dw\<close> is \<^verbatim>\<open>MSG_DONTWAIT\<close>, \<open>size'\<close> the bytes stored so far. It returns
  the result, the bytes stored by this and later rounds, the rest of the script and the object.
\<close>

fun recv_loop ::
  "'a HevSocks5_scheme yielder \<Rightarrow> bool \<Rightarrow> bool \<Rightarrow> nat \<Rightarrow> nat \<Rightarrow> rx list \<Rightarrow> 'a HevSocks5_scheme \<Rightarrow>
   int \<times> u8 list \<times> rx list \<times> 'a HevSocks5_scheme" where
  "recv_loop y wa dw len size' [] self = (if wa then int size' else 0, [], [], self)"
| "recv_loop y wa dw len size' (RxFail # q) self =
     (if wa \<and> size' \<noteq> 0 then int size' else -1, [], q, self\<lparr>eagain := False\<rparr>)"
| "recv_loop y wa dw len size' (RxAgain w # q) self =
     (let self = self\<lparr>eagain := True\<rparr>
      in if dw then (if wa \<and> size' \<noteq> 0 then int size' else -1, [], q, self)
         else case y HEV_TASK_WAITIO w self of
                (r, self) \<Rightarrow> if r \<noteq> 0 then (if size' \<noteq> 0 then int size' else -2, [], q, self)
                             else recv_loop y wa dw len size' q self)"
| "recv_loop y wa dw len size' (RxData bs # q) self =
     (let s = min (len - size') (length bs);
          q' = (if s < length bs then RxData (drop s bs) # q else q)
      in if \<not> wa then (int s, take s bs, q', self)
         else if s = 0 then (int size', [], q', self)
         else if size' + s < len then
           (case recv_loop y wa dw len (size' + s) q self of
              (r, rest, q'', self) \<Rightarrow> (r, take s bs @ rest, q'', self))
         else (int (size' + s), take s bs, q', self))"

definition hev_task_io_socket_recv ::
  "'a HevSocks5_scheme yielder \<Rightarrow> bool \<Rightarrow> bool \<Rightarrow> nat \<Rightarrow> 'a HevSocks5_scheme \<Rightarrow>
   int \<times> u8 list \<times> 'a HevSocks5_scheme" where
  "hev_task_io_socket_recv y wa dw len self =
     (case recv_loop y wa dw len 0 (rxq self) self of
        (r, bs, q, self) \<Rightarrow> (r, bs, self\<lparr>rxq := q\<rparr>))"

text \<open>The loop of \<^verbatim>\<open>hev_task_io_socket_send\<close>; \<open>buf\<close> is what is left to send.\<close>

fun send_loop ::
  "'a HevSocks5_scheme yielder \<Rightarrow> bool \<Rightarrow> bool \<Rightarrow> u8 list \<Rightarrow> nat \<Rightarrow> tx list \<Rightarrow> 'a HevSocks5_scheme \<Rightarrow>
   int \<times> tx list \<times> 'a HevSocks5_scheme" where
  "send_loop y wa dw buf size' [] self =
     (if wa then int (size' + length buf) else int (length buf), [], self\<lparr>sent := sent self @ buf\<rparr>)"
| "send_loop y wa dw buf size' (TxFail # q) self =
     (if wa \<and> size' \<noteq> 0 then int size' else -1, q, self\<lparr>eagain := False\<rparr>)"
| "send_loop y wa dw buf size' (TxAgain w # q) self =
     (let self = self\<lparr>eagain := True\<rparr>
      in if dw then (if wa \<and> size' \<noteq> 0 then int size' else -1, q, self)
         else case y HEV_TASK_WAITIO w self of
                (r, self) \<Rightarrow> if r \<noteq> 0 then (if size' \<noteq> 0 then int size' else -2, q, self)
                             else send_loop y wa dw buf size' q self)"
| "send_loop y wa dw buf size' (TxOk n # q) self =
     (let s = min n (length buf);
          self = self\<lparr>sent := sent self @ take s buf\<rparr>
      in if \<not> wa then (int s, q, self)
         else if s = 0 then (int size', q, self)
         else if s < length buf then send_loop y wa dw (drop s buf) (size' + s) q self
         else (int (size' + s), q, self))"

definition hev_task_io_socket_send ::
  "'a HevSocks5_scheme yielder \<Rightarrow> bool \<Rightarrow> bool \<Rightarrow> u8 list \<Rightarrow> 'a HevSocks5_scheme \<Rightarrow>
   int \<times> 'a HevSocks5_scheme" where
  "hev_task_io_socket_send y wa dw buf self =
     (case send_loop y wa dw buf 0 (txq self) self of (r, q, self) \<Rightarrow> (r, self\<lparr>txq := q\<rparr>))"

text \<open>
  \<^verbatim>\<open>hev_task_io_socket_sendmsg\<close> keeps its place in the scatter list: after a partial send
  of \<open>s\<close> bytes it skips whole vectors and shortens the first one that is not finished.
\<close>

fun iov_advance :: "nat \<Rightarrow> 'a list list \<Rightarrow> 'a list list" where
  "iov_advance s [] = []"
| "iov_advance s (v # vs) = (if s < length v then drop s v # vs else iov_advance (s - length v) vs)"

fun sendmsg_loop ::
  "'a HevSocks5_scheme yielder \<Rightarrow> bool \<Rightarrow> bool \<Rightarrow> nat \<Rightarrow> u8 list list \<Rightarrow> nat \<Rightarrow> tx list \<Rightarrow>
   'a HevSocks5_scheme \<Rightarrow> int \<times> tx list \<times> 'a HevSocks5_scheme" where
  "sendmsg_loop y wa dw len iov size' [] self =
     (if wa then int (size' + length (concat iov)) else int (length (concat iov)), [],
      self\<lparr>sent := sent self @ concat iov\<rparr>)"
| "sendmsg_loop y wa dw len iov size' (TxFail # q) self =
     (if wa \<and> size' \<noteq> 0 then int size' else -1, q, self\<lparr>eagain := False\<rparr>)"
| "sendmsg_loop y wa dw len iov size' (TxAgain w # q) self =
     (let self = self\<lparr>eagain := True\<rparr>
      in if dw then (if wa \<and> size' \<noteq> 0 then int size' else -1, q, self)
         else case y HEV_TASK_WAITIO w self of
                (r, self) \<Rightarrow> if r \<noteq> 0 then (if size' \<noteq> 0 then int size' else -2, q, self)
                             else sendmsg_loop y wa dw len iov size' q self)"
| "sendmsg_loop y wa dw len iov size' (TxOk n # q) self =
     (let s = min n (length (concat iov));
          self = self\<lparr>sent := sent self @ take s (concat iov)\<rparr>
      in if \<not> wa then (int s, q, self)
         else if s = 0 then (int size', q, self)
         else if size' + s < len
           then sendmsg_loop y wa dw len (iov_advance s iov) (size' + s) q self
         else (int (size' + s), q, self))"

definition hev_task_io_socket_sendmsg ::
  "'a HevSocks5_scheme yielder \<Rightarrow> bool \<Rightarrow> bool \<Rightarrow> u8 list list \<Rightarrow> 'a HevSocks5_scheme \<Rightarrow>
   int \<times> 'a HevSocks5_scheme" where
  "hev_task_io_socket_sendmsg y wa dw iov self =
     (case sendmsg_loop y wa dw (length (concat iov)) iov 0 (txq self) self of
        (r, q, self) \<Rightarrow> (r, self\<lparr>txq := q\<rparr>))"

text \<open>
  \<^verbatim>\<open>hev_task_io_socket_recvmsg\<close>: \<open>lens\<close> are the lengths of the vectors not yet filled. The
  result lists the bytes in the order in which they fill the vectors.
\<close>

fun len_advance :: "nat \<Rightarrow> nat list \<Rightarrow> nat list" where
  "len_advance s [] = []"
| "len_advance s (v # vs) = (if s < v then (v - s) # vs else len_advance (s - v) vs)"

fun recvmsg_loop ::
  "'a HevSocks5_scheme yielder \<Rightarrow> bool \<Rightarrow> bool \<Rightarrow> nat \<Rightarrow> nat list \<Rightarrow> nat \<Rightarrow> rx list \<Rightarrow>
   'a HevSocks5_scheme \<Rightarrow> int \<times> u8 list \<times> rx list \<times> 'a HevSocks5_scheme" where
  "recvmsg_loop y wa dw len lens size' [] self = (if wa then int size' else 0, [], [], self)"
| "recvmsg_loop y wa dw len lens size' (RxFail # q) self =
     (if wa \<and> size' \<noteq> 0 then int size' else -1, [], q, self\<lparr>eagain := False\<rparr>)"
| "recvmsg_loop y wa dw len lens size' (RxAgain w # q) self =
     (let self = self\<lparr>eagain := True\<rparr>
      in if dw then (if wa \<and> size' \<noteq> 0 then int size' else -1, [], q, self)
         else case y HEV_TASK_WAITIO w self of
                (r, self) \<Rightarrow> if r \<noteq> 0 then (if size' \<noteq> 0 then int size' else -2, [], q, self)
                             else recvmsg_loop y wa dw len lens size' q self)"
| "recvmsg_loop y wa dw len lens size' (RxData bs # q) self =
     (let s = min (sum_list lens) (length bs);
          q' = (if s < length bs then RxData (drop s bs) # q else q)
      in if \<not> wa then (int s, take s bs, q', self)
         else if s = 0 then (int size', [], q', self)
         else if size' + s < len then
           (case recvmsg_loop y wa dw len (len_advance s lens) (size' + s) q self of
              (r, rest, q'', self) \<Rightarrow> (r, take s bs @ rest, q'', self))
         else (int (size' + s), take s bs, q', self))"

definition hev_task_io_socket_recvmsg ::
  "'a HevSocks5_scheme yielder \<Rightarrow> bool \<Rightarrow> bool \<Rightarrow> nat list \<Rightarrow> 'a HevSocks5_scheme \<Rightarrow>
   int \<times> u8 list \<times> 'a HevSocks5_scheme" where
  "hev_task_io_socket_recvmsg y wa dw lens self =
     (case recvmsg_loop y wa dw (sum_list lens) lens 0 (rxq self) self of
        (r, bs, q, self) \<Rightarrow> (r, bs, self\<lparr>rxq := q\<rparr>))"

text \<open>
  Datagram sockets: the answers of the kernel to receives and sends, the result of a
  \<^verbatim>\<open>connect\<close>, and the datagrams accepted for sending with their destination (\<open>None\<close>: the peer
  the socket is connected to). Past the end of the receive script every receive fails.
\<close>

datatype 'm drx = DxMsgs "'m list" | DxAgain wait | DxFail

record ('i, 'm) dsock =
  d_rx :: "'i drx list"
  d_tx :: "tx list"
  d_conn :: int
  d_sent :: "'m list"

fun recvmmsg_loop ::
  "'a HevSocks5_scheme yielder \<Rightarrow> bool \<Rightarrow> bool \<Rightarrow> nat \<Rightarrow> nat \<Rightarrow> 'i drx list \<Rightarrow> 'a HevSocks5_scheme \<Rightarrow>
   int \<times> 'i list \<times> 'i drx list \<times> 'a HevSocks5_scheme" where
  "recvmmsg_loop y wa dw n c [] self = (if wa \<and> c \<noteq> 0 then int c else -1, [], [], self\<lparr>eagain := False\<rparr>)"
| "recvmmsg_loop y wa dw n c (DxFail # q) self =
     (if wa \<and> c \<noteq> 0 then int c else -1, [], q, self\<lparr>eagain := False\<rparr>)"
| "recvmmsg_loop y wa dw n c (DxAgain w # q) self =
     (let self = self\<lparr>eagain := True\<rparr>
      in if dw then (if wa \<and> c \<noteq> 0 then int c else -1, [], q, self)
         else case y HEV_TASK_WAITIO w self of
                (r, self) \<Rightarrow> if r \<noteq> 0 then (if c \<noteq> 0 then int c else -2, [], q, self)
                             else recvmmsg_loop y wa dw n c q self)"
| "recvmmsg_loop y wa dw n c (DxMsgs ms # q) self =
     (let r = min (n - c) (length ms);
          q' = (if r < length ms then DxMsgs (drop r ms) # q else q)
      in if \<not> wa then (int r, take r ms, q', self)
         else if r = 0 then (int c, [], q', self)
         else if c + r < n then
           (case recvmmsg_loop y wa dw n (c + r) q self of
              (k, rest, q'', self) \<Rightarrow> (k, take r ms @ rest, q'', self))
         else (int (c + r), take r ms, q', self))"

definition hev_task_io_socket_recvmmsg ::
  "'a HevSocks5_scheme yielder \<Rightarrow> bool \<Rightarrow> bool \<Rightarrow> nat \<Rightarrow> 'a HevSocks5_scheme \<Rightarrow> ('i, 'm) dsock \<Rightarrow>
   int \<times> 'i list \<times> 'a HevSocks5_scheme \<times> ('i, 'm) dsock" where
  "hev_task_io_socket_recvmmsg y wa dw n self D =
     (case recvmmsg_loop y wa dw n 0 (d_rx D) self of (r, ms, q, self) \<Rightarrow> (r, ms, self, D\<lparr>d_rx := q\<rparr>))"

text \<open>\<open>ms\<close> are the messages still to send, \<open>c\<close> the number sent; past the script all are accepted.\<close>

fun sendmmsg_loop ::
  "'a HevSocks5_scheme yielder \<Rightarrow> bool \<Rightarrow> bool \<Rightarrow> 'm list \<Rightarrow> nat \<Rightarrow> tx list \<Rightarrow> 'a HevSocks5_scheme \<Rightarrow>
   int \<times> 'm list \<times> tx list \<times> 'a HevSocks5_scheme" where
  "sendmmsg_loop y wa dw ms c [] self =
     (if wa then int (c + length ms) else int (length ms), ms, [], self)"
| "sendmmsg_loop y wa dw ms c (TxFail # q) self =
     (if wa \<and> c \<noteq> 0 then int c else -1, [], q, self\<lparr>eagain := False\<rparr>)"
| "sendmmsg_loop y wa dw ms c (TxAgain w # q) self =
     (let self = self\<lparr>eagain := True\<rparr>
      in if dw then (if wa \<and> c \<noteq> 0 then int c else -1, [], q, self)
         else case y HEV_TASK_WAITIO w self of
                (r, self) \<Rightarrow> if r \<noteq> 0 then (if c \<noteq> 0 then int c else -2, [], q, self)
                             else sendmmsg_loop y wa dw ms c q self)"
| "sendmmsg_loop y wa dw ms c (TxOk k # q) self =
     (let r = min k (length ms)
      in if \<not> wa then (int r, take r ms, q, self)
         else if r = 0 then (int c, [], q, self)
         else if r < length ms then
           (case sendmmsg_loop y wa dw (drop r ms) (c + r) q self of
              (k, rest, q, self) \<Rightarrow> (k, take r ms @ rest, q, self))
         else (int (c + r), take r ms, q, self))"

definition hev_task_io_socket_sendmmsg ::
  "'a HevSocks5_scheme yielder \<Rightarrow> bool \<Rightarrow> bool \<Rightarrow> 'm list \<Rightarrow> 'a HevSocks5_scheme \<Rightarrow> ('i, 'm) dsock \<Rightarrow>
   int \<times> 'a HevSocks5_scheme \<times> ('i, 'm) dsock" where
  "hev_task_io_socket_sendmmsg y wa dw ms self D =
     (case sendmmsg_loop y wa dw ms 0 (d_tx D) self of
        (r, out, q, self) \<Rightarrow> (r, self, D\<lparr>d_tx := q, d_sent := d_sent D @ out\<rparr>))"

text \<open>The retry loop of \<^verbatim>\<open>hev_task_io_socket_connect\<close>.\<close>

fun hev_task_io_socket_connect ::
  "'a HevSocks5_scheme yielder \<Rightarrow> cx list \<Rightarrow> 'a HevSocks5_scheme \<Rightarrow> int \<times> cx list \<times> 'a HevSocks5_scheme" where
  "hev_task_io_socket_connect y [] self = (0, [], self)"
| "hev_task_io_socket_connect y (CxOk # q) self = (0, q, self)"
| "hev_task_io_socket_connect y (CxIsConn # q) self = (0, q, self)"
| "hev_task_io_socket_connect y (CxFail # q) self = (-1, q, self)"
| "hev_task_io_socket_connect y (CxInProgress w # q) self =
     (case y HEV_TASK_WAITIO w self of
        (r, self) \<Rightarrow> if r \<noteq> 0 then (-2, q, self) else hev_task_io_socket_connect y q self)"

subsection \<open>What a receive returns\<close>

text \<open>The bytes a receive script delivers, and the scripts on which no call fails or times out.\<close>

fun rx_data :: "rx list \<Rightarrow> u8 list" where
  "rx_data [] = []"
| "rx_data (RxData bs # q) = bs @ rx_data q"
| "rx_data (RxAgain w # q) = rx_data q"
| "rx_data (RxFail # q) = rx_data q"

definition wait_live :: "wait \<Rightarrow> bool" where
  "wait_live w \<longleftrightarrow> 0 < w_left w \<and> \<not> w_term w \<and> w_ctl w = CtlAgain"

fun rx_live :: "rx list \<Rightarrow> bool" where
  "rx_live [] = True"
| "rx_live (RxData bs # q) = (bs \<noteq> [] \<and> rx_live q)"
| "rx_live (RxAgain w # q) = (wait_live w \<and> rx_live q)"
| "rx_live (RxFail # q) = False"

fun tx_live :: "tx list \<Rightarrow> bool" where
  "tx_live [] = True"
| "tx_live (TxOk n # q) = (0 < n \<and> tx_live q)"
| "tx_live (TxAgain w # q) = (wait_live w \<and> tx_live q)"
| "tx_live (TxFail # q) = False"

abbreviation task_io_yielder :: "'a HevSocks5_scheme yielder" where
  "task_io_yielder \<equiv> hev_socks5_task_io_yielder"

lemma yielder_live [simp]:
  "wait_live w \<Longrightarrow> hev_socks5_task_io_yielder t w self = (0, self)"
  "wait_live w \<Longrightarrow> udp_task_io_yielder t w self = (0, self)"
  by (simp_all add: wait_live_def hev_socks5_task_io_yielder_def udp_task_io_yielder_def resume_def)

lemma recv_loop_bytes:
  "recv_loop y wa dw len n q self = (r, bs, q', self') \<Longrightarrow> bs @ rx_data q' = rx_data q"
proof (induction q arbitrary: n self r bs)
  case (Cons a q)
  then show ?case
    by (cases a) (fastforce simp: Let_def min_def split: if_splits prod.splits)+
qed simp

lemma recv_again_cases:
  assumes "recv_loop y wa dw len n (RxAgain w # q) self = (r, bs, q', self')"
  obtains "bs = []" "q' = q" "r = int n \<and> n \<noteq> 0 \<or> r < 0 \<and> (wa \<longrightarrow> n = 0)"
    "dw \<and> self' = self\<lparr>eagain := True\<rparr> \<or> (\<exists>k. y HEV_TASK_WAITIO w (self\<lparr>eagain := True\<rparr>) = (k, self'))"
  | s1 where "\<not> dw" "y HEV_TASK_WAITIO w (self\<lparr>eagain := True\<rparr>) = (0, s1)"
    "recv_loop y wa dw len n q s1 = (r, bs, q', self')"
  using assms by (auto simp: Let_def split: if_splits prod.splits)

lemma recv_loop_count:
  "recv_loop y True dw len n q self = (r, bs, q', self') \<Longrightarrow> n < len \<Longrightarrow>
   n + length bs \<le> len \<and> (if 0 \<le> r then r = int (n + length bs) else n = 0 \<and> bs = [])"
proof (induction q arbitrary: n self r bs)
  case (Cons a q)
  show ?case
  proof (cases a)
    case (RxData bs0)
    let ?s = "min (len - n) (length bs0)"
    show ?thesis
    proof (cases "?s = 0 \<or> \<not> n + ?s < len")
      case True
      with Cons.prems RxData show ?thesis by (auto simp: Let_def min_def split: if_splits)
    next
      case False
      then have s: "?s = length bs0" "bs0 \<noteq> []" "n + length bs0 < len" by auto
      then obtain rest where "recv_loop y True dw len (n + length bs0) q self = (r, rest, q', self')"
        "bs = bs0 @ rest"
        using Cons.prems(1) RxData by (auto simp: Let_def split: prod.splits)
      with Cons.IH [of "n + length bs0" self r rest] s show ?thesis
        by (auto split: if_splits)
    qed
  next
    case (RxAgain w)
    from Cons.prems(1) [unfolded RxAgain] show ?thesis
    proof (cases rule: recv_again_cases)
      case 1
      with Cons.prems(2) show ?thesis by auto
    next
      case (2 s1)
      with Cons.IH [of n s1 r bs] Cons.prems(2) show ?thesis by blast
    qed
  next
    case RxFail
    with Cons.prems show ?thesis by (auto split: if_splits)
  qed
qed auto

text \<open>A call may change the time-out and \<^verbatim>\<open>errno\<close> of the object; the rest is \<open>frz\<close>.\<close>

definition frz :: "'a HevSocks5_scheme \<Rightarrow> 'a HevSocks5_scheme" where
  "frz self = self\<lparr>timeout := 0, eagain := False\<rparr>"

lemma frz_upd [simp]:
  "frz (self\<lparr>timeout := t\<rparr>) = frz self" "frz (self\<lparr>eagain := e\<rparr>) = frz self"
  "frz (self\<lparr>rxq := q\<rparr>) = (frz self)\<lparr>rxq := q\<rparr>" "frz (self\<lparr>txq := p\<rparr>) = (frz self)\<lparr>txq := p\<rparr>"
  "frz (self\<lparr>sent := b\<rparr>) = (frz self)\<lparr>sent := b\<rparr>" "frz (self\<lparr>fd := d\<rparr>) = (frz self)\<lparr>fd := d\<rparr>"
  "frz (self\<lparr>closed := c\<rparr>) = (frz self)\<lparr>closed := c\<rparr>"
  "frz (self\<lparr>addr_family := f\<rparr>) = (frz self)\<lparr>addr_family := f\<rparr>"
  by (cases self; simp add: frz_def)+

lemma frz_same [simp]:
  "(frz self)\<lparr>sent := sent self\<rparr> = frz self" "(frz self)\<lparr>rxq := rxq self\<rparr> = frz self"
  "(frz self)\<lparr>txq := txq self\<rparr> = frz self"
  by (cases self; simp add: frz_def)+

lemma frz_sel [simp]:
  "fd (frz self) = fd self" "s_type (frz self) = s_type self" "rxq (frz self) = rxq self"
  "addr_family (frz self) = addr_family self" "txq (frz self) = txq self"
  "udp_associated (frz self) = udp_associated self" "sent (frz self) = sent self"
  "closed (frz self) = closed self" "HevSocks5.more (frz self) = HevSocks5.more self"
  by (simp_all add: frz_def)

lemma frzD:
  assumes "frz a = frz b"
  shows "fd a = fd b" "s_type a = s_type b" "rxq a = rxq b" "addr_family a = addr_family b"
    "txq a = txq b" "udp_associated a = udp_associated b" "sent a = sent b" "closed a = closed b"
    "HevSocks5.more a = HevSocks5.more b"
  using assms by (metis frz_sel)+

lemma frz_fields:
  "frz a = frz b \<Longrightarrow> fd a = fd b \<and> s_type a = s_type b \<and> rxq a = rxq b \<and> addr_family a = addr_family b \<and>
    txq a = txq b \<and> udp_associated a = udp_associated b \<and> sent a = sent b \<and> closed a = closed b \<and>
    HevSocks5.more a = HevSocks5.more b"
  by (blast dest: frzD)

definition yields :: "'a HevSocks5_scheme yielder \<Rightarrow> bool" where
  "yields y \<longleftrightarrow> (\<forall>t w s. frz (snd (y t w s)) = frz s)"

lemma yieldsD: "yields y \<Longrightarrow> y t w s = (r, s') \<Longrightarrow> frz s' = frz s"
  unfolding yields_def by (metis snd_conv)

lemma yields_yielders [simp]: "yields hev_socks5_task_io_yielder" "yields udp_task_io_yielder"
  by (simp_all add: yields_def udp_task_io_yielder_def hev_socks5_task_io_yielder_def resume_def
      hev_socks5_set_timeout_def)

lemma recv_loop_frame:
  assumes y: "yields y"
  shows "recv_loop y wa dw len n q self = (r, bs, q', self') \<Longrightarrow> frz self' = frz self"
proof (induction q arbitrary: n self r bs)
  case (Cons a q)
  show ?case
  proof (cases a)
    case (RxData bs0)
    with Cons show ?thesis by (fastforce simp: Let_def split: if_splits prod.splits)
  next
    case (RxAgain w)
    from Cons.prems [unfolded RxAgain] show ?thesis
    proof (cases rule: recv_again_cases)
      case 1
      then show ?thesis by (auto dest!: yieldsD [OF y])
    next
      case (2 s1)
      with yieldsD [OF y 2(2)] Cons.IH [OF 2(3)] show ?thesis by simp
    qed
  qed (use Cons.prems in auto)
qed auto

lemma recv_loop_live:
  assumes y: "\<And>w t s. wait_live w \<Longrightarrow> y t w s = (0, s)"
  shows "rx_live q \<Longrightarrow> n < len \<Longrightarrow> len \<le> n + length (rx_data q) \<Longrightarrow>
   \<exists>q' e. recv_loop y True False len n q self =
            (int len, take (len - n) (rx_data q), q', self\<lparr>eagain := e\<rparr>) \<and>
          rx_live q' \<and> rx_data q' = drop (len - n) (rx_data q)"
proof (induction q arbitrary: n self)
  case (Cons a q)
  show ?case
  proof (cases a)
    case (RxData bs0)
    show ?thesis
    proof (cases "n + length bs0 < len")
      case True
      have ne: "bs0 \<noteq> []" using Cons.prems(1) RxData by simp
      from True Cons.prems RxData have "rx_live q" "n + length bs0 < len" "len \<le> n + length bs0 + length (rx_data q)"
        by simp_all
      from Cons.IH [OF this, of self] obtain q' e where
        ih: "recv_loop y True False len (n + length bs0) q self =
          (int len, take (len - (n + length bs0)) (rx_data q), q', self\<lparr>eagain := e\<rparr>)"
          "rx_live q'" "rx_data q' = drop (len - (n + length bs0)) (rx_data q)" by blast
      have "min (len - n) (length bs0) = length bs0" "len - n - length bs0 = len - (n + length bs0)"
        "length bs0 \<le> len - n" using True by simp_all
      then have "recv_loop y True False len n (a # q) self =
          (int len, take (len - n) (rx_data (a # q)), q', self\<lparr>eagain := e\<rparr>)"
        using ih(1) True ne by (simp add: RxData Let_def)
      moreover have "rx_data q' = drop (len - n) (rx_data (a # q))"
        using ih(3) True by (simp add: RxData)
      ultimately show ?thesis using ih(2) by blast
    next
      case False
      have self: "self\<lparr>eagain := eagain self\<rparr> = self" by simp
      from False Cons.prems RxData show ?thesis
        by (auto simp: Let_def min_def intro!: exI [of _ "eagain self"])
    qed
  next
    case (RxAgain w)
    with Cons.prems Cons.IH [of n "self\<lparr>eagain := True\<rparr>"] show ?thesis
      by (auto simp: Let_def y)
  qed (use Cons.prems in auto)
qed simp

lemma recv_frame:
  assumes "yields y" "hev_task_io_socket_recv y wa dw len self = (r, bs, self')"
  shows "frz self' = (frz self)\<lparr>rxq := rxq self'\<rparr>" "bs @ rx_data (rxq self') = rx_data (rxq self)"
  using assms recv_loop_frame [OF assms(1)] recv_loop_bytes
  by (fastforce simp: hev_task_io_socket_recv_def split: prod.splits)+

lemma recv_exact:
  assumes "hev_task_io_socket_recv y True dw len self = (int len, bs, self')" "0 < len"
  shows "length bs = len"
  using assms recv_loop_count [of y dw len 0 "rxq self" self]
  by (auto simp: hev_task_io_socket_recv_def split: prod.splits if_splits)

lemma recv_loop_zero: "recv_loop y True dw 0 0 q self = (r, bs, q', self') \<Longrightarrow> bs = []"
proof (induction q arbitrary: self)
  case (Cons a q)
  then show ?case by (cases a) (auto simp: Let_def split: if_splits prod.splits)
qed simp

lemma recv_length:
  assumes "hev_task_io_socket_recv y True dw len self = (int len, bs, self')"
  shows "length bs = len"
  using assms recv_exact [OF assms] recv_loop_zero
  by (cases "len = 0") (fastforce simp: hev_task_io_socket_recv_def split: prod.splits)+

lemma recv_live:
  assumes "\<And>w t s. wait_live w \<Longrightarrow> y t w s = (0, s)"
    and "rx_live (rxq self)" "0 < len" "len \<le> length (rx_data (rxq self))"
  shows "\<exists>q e. hev_task_io_socket_recv y True False len self =
      (int len, take len (rx_data (rxq self)), self\<lparr>rxq := q, eagain := e\<rparr>) \<and>
    rx_live q \<and> rx_data q = drop len (rx_data (rxq self))"
proof -
  from recv_loop_live [where y = y and n = 0 and self = self, OF assms(1-3)] assms(4)
  obtain q e where "recv_loop y True False len 0 (rxq self) self =
      (int len, take len (rx_data (rxq self)), q, self\<lparr>eagain := e\<rparr>)" "rx_live q"
    "rx_data q = drop len (rx_data (rxq self))" by auto
  then show ?thesis by (auto simp: hev_task_io_socket_recv_def intro!: exI [of _ q] exI [of _ e])
qed

subsection \<open>What a send does\<close>

lemma send_again_cases:
  assumes "send_loop y wa dw buf n (TxAgain w # q) self = (r, q', self')"
  obtains "q' = q" "r = int n \<and> n \<noteq> 0 \<or> r < 0 \<and> (wa \<longrightarrow> n = 0)"
    "dw \<and> self' = self\<lparr>eagain := True\<rparr> \<or> (\<exists>k. y HEV_TASK_WAITIO w (self\<lparr>eagain := True\<rparr>) = (k, self'))"
  | s1 where "\<not> dw" "y HEV_TASK_WAITIO w (self\<lparr>eagain := True\<rparr>) = (0, s1)"
    "send_loop y wa dw buf n q s1 = (r, q', self')"
  using assms by (auto simp: Let_def split: if_splits prod.splits)

lemma send_loop_prefix:
  assumes y: "yields y"
  shows "send_loop y True dw buf n q self = (r, q', self') \<Longrightarrow>
    \<exists>k\<le>length buf. frz self' = (frz self)\<lparr>sent := sent self @ take k buf\<rparr> \<and>
      (0 < r \<longrightarrow> r = int (n + k)) \<and> (r \<le> 0 \<longrightarrow> n = 0 \<and> k = 0)"
proof (induction q arbitrary: n self buf r)
  case Nil
  then show ?case by (cases buf) (auto intro!: exI [of _ "length buf"])
next
  case (Cons a q)
  show ?case
  proof (cases a)
    case (TxOk m)
    let ?s = "min m (length buf)"
    let ?self = "self\<lparr>sent := sent self @ take ?s buf\<rparr>"
    show ?thesis
    proof (cases "?s = 0 \<or> \<not> ?s < length buf")
      case True
      with Cons.prems TxOk show ?thesis
        by (cases buf) (auto simp: Let_def split: if_splits intro!: exI [of _ ?s])
    next
      case False
      then have m: "?s = m" "0 < m" "m < length buf" by auto
      with Cons.prems TxOk
      have "send_loop y True dw (drop m buf) (n + m) q (self\<lparr>sent := sent self @ take m buf\<rparr>) =
          (r, q', self')" by (simp add: Let_def)
      from Cons.IH [OF this] obtain k where "k \<le> length buf - m"
        "frz self' = (frz self)\<lparr>sent := sent self @ take m buf @ take k (drop m buf)\<rparr>"
        "0 < r \<longrightarrow> r = int (n + m + k)" "r \<le> 0 \<longrightarrow> n + m = 0 \<and> k = 0" by auto
      with m show ?thesis by (intro exI [of _ "m + k"]) (auto simp: take_add)
    qed
  next
    case (TxAgain w)
    from Cons.prems [unfolded TxAgain] show ?thesis
    proof (cases rule: send_again_cases)
      case 1
      then show ?thesis by (intro exI [of _ 0]) (auto dest: yieldsD [OF y])
    next
      case (2 s1)
      with yieldsD [OF y 2(2)] Cons.IH [OF 2(3)] show ?thesis by (auto dest: frzD(7))
    qed
  next
    case TxFail
    with Cons.prems show ?thesis by (intro exI [of _ 0]) (auto split: if_splits)
  qed
qed

lemma send_loop_live:
  assumes y: "\<And>w t s. wait_live w \<Longrightarrow> y t w s = (0, s)"
  shows "tx_live q \<Longrightarrow> buf \<noteq> [] \<Longrightarrow>
   \<exists>q' e. send_loop y True False buf n q self =
     (int (n + length buf), q', self\<lparr>sent := sent self @ buf, eagain := e\<rparr>) \<and> tx_live q'"
proof (induction q arbitrary: n self buf)
  case Nil
  show ?case by (auto intro!: exI [of _ "eagain self"])
next
  case (Cons a q)
  show ?case
  proof (cases a)
    case (TxOk m)
    show ?thesis
    proof (cases "m < length buf")
      case True
      with TxOk Cons.prems Cons.IH [of "drop m buf" "n + m" "self\<lparr>sent := sent self @ take m buf\<rparr>"]
      show ?thesis by (auto simp: Let_def min_def)
    next
      case False
      with TxOk Cons.prems show ?thesis
        by (auto simp: Let_def min_def intro!: exI [of _ "eagain self"])
    qed
  next
    case (TxAgain w)
    with Cons.prems Cons.IH [of buf n "self\<lparr>eagain := True\<rparr>"] show ?thesis by (auto simp: Let_def y)
  qed (use Cons.prems in auto)
qed

text \<open>Walking the scatter list is the same as sending its concatenation.\<close>

lemma concat_iov_advance: "concat (iov_advance s iov) = drop s (concat iov)"
  by (induction s iov rule: iov_advance.induct) auto

lemma sendmsg_loop_eq_send:
  "len = n + length (concat iov) \<Longrightarrow>
   sendmsg_loop y wa dw len iov n q self = send_loop y wa dw (concat iov) n q self"
proof (induction q arbitrary: n iov self)
  case (Cons a q)
  show ?case
  proof (cases a)
    case (TxOk m)
    let ?s = "min m (length (concat iov))"
    have "len = n + ?s + length (concat (iov_advance ?s iov))"
      using Cons.prems by (simp add: concat_iov_advance)
    note IH = Cons.IH [OF this]
    have "?s < length (concat iov) \<longleftrightarrow> n + ?s < len" using Cons.prems by simp
    then show ?thesis
      by (simp only: TxOk sendmsg_loop.simps send_loop.simps Let_def IH concat_iov_advance)
  next
    case (TxAgain w)
    show ?thesis
      by (simp only: TxAgain sendmsg_loop.simps send_loop.simps Let_def Cons.IH [OF Cons.prems])
  qed simp
qed simp

lemma sendmsg_eq_send:
  "hev_task_io_socket_sendmsg y wa dw iov self = hev_task_io_socket_send y wa dw (concat iov) self"
  by (simp add: hev_task_io_socket_sendmsg_def hev_task_io_socket_send_def sendmsg_loop_eq_send)

lemma sum_len_advance: "sum_list (len_advance s lens) = sum_list lens - s"
  by (induction s lens rule: len_advance.induct) auto

lemma recvmsg_loop_eq_recv:
  "len = n + sum_list lens \<Longrightarrow>
   recvmsg_loop y wa dw len lens n q self = recv_loop y wa dw len n q self"
proof (induction q arbitrary: n lens self)
  case (Cons a q)
  show ?case
  proof (cases a)
    case (RxData bs)
    have "recvmsg_loop y wa dw len (len_advance (min (sum_list lens) (length bs)) lens)
        (n + min (sum_list lens) (length bs)) q self =
      recv_loop y wa dw len (n + min (sum_list lens) (length bs)) q self"
      by (rule Cons.IH) (simp add: sum_len_advance Cons.prems)
    with RxData Cons.prems show ?thesis by (cases wa) (simp_all add: Let_def min_def)
  next
    case (RxAgain w)
    have "recvmsg_loop y wa dw len lens n q s = recv_loop y wa dw len n q s" for s
      using Cons by simp
    with RxAgain show ?thesis by (cases dw; cases "n = 0") (auto simp: Let_def split: prod.split)
  qed simp
qed simp

lemma recvmsg_eq_recv:
  "hev_task_io_socket_recvmsg y wa dw lens self = hev_task_io_socket_recv y wa dw (sum_list lens) self"
  by (simp add: hev_task_io_socket_recvmsg_def hev_task_io_socket_recv_def recvmsg_loop_eq_recv)

lemma recvmmsg_loop_frame:
  assumes y: "yields y"
  shows "recvmmsg_loop y wa dw n c q self = (r, ms, q', self') \<Longrightarrow> (\<not> wa \<Longrightarrow> c = 0) \<Longrightarrow>
    frz self' = frz self \<and> length ms \<le> n - c \<and> (\<not> wa \<longrightarrow> 0 < r \<longrightarrow> r = int (length ms))"
proof (induction q arbitrary: c self r ms q' self')
  case (Cons a q)
  show ?case
  proof (cases a)
    case (DxAgain w)
    obtain k s1 where y1: "y HEV_TASK_WAITIO w (self\<lparr>eagain := True\<rparr>) = (k, s1)" by (metis prod.exhaust)
    from yieldsD [OF y y1] have "frz s1 = frz self" by simp
    with DxAgain Cons y1 show ?thesis by (auto simp: Let_def split: if_splits)
  next
    case (DxMsgs ms0)
    with Cons show ?thesis by (fastforce simp: Let_def split: if_splits prod.splits)
  qed (use Cons in auto)
qed auto

lemma sendmmsg_loop_frame:
  assumes y: "yields y"
  shows "sendmmsg_loop y wa dw ms c q self = (r, out, q', self') \<Longrightarrow>
    frz self' = frz self \<and> (\<exists>k. out = take k ms)"
proof (induction q arbitrary: c self r out ms q' self')
  case Nil
  then show ?case by (auto intro!: exI [of _ "length ms"])
next
  case (Cons a q)
  show ?case
  proof (cases a)
    case (TxAgain w)
    obtain k s1 where y1: "y HEV_TASK_WAITIO w (self\<lparr>eagain := True\<rparr>) = (k, s1)" by (metis prod.exhaust)
    from yieldsD [OF y y1] have "frz s1 = frz self" by simp
    with TxAgain Cons y1 show ?thesis by (auto simp: Let_def split: if_splits intro: exI [of _ 0])
  next
    case (TxOk k)
    let ?r = "min k (length ms)"
    obtain k2 rest q2 s2 where l: "sendmmsg_loop y wa dw (drop ?r ms) (c + ?r) q self = (k2, rest, q2, s2)"
      by (metis prod_cases4)
    from Cons.IH [OF l] obtain j where "frz s2 = frz self" "rest = take j (drop ?r ms)" by auto
    with TxOk Cons.prems l show ?thesis
      by (auto simp: Let_def take_add [symmetric] split: if_splits intro: exI [of _ 0] exI [of _ "length ms"])
  qed (use Cons in \<open>auto intro: exI [of _ 0]\<close>)
qed

lemma send_prefix:
  assumes "yields y" "hev_task_io_socket_send y True dw buf self = (r, self')"
  shows "\<exists>k\<le>length buf. frz self' = (frz self)\<lparr>sent := sent self @ take k buf, txq := txq self'\<rparr> \<and>
      (0 < r \<longrightarrow> r = int k) \<and> (r \<le> 0 \<longrightarrow> k = 0)"
proof -
  from assms(2) obtain q s1 where l: "send_loop y True dw buf 0 (txq self) self = (r, q, s1)"
    "self' = s1\<lparr>txq := q\<rparr>" by (auto simp: hev_task_io_socket_send_def split: prod.splits)
  from send_loop_prefix [OF assms(1) l(1)] l(2) show ?thesis by auto
qed

lemma send_live:
  assumes "\<And>w t s. wait_live w \<Longrightarrow> y t w s = (0, s)" "tx_live (txq self)" "buf \<noteq> []"
  shows "\<exists>q e. hev_task_io_socket_send y True False buf self =
     (int (length buf), self\<lparr>sent := sent self @ buf, txq := q, eagain := e\<rparr>) \<and> tx_live q"
proof -
  from send_loop_live [where y = y and n = 0 and self = self, OF assms]
  obtain q e where "send_loop y True False buf 0 (txq self) self =
      (int (length buf), q, self\<lparr>sent := sent self @ buf, eagain := e\<rparr>)" "tx_live q" by auto
  then show ?thesis by (auto simp: hev_task_io_socket_send_def intro!: exI [of _ q] exI [of _ e])
qed

subsection \<open>Properties\<close>

text \<open>C24 Sending a scatter list with \<^verbatim>\<open>hev_task_io_socket_sendmsg\<close> is the same as sending the
  concatenation of its vectors with \<^verbatim>\<open>hev_task_io_socket_send\<close>, for every sequence of partial
  sends, waits and failures: the vector arithmetic that resumes after a partial send neither
  repeats nor skips a byte.\<close>

theorem sendmsg_is_send_of_concat:
  "hev_task_io_socket_sendmsg y wa dw iov self = hev_task_io_socket_send y wa dw (concat iov) self"
  by (rule sendmsg_eq_send)

end
