(* ===== verification/Socks5_Addr.thy ===== *)
theory Socks5_Addr
  imports Prelude
begin

text \<open>
  SOCKS5 addresses: the packed union \<^verbatim>\<open>HevSocks5Addr\<close> of
  \<^verbatim>\<open>core/include/hev-socks5-proto.h\<close> as its memory image (the code reads and writes it
  through several union members and sends it to the wire as it lies in memory), and the
  conversions of \<^verbatim>\<open>core/src/hev-socks5-misc.c\<close> to and from \<^verbatim>\<open>struct sockaddr_in6\<close>, host
  names and printable strings. The C library's \<^verbatim>\<open>inet_pton\<close>, \<^verbatim>\<open>inet_ntop\<close> and the
  resolver are parameters.
\<close>

subsection \<open>Protocol constants\<close>

abbreviation (input) HEV_SOCKS5_VERSION_5 :: u8 where "HEV_SOCKS5_VERSION_5 \<equiv> 5"
abbreviation (input) HEV_SOCKS5_AUTH_METHOD_NONE :: u8 where "HEV_SOCKS5_AUTH_METHOD_NONE \<equiv> 0"
abbreviation (input) HEV_SOCKS5_AUTH_METHOD_USER :: u8 where "HEV_SOCKS5_AUTH_METHOD_USER \<equiv> 2"
abbreviation (input) HEV_SOCKS5_AUTH_METHOD_DENY :: u8 where "HEV_SOCKS5_AUTH_METHOD_DENY \<equiv> 255"
abbreviation (input) HEV_SOCKS5_AUTH_VERSION_1 :: u8 where "HEV_SOCKS5_AUTH_VERSION_1 \<equiv> 1"
abbreviation (input) HEV_SOCKS5_REQ_CMD_CONNECT :: u8 where "HEV_SOCKS5_REQ_CMD_CONNECT \<equiv> 1"
abbreviation (input) HEV_SOCKS5_REQ_CMD_UDP_ASC :: u8 where "HEV_SOCKS5_REQ_CMD_UDP_ASC \<equiv> 3"
abbreviation (input) HEV_SOCKS5_REQ_CMD_FWD_UDP :: u8 where "HEV_SOCKS5_REQ_CMD_FWD_UDP \<equiv> 5"
abbreviation (input) HEV_SOCKS5_RES_REP_SUCC :: u8 where "HEV_SOCKS5_RES_REP_SUCC \<equiv> 0"
abbreviation (input) HEV_SOCKS5_RES_REP_FAIL :: u8 where "HEV_SOCKS5_RES_REP_FAIL \<equiv> 1"
abbreviation (input) HEV_SOCKS5_RES_REP_HOST :: u8 where "HEV_SOCKS5_RES_REP_HOST \<equiv> 4"
abbreviation (input) HEV_SOCKS5_RES_REP_IMPL :: u8 where "HEV_SOCKS5_RES_REP_IMPL \<equiv> 7"
abbreviation (input) HEV_SOCKS5_RES_REP_ADDR :: u8 where "HEV_SOCKS5_RES_REP_ADDR \<equiv> 8"
abbreviation (input) HEV_SOCKS5_ADDR_TYPE_IPV4 :: u8 where "HEV_SOCKS5_ADDR_TYPE_IPV4 \<equiv> 1"
abbreviation (input) HEV_SOCKS5_ADDR_TYPE_NAME :: u8 where "HEV_SOCKS5_ADDR_TYPE_NAME \<equiv> 3"
abbreviation (input) HEV_SOCKS5_ADDR_TYPE_IPV6 :: u8 where "HEV_SOCKS5_ADDR_TYPE_IPV6 \<equiv> 4"

text \<open>\<^verbatim>\<open>HevSocks5AddrFamily\<close>: the values of \<^verbatim>\<open>AF_INET\<close>, \<^verbatim>\<open>AF_INET6\<close>, \<^verbatim>\<open>AF_UNSPEC\<close> on Linux.\<close>

abbreviation (input) AF_UNSPEC :: int where "AF_UNSPEC \<equiv> 0"
abbreviation (input) AF_INET :: int where "AF_INET \<equiv> 2"
abbreviation (input) AF_INET6 :: int where "AF_INET6 \<equiv> 10"

subsection \<open>The address union in memory\<close>

type_synonym HevSocks5Addr = "u8 list"

definition sizeof_HevSocks5Addr :: nat where
  "sizeof_HevSocks5Addr = 1 + (1 + (256 + 2))"

abbreviation is_addr_mem :: "HevSocks5Addr \<Rightarrow> bool" where
  "is_addr_mem a \<equiv> length a = sizeof_HevSocks5Addr"

definition a_atype :: "HevSocks5Addr \<Rightarrow> u8" where
  "a_atype a = a ! 0"

definition a_domain_len :: "HevSocks5Addr \<Rightarrow> u8" where
  "a_domain_len a = a ! 1"

definition a_ipv4_addr :: "HevSocks5Addr \<Rightarrow> u8 list" where
  "a_ipv4_addr a = mem_read a 1 4"

definition a_ipv4_port :: "HevSocks5Addr \<Rightarrow> u16" where
  "a_ipv4_port a = of_le16 (mem_read a 5 2)"

definition a_ipv6_addr :: "HevSocks5Addr \<Rightarrow> u8 list" where
  "a_ipv6_addr a = mem_read a 1 16"

definition a_ipv6_port :: "HevSocks5Addr \<Rightarrow> u16" where
  "a_ipv6_port a = of_le16 (mem_read a 17 2)"

text \<open>The two port bytes after a domain name, as \<^verbatim>\<open>memcpy (&port, addr + len, 2)\<close> reads them.\<close>

definition a_domain_port :: "HevSocks5Addr \<Rightarrow> u16" where
  "a_domain_port a = of_le16 (mem_read a (2 + unat (a_domain_len a)) 2)"

definition a_domain_name :: "HevSocks5Addr \<Rightarrow> u8 list" where
  "a_domain_name a = mem_read a 2 (unat (a_domain_len a))"

text \<open>\<^verbatim>\<open>struct sockaddr_in6\<close>; the code never writes its flow and scope fields.\<close>

record sockaddr_in6 =
  sin6_family :: int
  sin6_port :: u16
  sin6_addr :: "u8 list"

subsection \<open>Conversions of hev-socks5-misc.c\<close>

definition hev_socks5_addr_len :: "HevSocks5Addr \<Rightarrow> int" where
  "hev_socks5_addr_len addr =
     (if a_atype addr = HEV_SOCKS5_ADDR_TYPE_IPV4 then 7
      else if a_atype addr = HEV_SOCKS5_ADDR_TYPE_IPV6 then 19
      else if a_atype addr = HEV_SOCKS5_ADDR_TYPE_NAME then 4 + int (unat (a_domain_len addr))
      else -1)"

text \<open>\<^verbatim>\<open>strncpy (dst, src, n)\<close> as the \<open>n\<close> bytes it stores, and \<^verbatim>\<open>strlen\<close> on a buffer.\<close>

definition strncpy_bytes :: "u8 list \<Rightarrow> nat \<Rightarrow> u8 list" where
  "strncpy_bytes src n = take n (src @ replicate n 0)"

definition c_string :: "u8 list \<Rightarrow> u8 list" where
  "c_string m = takeWhile (\<lambda>b. b \<noteq> 0) m"

definition hev_socks5_addr_from_name :: "HevSocks5Addr \<Rightarrow> u8 list \<Rightarrow> u16 \<Rightarrow> int \<times> HevSocks5Addr" where
  "hev_socks5_addr_from_name addr name port =
     (let addr = addr[0 := HEV_SOCKS5_ADDR_TYPE_NAME];
          addr = mem_write addr 2 (strncpy_bytes name 256);
          addr = addr[1 := of_nat (length (c_string (drop 2 addr)))];
          addr = mem_write addr (2 + unat (a_domain_len addr)) (le16 port)
      in (4 + int (unat (a_domain_len addr)), addr))"

definition hev_socks5_addr_from_ipv4 :: "HevSocks5Addr \<Rightarrow> u8 list \<Rightarrow> u16 \<Rightarrow> int \<times> HevSocks5Addr" where
  "hev_socks5_addr_from_ipv4 addr ipv4 port =
     (let addr = addr[0 := HEV_SOCKS5_ADDR_TYPE_IPV4];
          addr = mem_write addr 1 (take 4 ipv4);
          addr = mem_write addr 5 (le16 port)
      in (7, addr))"

definition hev_socks5_addr_from_ipv6 :: "HevSocks5Addr \<Rightarrow> u8 list \<Rightarrow> u16 \<Rightarrow> int \<times> HevSocks5Addr" where
  "hev_socks5_addr_from_ipv6 addr ipv6 port =
     (let addr = addr[0 := HEV_SOCKS5_ADDR_TYPE_IPV6];
          addr = mem_write addr 1 (take 16 ipv6);
          addr = mem_write addr 17 (le16 port)
      in (19, addr))"

definition in6_is_addr_v4mapped :: "u8 list \<Rightarrow> bool" where
  "in6_is_addr_v4mapped a \<longleftrightarrow> take 12 a = replicate 10 0 @ [0xff, 0xff]"

definition hev_socks5_addr_from_sockaddr6 :: "HevSocks5Addr \<Rightarrow> sockaddr_in6 \<Rightarrow> int \<times> HevSocks5Addr" where
  "hev_socks5_addr_from_sockaddr6 addr saddr =
     (if in6_is_addr_v4mapped (sin6_addr saddr) then
        (let addr = addr[0 := HEV_SOCKS5_ADDR_TYPE_IPV4];
             addr = mem_write addr 5 (le16 (sin6_port saddr));
             addr = mem_write addr 1 (mem_read (sin6_addr saddr) 12 4)
         in (7, addr))
      else
        (let addr = addr[0 := HEV_SOCKS5_ADDR_TYPE_IPV6];
             addr = mem_write addr 17 (le16 (sin6_port saddr));
             addr = mem_write addr 1 (mem_read (sin6_addr saddr) 0 16)
         in (19, addr)))"

definition hev_socks5_ipv4_into_sockaddr6 :: "HevSocks5Addr \<Rightarrow> sockaddr_in6 \<Rightarrow> sockaddr_in6" where
  "hev_socks5_ipv4_into_sockaddr6 addr saddr =
     (let saddr = saddr\<lparr>sin6_family := AF_INET6, sin6_port := a_ipv4_port addr\<rparr>;
          saddr = saddr\<lparr>sin6_addr := mem_write (sin6_addr saddr) 0 (replicate 10 0)\<rparr>;
          saddr = saddr\<lparr>sin6_addr := (sin6_addr saddr)[10 := 0xff]\<rparr>;
          saddr = saddr\<lparr>sin6_addr := (sin6_addr saddr)[11 := 0xff]\<rparr>
      in saddr\<lparr>sin6_addr := mem_write (sin6_addr saddr) 12 (a_ipv4_addr addr)\<rparr>)"

definition hev_socks5_ipv6_into_sockaddr6 :: "HevSocks5Addr \<Rightarrow> sockaddr_in6 \<Rightarrow> sockaddr_in6" where
  "hev_socks5_ipv6_into_sockaddr6 addr saddr =
     saddr\<lparr>sin6_family := AF_INET6, sin6_port := a_ipv6_port addr,
           sin6_addr := mem_write (sin6_addr saddr) 0 (a_ipv6_addr addr)\<rparr>"

text \<open>
  The resolver interface: \<open>pton4\<close> and \<open>pton6\<close> are \<^verbatim>\<open>inet_pton\<close> (\<open>None\<close> for a result of 0),
  \<open>gai name family\<close> is the first entry \<^verbatim>\<open>hev_task_dns_getaddrinfo\<close> returns, as its family
  and address bytes.
\<close>

record resolver =
  pton4 :: "u8 list \<Rightarrow> u8 list option"
  pton6 :: "u8 list \<Rightarrow> u8 list option"
  gai :: "u8 list \<Rightarrow> int \<Rightarrow> (int \<times> u8 list) option"

definition hev_socks5_name_resolve_ipv4 :: "resolver \<Rightarrow> u8 list \<Rightarrow> sockaddr_in6 \<Rightarrow> int \<times> sockaddr_in6" where
  "hev_socks5_name_resolve_ipv4 R name saddr =
     (let saddr = saddr\<lparr>sin6_addr := mem_write (sin6_addr saddr) 0 (replicate 10 0)\<rparr>
      in case pton4 R name of
           None \<Rightarrow> (-1, saddr)
         | Some b4 \<Rightarrow>
             (let saddr = saddr\<lparr>sin6_addr := mem_write (sin6_addr saddr) 12 b4\<rparr>;
                  saddr = saddr\<lparr>sin6_addr := (sin6_addr saddr)[10 := 0xff]\<rparr>
              in (0, saddr\<lparr>sin6_addr := (sin6_addr saddr)[11 := 0xff]\<rparr>)))"

definition hev_socks5_name_resolve_ipv6 :: "resolver \<Rightarrow> u8 list \<Rightarrow> sockaddr_in6 \<Rightarrow> int \<times> sockaddr_in6" where
  "hev_socks5_name_resolve_ipv6 R name saddr =
     (case pton6 R name of
        None \<Rightarrow> (-1, saddr)
      | Some b16 \<Rightarrow> (0, saddr\<lparr>sin6_addr := mem_write (sin6_addr saddr) 0 b16\<rparr>))"

definition hev_socks5_name_resolve_name ::
  "resolver \<Rightarrow> u8 list \<Rightarrow> sockaddr_in6 \<Rightarrow> int \<Rightarrow> int \<times> sockaddr_in6 \<times> int" where
  "hev_socks5_name_resolve_name R name saddr family =
     (case gai R name family of
        None \<Rightarrow> (-1, saddr, family)
      | Some (af, bs) \<Rightarrow>
          if af = AF_INET then
            (let saddr = saddr\<lparr>sin6_addr := mem_write (sin6_addr saddr) 0 (replicate 10 0)\<rparr>;
                 saddr = saddr\<lparr>sin6_addr := (sin6_addr saddr)[10 := 0xff, 11 := 0xff]\<rparr>
             in (0, saddr\<lparr>sin6_addr := mem_write (sin6_addr saddr) 12 (take 4 bs)\<rparr>, AF_INET))
          else if af = AF_INET6 then
            (0, saddr\<lparr>sin6_addr := mem_write (sin6_addr saddr) 0 (take 16 bs)\<rparr>, AF_INET6)
          else (-1, saddr, family))"

definition hev_socks5_name_into_sockaddr6 ::
  "resolver \<Rightarrow> u8 list \<Rightarrow> u16 \<Rightarrow> sockaddr_in6 \<Rightarrow> int \<Rightarrow> int \<times> sockaddr_in6 \<times> int" where
  "hev_socks5_name_into_sockaddr6 R name port saddr family =
     (let saddr = saddr\<lparr>sin6_family := AF_INET6, sin6_port := htons port\<rparr>;
          (res, saddr) = hev_socks5_name_resolve_ipv4 R name saddr
      in if res = 0 then (0, saddr, AF_INET)
         else let (res, saddr) = hev_socks5_name_resolve_ipv6 R name saddr
              in if res = 0 then (0, saddr, AF_INET6)
                 else hev_socks5_name_resolve_name R name saddr family)"

definition hev_socks5_addr_into_sockaddr6 ::
  "resolver \<Rightarrow> HevSocks5Addr \<Rightarrow> sockaddr_in6 \<Rightarrow> int \<Rightarrow> int \<times> sockaddr_in6 \<times> int" where
  "hev_socks5_addr_into_sockaddr6 R addr saddr family =
     (if a_atype addr = HEV_SOCKS5_ADDR_TYPE_IPV4 then
        (0, hev_socks5_ipv4_into_sockaddr6 addr saddr, AF_INET)
      else if a_atype addr = HEV_SOCKS5_ADDR_TYPE_IPV6 then
        (0, hev_socks5_ipv6_into_sockaddr6 addr saddr, AF_INET6)
      else if a_atype addr = HEV_SOCKS5_ADDR_TYPE_NAME then
        hev_socks5_name_into_sockaddr6 R (c_string (a_domain_name addr))
          (ntohs (a_domain_port addr)) saddr family
      else (-1, saddr, family))"

text \<open>\<^verbatim>\<open>hev_socks5_addr_get_port\<close> of \<^verbatim>\<open>hev-socks5-session-udp.c\<close>.\<close>

definition hev_socks5_addr_get_port :: "HevSocks5Addr \<Rightarrow> u16" where
  "hev_socks5_addr_get_port addr =
     (if a_atype addr = HEV_SOCKS5_ADDR_TYPE_IPV4 then a_ipv4_port addr
      else if a_atype addr = HEV_SOCKS5_ADDR_TYPE_IPV6 then a_ipv6_port addr
      else if a_atype addr = HEV_SOCKS5_ADDR_TYPE_NAME then a_domain_port addr
      else 0)"

fun show_nat :: "nat \<Rightarrow> u8 list" where
  "show_nat n = (if n < 10 then [48 + of_nat n] else show_nat (n div 10) @ [48 + of_nat (n mod 10)])"

declare show_nat.simps [simp del]

text \<open>\<open>ntop4\<close>, \<open>ntop6\<close>: the text \<^verbatim>\<open>inet_ntop\<close> stores. The result is the string in \<^verbatim>\<open>buf\<close>.\<close>

definition hev_socks5_addr_into_str ::
  "(u8 list \<Rightarrow> u8 list) \<Rightarrow> (u8 list \<Rightarrow> u8 list) \<Rightarrow> HevSocks5Addr \<Rightarrow> nat \<Rightarrow> u8 list option" where
  "hev_socks5_addr_into_str ntop4 ntop6 addr len =
     (let fmt = (\<lambda>sa port. Some (take (len - 1)
                   ([91] @ sa @ [93, 58] @ show_nat (unat (ntohs port)))))
      in if a_atype addr = HEV_SOCKS5_ADDR_TYPE_IPV4
           then fmt (ntop4 (a_ipv4_addr addr)) (a_ipv4_port addr)
         else if a_atype addr = HEV_SOCKS5_ADDR_TYPE_IPV6
           then fmt (ntop6 (a_ipv6_addr addr)) (a_ipv6_port addr)
         else if a_atype addr = HEV_SOCKS5_ADDR_TYPE_NAME
           then fmt (c_string (a_domain_name addr)) (a_domain_port addr)
         else None)"

subsection \<open>The wire form\<close>

text \<open>What the code sends for an address: its first \<^verbatim>\<open>hev_socks5_addr_len\<close> bytes.\<close>

definition addr_wire :: "HevSocks5Addr \<Rightarrow> u8 list" where
  "addr_wire a = take (nat (hev_socks5_addr_len a)) a"


lemma sizeof_addr [simp]: "sizeof_HevSocks5Addr = 260"
  by (simp add: sizeof_HevSocks5Addr_def)

lemma addr_wire_ipv4:
  assumes "length a = 260" "a_atype a = HEV_SOCKS5_ADDR_TYPE_IPV4"
  shows "addr_wire a = [1] @ a_ipv4_addr a @ le16 (a_ipv4_port a)"
proof -
  have "addr_wire a = mem_read a 0 (1 + 4 + 2)"
    using assms by (simp add: addr_wire_def hev_socks5_addr_len_def take_eq_mem_read)
  also have "\<dots> = mem_read a 0 1 @ mem_read a 1 4 @ mem_read a 5 2"
    using assms(1) by (simp only: mem_read_append add_0) simp
  also have "mem_read a 5 2 = le16 (a_ipv4_port a)"
    using assms(1) by (simp add: a_ipv4_port_def le16_of_le16)
  finally show ?thesis
    using assms by (simp add: mem_read_one [unfolded One_nat_def] a_atype_def a_ipv4_addr_def)
qed

lemma addr_wire_ipv6:
  assumes "length a = 260" "a_atype a = HEV_SOCKS5_ADDR_TYPE_IPV6"
  shows "addr_wire a = [4] @ a_ipv6_addr a @ le16 (a_ipv6_port a)"
proof -
  have "addr_wire a = mem_read a 0 (1 + 16 + 2)"
    using assms by (simp add: addr_wire_def hev_socks5_addr_len_def take_eq_mem_read)
  also have "\<dots> = mem_read a 0 1 @ mem_read a 1 16 @ mem_read a 17 2"
    using assms(1) by (simp only: mem_read_append add_0) simp
  also have "mem_read a 17 2 = le16 (a_ipv6_port a)"
    using assms(1) by (simp add: a_ipv6_port_def le16_of_le16)
  finally show ?thesis
    using assms by (simp add: mem_read_one [unfolded One_nat_def] a_atype_def a_ipv6_addr_def)
qed

lemma unat_u8_less: "unat (b :: u8) < 256"
  using unsigned_less [of b] by simp

lemma nat_4_plus: "nat (4 + int n) = Suc (Suc (Suc (Suc n)))"
  by simp

lemma addr_wire_name:
  assumes "length a = 260" "a_atype a = HEV_SOCKS5_ADDR_TYPE_NAME"
  shows "addr_wire a = [3, a_domain_len a] @ a_domain_name a @ le16 (a_domain_port a)"
proof -
  let ?n = "unat (a_domain_len a)"
  have n: "?n < 256" by (rule unat_u8_less)
  have "addr_wire a = mem_read a 0 (1 + 1 + ?n + 2)"
    using assms
    by (simp add: addr_wire_def hev_socks5_addr_len_def take_eq_mem_read nat_4_plus)
  also have "\<dots> = mem_read a 0 1 @ mem_read a 1 1 @ mem_read a 2 ?n @ mem_read a (2 + ?n) 2"
    using assms(1) n by (simp only: mem_read_append add_0) (simp add: numeral_2_eq_2)
  also have "mem_read a (2 + ?n) 2 = le16 (a_domain_port a)"
    using assms(1) n by (simp add: a_domain_port_def le16_of_le16)
  finally show ?thesis
    using assms by (simp add: mem_read_one [unfolded One_nat_def] a_atype_def a_domain_len_def
        a_domain_name_def)
qed

lemma length_addr_wire:
  "length a = 260 \<Longrightarrow> 0 \<le> hev_socks5_addr_len a \<Longrightarrow> int (length (addr_wire a)) = hev_socks5_addr_len a"
  using unat_u8_less [of "a_domain_len a"]
  by (auto simp: addr_wire_def hev_socks5_addr_len_def nat_4_plus split: if_splits)

lemma mem_write_nth_below: "i < off \<Longrightarrow> off \<le> length m \<Longrightarrow> mem_write m off xs ! i = m ! i"
  by (simp add: mem_write_def nth_append)

lemma from_ipv4_props:
  fixes port :: u16
  assumes "length a = 260" "length ip = 4"
  defines "r \<equiv> hev_socks5_addr_from_ipv4 a ip port"
  shows "fst r = 7" "length (snd r) = 260" "a_atype (snd r) = HEV_SOCKS5_ADDR_TYPE_IPV4"
    "a_ipv4_addr (snd r) = ip" "a_ipv4_port (snd r) = port"
  using assms
  by (simp_all add: r_def hev_socks5_addr_from_ipv4_def a_atype_def a_ipv4_addr_def a_ipv4_port_def
      mem_write_nth_below buf_simps)

lemma from_ipv6_props:
  fixes port :: u16
  assumes "length a = 260" "length ip = 16"
  defines "r \<equiv> hev_socks5_addr_from_ipv6 a ip port"
  shows "fst r = 19" "length (snd r) = 260" "a_atype (snd r) = HEV_SOCKS5_ADDR_TYPE_IPV6"
    "a_ipv6_addr (snd r) = ip" "a_ipv6_port (snd r) = port"
  using assms
  by (simp_all add: r_def hev_socks5_addr_from_ipv6_def a_atype_def a_ipv6_addr_def a_ipv6_port_def
      mem_write_nth_below buf_simps)

lemma c_string_append_nul: "0 \<notin> set s \<Longrightarrow> c_string (s @ 0 # m) = s"
  by (induction s) (auto simp: c_string_def)

lemma c_string_no_nul [simp]: "0 \<notin> set s \<Longrightarrow> c_string s = s"
  by (auto simp: c_string_def takeWhile_eq_all_conv)

lemma strncpy_short:
  "length s < n \<Longrightarrow> strncpy_bytes s n = s @ replicate (n - length s) 0"
  by (simp add: strncpy_bytes_def)

lemma from_name_props:
  fixes port :: u16
  assumes a: "length a = 260" and name: "length name \<le> 255" "0 \<notin> set name"
  defines "r \<equiv> hev_socks5_addr_from_name a name port"
  shows "fst r = 4 + int (length name)" "length (snd r) = 260"
    "a_atype (snd r) = HEV_SOCKS5_ADDR_TYPE_NAME" "unat (a_domain_len (snd r)) = length name"
    "a_domain_name (snd r) = name" "a_domain_port (snd r) = port"
proof -
  define m where "m = mem_write (a[0 := 3]) 2 (strncpy_bytes name 256)"
  have pad: "strncpy_bytes name 256 = name @ 0 # replicate (255 - length name) 0"
    using name by (simp add: strncpy_short Suc_diff_le flip: replicate_Suc)
  have dropm: "drop 2 m = name @ 0 # replicate (255 - length name) 0 @ drop 258 a"
    using a name by (simp add: m_def mem_write_def pad)
  have len: "length (c_string (drop 2 m)) = length name"
    using dropm name by (simp add: c_string_append_nul)
  have lm: "length m = 260" using a pad name by (simp add: m_def)
  define m1 where "m1 = m[1 := of_nat (length name)]"
  have len1: "unat (a_domain_len m1) = length name"
    using lm name by (simp add: m1_def a_domain_len_def unat_of_nat)
  have lm1: "length m1 = 260" by (simp add: m1_def lm)
  have name1: "mem_read m1 2 (length name) = name"
    using lm dropm by (simp add: m1_def mem_read_def)
  have r: "r = (4 + int (unat (a_domain_len (mem_write m1 (2 + length name) (le16 port)))),
      mem_write m1 (2 + length name) (le16 port))"
    unfolding r_def hev_socks5_addr_from_name_def Let_def m_def [symmetric] len m1_def [symmetric]
      len1 by (rule refl)
  have l2: "a_domain_len (mem_write m1 (2 + length name) (le16 port)) = a_domain_len m1"
    using lm1 name by (simp add: a_domain_len_def mem_write_nth_below)
  show "fst r = 4 + int (length name)" "unat (a_domain_len (snd r)) = length name"
    using l2 len1 by (simp_all add: r)
  show "length (snd r) = 260" using lm1 name by (simp add: r)
  show "a_atype (snd r) = HEV_SOCKS5_ADDR_TYPE_NAME"
    using lm1 a name by (simp add: r a_atype_def mem_write_nth_below m1_def m_def)
  show "a_domain_name (snd r) = name" "a_domain_port (snd r) = port"
    using l2 len1 name1 lm1 name
    by (simp_all add: r a_domain_name_def a_domain_port_def buf_simps)
qed

subsection \<open>Socket addresses\<close>

lemma v4mapped_split:
  "length x = 16 \<Longrightarrow> in6_is_addr_v4mapped x \<Longrightarrow> x = replicate 10 0 @ [0xff, 0xff] @ mem_read x 12 4"
  unfolding in6_is_addr_v4mapped_def
  by (subst append_take_drop_id [of 12, symmetric]) (simp add: mem_read_def)

lemma from_sockaddr6_v4:
  assumes "length a = 260" "length (sin6_addr sa) = 16" "in6_is_addr_v4mapped (sin6_addr sa)"
  defines "r \<equiv> hev_socks5_addr_from_sockaddr6 a sa"
  shows "fst r = 7" "length (snd r) = 260" "a_atype (snd r) = HEV_SOCKS5_ADDR_TYPE_IPV4"
    "a_ipv4_addr (snd r) = mem_read (sin6_addr sa) 12 4" "a_ipv4_port (snd r) = sin6_port sa"
  using assms
  by (simp_all add: r_def hev_socks5_addr_from_sockaddr6_def a_atype_def a_ipv4_addr_def
      a_ipv4_port_def mem_write_nth_below buf_simps)

lemma from_sockaddr6_v6:
  assumes "length a = 260" "length (sin6_addr sa) = 16" "\<not> in6_is_addr_v4mapped (sin6_addr sa)"
  defines "r \<equiv> hev_socks5_addr_from_sockaddr6 a sa"
  shows "fst r = 19" "length (snd r) = 260" "a_atype (snd r) = HEV_SOCKS5_ADDR_TYPE_IPV6"
    "a_ipv6_addr (snd r) = sin6_addr sa" "a_ipv6_port (snd r) = sin6_port sa"
  using assms
  by (simp_all add: r_def hev_socks5_addr_from_sockaddr6_def a_atype_def a_ipv6_addr_def
      a_ipv6_port_def mem_write_nth_below buf_simps mem_read_all)

lemma take_2_update: "2 \<le> length xs \<Longrightarrow> take 2 (xs[0 := x, Suc 0 := y]) = [x, y]"
  by (cases xs; cases "tl xs") auto

lemma ipv4_into_sockaddr6_addr:
  assumes "length (sin6_addr sa) = 16" "length a = 260"
  shows "hev_socks5_ipv4_into_sockaddr6 a sa =
     \<lparr>sin6_family = AF_INET6, sin6_port = a_ipv4_port a,
      sin6_addr = replicate 10 0 @ [0xff, 0xff] @ a_ipv4_addr a\<rparr>"
  using assms
  by (cases sa) (simp add: hev_socks5_ipv4_into_sockaddr6_def mem_write_def a_ipv4_addr_def
      list_update_append take_2_update)

lemma ipv6_into_sockaddr6_addr:
  assumes "length (sin6_addr sa) = 16" "length a = 260"
  shows "hev_socks5_ipv6_into_sockaddr6 a sa =
     \<lparr>sin6_family = AF_INET6, sin6_port = a_ipv6_port a, sin6_addr = a_ipv6_addr a\<rparr>"
  using assms
  by (cases sa) (simp add: hev_socks5_ipv6_into_sockaddr6_def mem_write_def a_ipv6_addr_def)

subsection \<open>Properties\<close>

text \<open>C37 A socket address survives the trip through a SOCKS5 address: converting an IPv6 socket
  address (IPv4-mapped or not) to its SOCKS5 form and back restores the address and port bytes and
  reports the family that was encoded, whatever the destination memory held before.\<close>

theorem sockaddr6_roundtrip:
  assumes "length a = 260" "length (sin6_addr sa) = 16" "length (sin6_addr out) = 16"
  shows "hev_socks5_addr_into_sockaddr6 R (snd (hev_socks5_addr_from_sockaddr6 a sa)) out fam =
    (0, \<lparr>sin6_family = AF_INET6, sin6_port = sin6_port sa, sin6_addr = sin6_addr sa\<rparr>,
     if in6_is_addr_v4mapped (sin6_addr sa) then AF_INET else AF_INET6)"
proof (cases "in6_is_addr_v4mapped (sin6_addr sa)")
  case True
  note f = from_sockaddr6_v4 [OF assms(1,2) True]
  from v4mapped_split [OF assms(2) True] f show ?thesis
    by (simp add: hev_socks5_addr_into_sockaddr6_def ipv4_into_sockaddr6_addr [OF assms(3)] True)
next
  case False
  note f = from_sockaddr6_v6 [OF assms(1,2) False]
  then show ?thesis
    by (simp add: hev_socks5_addr_into_sockaddr6_def ipv6_into_sockaddr6_addr [OF assms(3)] False)
qed

definition demo_sa :: sockaddr_in6 where
  "demo_sa = \<lparr>sin6_family = 10, sin6_port = 0x5000,
     sin6_addr = replicate 10 0 @ [0xff, 0xff, 10, 0, 0, 1]\<rparr>"

definition demo_resolver :: resolver where
  "demo_resolver = \<lparr>pton4 = (\<lambda>s. if s = [49] then Some [1, 2, 3, 4] else None), pton6 = (\<lambda>s. None),
     gai = (\<lambda>s f. None)\<rparr>"

theorem sockaddr6_roundtrip_witness:
  "hev_socks5_addr_into_sockaddr6 demo_resolver
     (snd (hev_socks5_addr_from_sockaddr6 (replicate 260 0xaa) demo_sa)) (demo_sa\<lparr>sin6_addr := replicate 16 7\<rparr>) 0
   = (0, demo_sa, 2)"
  using sockaddr6_roundtrip [of "replicate 260 0xaa" demo_sa "demo_sa\<lparr>sin6_addr := replicate 16 7\<rparr>" demo_resolver 0]
  by (simp add: demo_sa_def in6_is_addr_v4mapped_def)

text \<open>A host name of at most 255 bytes is encoded as the SOCKS5 domain form: type, length, the
  name and the two port bytes as they lie in memory (network order when the caller passes a port
  in network order), and the returned length is the length of that form.\<close>

theorem addr_from_name_wire:
  assumes "length a = 260" "length name \<le> 255" "0 \<notin> set name"
  shows "addr_wire (snd (hev_socks5_addr_from_name a name port)) =
      [3, of_nat (length name)] @ name @ le16 port \<and>
    fst (hev_socks5_addr_from_name a name port) = int (4 + length name)"
proof -
  note f = from_name_props [OF assms, of port]
  from f(4) have "a_domain_len (snd (hev_socks5_addr_from_name a name port)) = of_nat (length name)"
    by (metis word_of_nat_unat)
  with addr_wire_name [OF f(2,3)] f show ?thesis by simp
qed

theorem addr_from_name_wire_witness:
  "addr_wire (snd (hev_socks5_addr_from_name (replicate 260 0xee) [104, 105] (htons 443))) =
     [3, 2, 104, 105, 1, 187]"
proof -
  have "le16 (htons 443) = [1, 187]" by code_simp
  then show ?thesis using addr_from_name_wire [of "replicate 260 0xee" "[104, 105]" "htons 443"] by simp
qed

end
