(* ===== verification/Socks5_Client.thy ===== *)
theory Socks5_Client
  imports Task_IO Socks5_Addr
begin

text \<open>
  The SOCKS5 client the tunnel talks to its proxy with: the settings of
  \<^verbatim>\<open>core/src/hev-socks5-misc.c\<close>, the connection and handshake of
  \<^verbatim>\<open>core/src/hev-socks5-client.c\<close>, and the two subclasses of
  \<^verbatim>\<open>core/src/hev-socks5-client-tcp.c\<close> and \<^verbatim>\<open>core/src/hev-socks5-client-udp.c\<close>. Virtual
  methods are the fields of a class record. A dereference of a null pointer is the value
  \<open>None\<close>, so that its absence is a theorem.
\<close>

subsection \<open>Settings\<close>

record HevSocks5Misc =
  connect_timeout :: int
  tcp_timeout :: int
  udp_timeout :: int
  task_stack_size :: int
  udp_recv_buffer_size :: int
  udp_copy_buffer_nums :: int

definition hev_socks5_misc_init :: HevSocks5Misc where
  "hev_socks5_misc_init =
     \<lparr>connect_timeout = 10000, tcp_timeout = 300000, udp_timeout = 60000, task_stack_size = 8192,
      udp_recv_buffer_size = 512 * 1024, udp_copy_buffer_nums = 10\<rparr>"

definition hev_socks5_set_connect_timeout :: "int \<Rightarrow> HevSocks5Misc \<Rightarrow> HevSocks5Misc" where
  "hev_socks5_set_connect_timeout t G = G\<lparr>connect_timeout := t\<rparr>"

definition hev_socks5_set_tcp_timeout :: "int \<Rightarrow> HevSocks5Misc \<Rightarrow> HevSocks5Misc" where
  "hev_socks5_set_tcp_timeout t G = G\<lparr>tcp_timeout := t\<rparr>"

definition hev_socks5_set_udp_timeout :: "int \<Rightarrow> HevSocks5Misc \<Rightarrow> HevSocks5Misc" where
  "hev_socks5_set_udp_timeout t G = G\<lparr>udp_timeout := t\<rparr>"

definition hev_socks5_set_task_stack_size :: "int \<Rightarrow> HevSocks5Misc \<Rightarrow> HevSocks5Misc" where
  "hev_socks5_set_task_stack_size n G = G\<lparr>task_stack_size := n\<rparr>"

definition hev_socks5_set_udp_recv_buffer_size :: "int \<Rightarrow> HevSocks5Misc \<Rightarrow> HevSocks5Misc" where
  "hev_socks5_set_udp_recv_buffer_size n G = G\<lparr>udp_recv_buffer_size := n\<rparr>"

definition hev_socks5_set_udp_copy_buffer_nums :: "int \<Rightarrow> HevSocks5Misc \<Rightarrow> HevSocks5Misc" where
  "hev_socks5_set_udp_copy_buffer_nums n G = G\<lparr>udp_copy_buffer_nums := n\<rparr>"

subsection \<open>Opening a socket\<close>

text \<open>
  The answers of the operating system to one attempt to open and connect a socket: the
  descriptor \<^verbatim>\<open>socket\<close> returns, the result of \<^verbatim>\<open>setsockopt\<close>, the answers to
  \<^verbatim>\<open>connect\<close>, the later traffic of the socket, and the uninitialised stack variable
  \<^verbatim>\<open>saddr\<close>.
\<close>

record net_env =
  e_socket :: int
  e_v6only :: int
  e_conn :: "cx list"
  e_rx :: "rx list"
  e_tx :: "tx list"
  e_saddr :: sockaddr_in6

text \<open>\<^verbatim>\<open>hev_socks5_socket\<close>: the descriptor, and the descriptors it closes.\<close>

definition hev_socks5_socket :: "net_env \<Rightarrow> int \<times> int list" where
  "hev_socks5_socket E =
     (let fd = e_socket E
      in if fd < 0 then (-1, [])
         else if e_v6only E < 0 then (-1, [fd])
         else (fd, []))"

subsection \<open>The client object\<close>

record HevSocks5Client = HevSocks5 +
  auth_user :: "u8 list option"
  auth_pass :: "u8 list option"

record 'o HevSocks5ClientClass =
  k_binder :: "'o \<Rightarrow> int \<Rightarrow> sockaddr_in6 \<Rightarrow> int"
  get_upstream_addr :: "'o \<Rightarrow> HevSocks5Addr option \<times> 'o"
  set_upstream_addr :: "'o \<Rightarrow> HevSocks5Addr \<Rightarrow> int \<times> 'o"

definition hev_socks5_client_write_auth_methods ::
  "'a HevSocks5Client_scheme \<Rightarrow> int \<times> 'a HevSocks5Client_scheme" where
  "hev_socks5_client_write_auth_methods self =
     (let method = (if auth_user self = None \<or> auth_pass self = None
                    then HEV_SOCKS5_AUTH_METHOD_NONE else HEV_SOCKS5_AUTH_METHOD_USER);
          (res, self) = hev_task_io_socket_send task_io_yielder True False
                          [HEV_SOCKS5_VERSION_5, 1, method] self
      in if res \<le> 0 then (-1, self) else (0, self))"

definition hev_socks5_client_write_auth_creds ::
  "'a HevSocks5Client_scheme \<Rightarrow> int \<times> 'a HevSocks5Client_scheme" where
  "hev_socks5_client_write_auth_creds self =
     (case (auth_user self, auth_pass self) of
        (Some user, Some pass) \<Rightarrow>
          (let ub1 = of_nat (length user) :: u8;
               ub2 = of_nat (length pass) :: u8;
               iov = [[HEV_SOCKS5_AUTH_VERSION_1, ub1], take (unat ub1) user,
                      [ub2], take (unat ub2) pass];
               (res, self) = hev_task_io_socket_sendmsg task_io_yielder True False iov self
           in if res \<le> 0 then (-1, self) else (0, self))
      | _ \<Rightarrow> (0, self))"

definition hev_socks5_client_write_request ::
  "'a HevSocks5Client_scheme HevSocks5ClientClass \<Rightarrow> 'a HevSocks5Client_scheme \<Rightarrow>
   (int \<times> 'a HevSocks5Client_scheme) option" where
  "hev_socks5_client_write_request klass self =
     (case (case s_type self of
              HEV_SOCKS5_TYPE_TCP \<Rightarrow> Some HEV_SOCKS5_REQ_CMD_CONNECT
            | HEV_SOCKS5_TYPE_UDP_IN_TCP \<Rightarrow> Some HEV_SOCKS5_REQ_CMD_FWD_UDP
            | HEV_SOCKS5_TYPE_UDP_IN_UDP \<Rightarrow> Some HEV_SOCKS5_REQ_CMD_UDP_ASC
            | _ \<Rightarrow> None) of
        None \<Rightarrow> Some (-1, self)
      | Some cmd \<Rightarrow>
          (case get_upstream_addr klass self of
             (None, self) \<Rightarrow> None
           | (Some addr, self) \<Rightarrow>
               (let send = (\<lambda>addrlen.
                      let iov = [[HEV_SOCKS5_VERSION_5, cmd, 0], take addrlen addr];
                          (ret, self) = hev_task_io_socket_sendmsg task_io_yielder True False iov self
                      in if ret \<le> 0 then Some (-1, self) else Some (0, self))
                in if a_atype addr = HEV_SOCKS5_ADDR_TYPE_IPV4 then send 7
                   else if a_atype addr = HEV_SOCKS5_ADDR_TYPE_IPV6 then send 19
                   else if a_atype addr = HEV_SOCKS5_ADDR_TYPE_NAME
                     then send (4 + unat (a_domain_len addr))
                   else Some (-1, self))))"

definition hev_socks5_client_read_auth_method ::
  "'a HevSocks5Client_scheme \<Rightarrow> int \<times> 'a HevSocks5Client_scheme" where
  "hev_socks5_client_read_auth_method self =
     (let (res, auth, self) = hev_task_io_socket_recv task_io_yielder True False 2 self
      in if res \<noteq> 2 then (-1, self)
         else if auth ! 0 \<noteq> HEV_SOCKS5_VERSION_5 then (-1, self)
         else (int (unat (auth ! 1)), self))"

definition hev_socks5_client_read_auth_creds ::
  "'a HevSocks5Client_scheme \<Rightarrow> int \<times> 'a HevSocks5Client_scheme" where
  "hev_socks5_client_read_auth_creds self =
     (let (ret, res, self) = hev_task_io_socket_recv task_io_yielder True False 2 self
      in if ret \<noteq> 2 then (-1, self)
         else if res ! 0 \<noteq> HEV_SOCKS5_AUTH_VERSION_1 then (-1, self)
         else if res ! 1 \<noteq> HEV_SOCKS5_RES_REP_SUCC then (-1, self)
         else (0, self))"

text \<open>The address handed to \<open>set_upstream_addr\<close> is the part of \<^verbatim>\<open>res.addr\<close> that was received.\<close>

definition hev_socks5_client_read_response ::
  "'a HevSocks5Client_scheme HevSocks5ClientClass \<Rightarrow> 'a HevSocks5Client_scheme \<Rightarrow>
   int \<times> 'a HevSocks5Client_scheme" where
  "hev_socks5_client_read_response klass self =
     (let (ret, res, self) = hev_task_io_socket_recv task_io_yielder True False 4 self
      in if ret \<noteq> 4 then (-1, self)
         else if res ! 0 \<noteq> HEV_SOCKS5_VERSION_5 then (-1, self)
         else if res ! 1 \<noteq> HEV_SOCKS5_RES_REP_SUCC then (-1, self)
         else if res ! 3 \<noteq> HEV_SOCKS5_ADDR_TYPE_IPV4 \<and> res ! 3 \<noteq> HEV_SOCKS5_ADDR_TYPE_IPV6
           then (-1, self)
         else let addrlen = (if res ! 3 = HEV_SOCKS5_ADDR_TYPE_IPV4 then 6 else 18);
                  (ret, bs, self) = hev_task_io_socket_recv task_io_yielder True False addrlen self
              in if ret \<noteq> int addrlen then (-1, self)
                 else let (ret, self) = set_upstream_addr klass self (res ! 3 # bs)
                      in if ret < 0 then (-1, self) else (0, self))"

definition hev_socks5_client_connect ::
  "HevSocks5Misc \<Rightarrow> resolver \<Rightarrow> net_env \<Rightarrow> 'a HevSocks5Client_scheme HevSocks5ClientClass \<Rightarrow>
   'a HevSocks5Client_scheme \<Rightarrow> u8 list \<Rightarrow> int \<Rightarrow> int \<times> 'a HevSocks5Client_scheme" where
  "hev_socks5_client_connect G R E klass self addr port =
     (let self = hev_socks5_set_timeout self (connect_timeout G);
          family = hev_socks5_get_addr_family self;
          (res, saddr, family) = hev_socks5_name_into_sockaddr6 R addr (of_int port) (e_saddr E) family
      in if res < 0 then (-1, self)
         else let (s, cl) = hev_socks5_socket E;
                  self = self\<lparr>closed := closed self @ cl\<rparr>
              in if s < 0 then (-1, self)
                 else if k_binder klass self s saddr < 0
                   then (-1, self\<lparr>closed := closed self @ [s]\<rparr>)
                 else let (res, _, self) = hev_task_io_socket_connect task_io_yielder (e_conn E) self
                      in if res < 0 then (-1, self\<lparr>closed := closed self @ [s]\<rparr>)
                         else let self = self\<lparr>fd := s, rxq := e_rx E, txq := e_tx E, sent := []\<rparr>
                              in (0, hev_socks5_set_addr_family self family))"

definition hev_socks5_client_handshake_standard ::
  "'a HevSocks5Client_scheme HevSocks5ClientClass \<Rightarrow> 'a HevSocks5Client_scheme \<Rightarrow>
   (int \<times> 'a HevSocks5Client_scheme) option" where
  "hev_socks5_client_handshake_standard klass self =
     (let (res, self) = hev_socks5_client_write_auth_methods self
      in if res < 0 then Some (-1, self)
         else let (res, self) = hev_socks5_client_read_auth_method self
         in if res < 0 then Some (-1, self)
         else let (ok, self) =
                (if res = int (unat HEV_SOCKS5_AUTH_METHOD_USER) then
                   (let (res, self) = hev_socks5_client_write_auth_creds self
                    in if res < 0 then (False, self)
                       else let (res, self) = hev_socks5_client_read_auth_creds self
                            in (\<not> res < 0, self))
                 else (res = int (unat HEV_SOCKS5_AUTH_METHOD_NONE), self))
         in if \<not> ok then Some (-1, self)
         else case hev_socks5_client_write_request klass self of
                None \<Rightarrow> None
              | Some (res, self) \<Rightarrow>
                  if res < 0 then Some (-1, self)
                  else let (res, self) = hev_socks5_client_read_response klass self
                       in Some (if res < 0 then -1 else 0, self))"

definition hev_socks5_client_handshake_pipeline ::
  "'a HevSocks5Client_scheme HevSocks5ClientClass \<Rightarrow> 'a HevSocks5Client_scheme \<Rightarrow>
   (int \<times> 'a HevSocks5Client_scheme) option" where
  "hev_socks5_client_handshake_pipeline klass self =
     (let (res, self) = hev_socks5_client_write_auth_methods self
      in if res < 0 then Some (-1, self)
         else let (res, self) = hev_socks5_client_write_auth_creds self
         in if res < 0 then Some (-1, self)
         else case hev_socks5_client_write_request klass self of
                None \<Rightarrow> None
              | Some (res, self) \<Rightarrow>
                  if res < 0 then Some (-1, self)
                  else let (res, self) = hev_socks5_client_read_auth_method self
                  in if res < 0 then Some (-1, self)
                  else let (ok, self) =
                         (if res = int (unat HEV_SOCKS5_AUTH_METHOD_USER) then
                            (let (res, self) = hev_socks5_client_read_auth_creds self
                             in (\<not> res < 0, self))
                          else (res = int (unat HEV_SOCKS5_AUTH_METHOD_NONE), self))
                  in if \<not> ok then Some (-1, self)
                  else let (res, self) = hev_socks5_client_read_response klass self
                       in Some (if res < 0 then -1 else 0, self))"

definition hev_socks5_client_handshake ::
  "HevSocks5Misc \<Rightarrow> 'a HevSocks5Client_scheme HevSocks5ClientClass \<Rightarrow> bool \<Rightarrow>
   'a HevSocks5Client_scheme \<Rightarrow> (int \<times> 'a HevSocks5Client_scheme) option" where
  "hev_socks5_client_handshake G klass pipeline self =
     (let self = hev_socks5_set_timeout self (tcp_timeout G)
      in case (if pipeline then hev_socks5_client_handshake_pipeline klass self
               else hev_socks5_client_handshake_standard klass self) of
           None \<Rightarrow> None
         | Some (res, self) \<Rightarrow>
             (case s_type self of
                HEV_SOCKS5_TYPE_UDP_IN_TCP \<Rightarrow> Some (res, hev_socks5_set_timeout self (udp_timeout G))
              | HEV_SOCKS5_TYPE_UDP_IN_UDP \<Rightarrow> Some (res, hev_socks5_set_timeout self (udp_timeout G))
              | _ \<Rightarrow> Some (res, self)))"

definition hev_socks5_client_set_auth ::
  "'a HevSocks5Client_scheme \<Rightarrow> u8 list option \<Rightarrow> u8 list option \<Rightarrow> 'a HevSocks5Client_scheme" where
  "hev_socks5_client_set_auth self user pass = self\<lparr>auth_user := user, auth_pass := pass\<rparr>"

definition hev_socks5_client_construct ::
  "'a HevSocks5Client_scheme \<Rightarrow> HevSocks5Type \<Rightarrow> int \<times> 'a HevSocks5Client_scheme" where
  "hev_socks5_client_construct self type =
     (let (res, self) = hev_socks5_construct self type
      in if res < 0 then (res, self) else (0, self))"

definition hev_socks5_client_destruct :: "'a HevSocks5Client_scheme \<Rightarrow> 'a HevSocks5Client_scheme" where
  "hev_socks5_client_destruct self = hev_socks5_destruct self"

subsection \<open>The TCP client\<close>

record HevSocks5ClientTCP = HevSocks5Client +
  tcp_addr :: "HevSocks5Addr option"

text \<open>The object \<^verbatim>\<open>hev_malloc0\<close> returns; \<open>mok n\<close> says whether \<open>hev_malloc (n)\<close> succeeds.\<close>

definition client_tcp0 :: HevSocks5ClientTCP where
  "client_tcp0 =
     \<lparr>fd = 0, timeout = 0, udp_associated = False, s_type = HEV_SOCKS5_TYPE_NONE, addr_family = 0,
      rxq = [], txq = [], sent = [], eagain = False, closed = [],
      auth_user = None, auth_pass = None, tcp_addr = None\<rparr>"

definition hev_socks5_client_tcp_get_upstream_addr ::
  "'a HevSocks5ClientTCP_scheme \<Rightarrow> HevSocks5Addr option \<times> 'a HevSocks5ClientTCP_scheme" where
  "hev_socks5_client_tcp_get_upstream_addr self = (tcp_addr self, self\<lparr>tcp_addr := None\<rparr>)"

definition hev_socks5_client_tcp_set_upstream_addr ::
  "'a HevSocks5ClientTCP_scheme \<Rightarrow> HevSocks5Addr \<Rightarrow> int \<times> 'a HevSocks5ClientTCP_scheme" where
  "hev_socks5_client_tcp_set_upstream_addr self addr = (0, self)"

definition hev_socks5_client_tcp_class ::
  "'a HevSocks5ClientTCP_scheme HevSocks5ClientClass" where
  "hev_socks5_client_tcp_class =
     \<lparr>k_binder = (\<lambda>self s sa. hev_socks5_bind self s),
      get_upstream_addr = hev_socks5_client_tcp_get_upstream_addr,
      set_upstream_addr = hev_socks5_client_tcp_set_upstream_addr\<rparr>"

definition hev_socks5_client_tcp_construct ::
  "(nat \<Rightarrow> bool) \<Rightarrow> 'a HevSocks5ClientTCP_scheme \<Rightarrow> HevSocks5Addr \<Rightarrow>
   int \<times> 'a HevSocks5ClientTCP_scheme" where
  "hev_socks5_client_tcp_construct mok self addr =
     (let (res, self) = hev_socks5_client_construct self HEV_SOCKS5_TYPE_TCP
      in if res < 0 then (res, self)
         else let n = nat (hev_socks5_addr_len addr mod 2 ^ 64)
              in if \<not> mok n then (-1, self\<lparr>tcp_addr := None\<rparr>)
                 else (0, self\<lparr>tcp_addr := Some (take n addr)\<rparr>))"

definition hev_socks5_client_tcp_new ::
  "(nat \<Rightarrow> bool) \<Rightarrow> nat \<Rightarrow> HevSocks5Addr \<Rightarrow> HevSocks5ClientTCP option" where
  "hev_socks5_client_tcp_new mok size_self addr =
     (if \<not> mok size_self then None
      else let (res, self) = hev_socks5_client_tcp_construct mok client_tcp0 addr
           in if res < 0 then None else Some self)"

text \<open>The three constructors; \<open>mem\<close> is the uninitialised stack variable \<^verbatim>\<open>addr\<close>.\<close>

definition hev_socks5_client_tcp_new_name ::
  "(nat \<Rightarrow> bool) \<Rightarrow> nat \<Rightarrow> HevSocks5Addr \<Rightarrow> u8 list \<Rightarrow> int \<Rightarrow> HevSocks5ClientTCP option" where
  "hev_socks5_client_tcp_new_name mok sz mem name port =
     hev_socks5_client_tcp_new mok sz (snd (hev_socks5_addr_from_name mem name (of_int port)))"

definition hev_socks5_client_tcp_new_ipv4 ::
  "(nat \<Rightarrow> bool) \<Rightarrow> nat \<Rightarrow> HevSocks5Addr \<Rightarrow> u8 list \<Rightarrow> int \<Rightarrow> HevSocks5ClientTCP option" where
  "hev_socks5_client_tcp_new_ipv4 mok sz mem ipv4 port =
     hev_socks5_client_tcp_new mok sz (snd (hev_socks5_addr_from_ipv4 mem ipv4 (of_int port)))"

definition hev_socks5_client_tcp_new_ipv6 ::
  "(nat \<Rightarrow> bool) \<Rightarrow> nat \<Rightarrow> HevSocks5Addr \<Rightarrow> u8 list \<Rightarrow> int \<Rightarrow> HevSocks5ClientTCP option" where
  "hev_socks5_client_tcp_new_ipv6 mok sz mem ipv6 port =
     hev_socks5_client_tcp_new mok sz (snd (hev_socks5_addr_from_ipv6 mem ipv6 (of_int port)))"

definition hev_socks5_client_tcp_destruct ::
  "'a HevSocks5ClientTCP_scheme \<Rightarrow> 'a HevSocks5ClientTCP_scheme" where
  "hev_socks5_client_tcp_destruct self =
     (let self = (if tcp_addr self \<noteq> None then self\<lparr>tcp_addr := None\<rparr> else self)
      in hev_socks5_client_destruct self)"

subsection \<open>The UDP client\<close>

record HevSocks5ClientUDP = HevSocks5Client +
  c_udp_fd :: int

definition client_udp0 :: HevSocks5ClientUDP where
  "client_udp0 =
     \<lparr>fd = 0, timeout = 0, udp_associated = False, s_type = HEV_SOCKS5_TYPE_NONE, addr_family = 0,
      rxq = [], txq = [], sent = [], eagain = False, closed = [],
      auth_user = None, auth_pass = None, c_udp_fd = 0\<rparr>"

definition hev_socks5_client_udp_get_upstream_addr ::
  "(nat \<Rightarrow> bool) \<Rightarrow> 'a HevSocks5ClientUDP_scheme \<Rightarrow> HevSocks5Addr option \<times> 'a HevSocks5ClientUDP_scheme" where
  "hev_socks5_client_udp_get_upstream_addr mok base =
     (let family = hev_socks5_get_addr_family base
      in if family = AF_INET then
           (if mok 7 then Some ((replicate 7 0)[0 := HEV_SOCKS5_ADDR_TYPE_IPV4]) else None, base)
         else if family = AF_INET6 then
           (if mok 19 then Some ((replicate 19 0)[0 := HEV_SOCKS5_ADDR_TYPE_IPV6]) else None, base)
         else (None, base))"

definition hev_socks5_client_udp_set_upstream_addr ::
  "resolver \<Rightarrow> net_env \<Rightarrow> ('a HevSocks5ClientUDP_scheme \<Rightarrow> int \<Rightarrow> sockaddr_in6 \<Rightarrow> int) \<Rightarrow>
   'a HevSocks5ClientUDP_scheme \<Rightarrow> HevSocks5Addr \<Rightarrow> int \<times> 'a HevSocks5ClientUDP_scheme" where
  "hev_socks5_client_udp_set_upstream_addr R E bind self addr =
     (if s_type self \<noteq> HEV_SOCKS5_TYPE_UDP_IN_UDP then (0, self)
      else let (res, saddr, _) =
                 hev_socks5_addr_into_sockaddr6 R addr (e_saddr E) (hev_socks5_get_addr_family self)
           in if res < 0 then (-1, self)
              else let (s, cl) = hev_socks5_socket E;
                       self = self\<lparr>closed := closed self @ cl\<rparr>
                   in if s < 0 then (-1, self)
                      else if bind self s saddr < 0 then (-1, self\<lparr>closed := closed self @ [s]\<rparr>)
                      else let (res, _, self) = hev_task_io_socket_connect task_io_yielder (e_conn E) self
                           in if res < 0 then (-1, self\<lparr>closed := closed self @ [s]\<rparr>)
                              else (0, self\<lparr>udp_associated := True, c_udp_fd := s\<rparr>))"

definition hev_socks5_client_udp_get_fd :: "'a HevSocks5ClientUDP_scheme \<Rightarrow> int" where
  "hev_socks5_client_udp_get_fd self =
     (case s_type self of
        HEV_SOCKS5_TYPE_UDP_IN_TCP \<Rightarrow> fd self
      | HEV_SOCKS5_TYPE_UDP_IN_UDP \<Rightarrow> c_udp_fd self
      | _ \<Rightarrow> -1)"

definition hev_socks5_client_udp_class ::
  "(nat \<Rightarrow> bool) \<Rightarrow> resolver \<Rightarrow> net_env \<Rightarrow> 'a HevSocks5ClientUDP_scheme HevSocks5ClientClass" where
  "hev_socks5_client_udp_class mok R E =
     \<lparr>k_binder = (\<lambda>self s sa. hev_socks5_bind self s),
      get_upstream_addr = hev_socks5_client_udp_get_upstream_addr mok,
      set_upstream_addr =
        hev_socks5_client_udp_set_upstream_addr R E (\<lambda>self s sa. hev_socks5_bind self s)\<rparr>"

definition hev_socks5_client_udp_construct ::
  "'a HevSocks5ClientUDP_scheme \<Rightarrow> HevSocks5Type \<Rightarrow> int \<times> 'a HevSocks5ClientUDP_scheme" where
  "hev_socks5_client_udp_construct self type =
     (let (res, self) = hev_socks5_client_construct self type
      in if res < 0 then (res, self) else (0, self\<lparr>c_udp_fd := -1\<rparr>))"

definition hev_socks5_client_udp_new ::
  "(nat \<Rightarrow> bool) \<Rightarrow> nat \<Rightarrow> HevSocks5Type \<Rightarrow> HevSocks5ClientUDP option" where
  "hev_socks5_client_udp_new mok sz type =
     (if \<not> mok sz then None
      else let (res, self) = hev_socks5_client_udp_construct client_udp0 type
           in if res < 0 then None else Some self)"

definition hev_socks5_client_udp_destruct ::
  "'a HevSocks5ClientUDP_scheme \<Rightarrow> 'a HevSocks5ClientUDP_scheme" where
  "hev_socks5_client_udp_destruct self =
     (let self = (if c_udp_fd self \<ge> 0 then self\<lparr>closed := closed self @ [c_udp_fd self]\<rparr> else self)
      in hev_socks5_client_destruct self)"

subsection \<open>What the steps of the handshake put on the wire\<close>

definition methods_wire :: "'a HevSocks5Client_scheme \<Rightarrow> u8 list" where
  "methods_wire self = [5, 1, if auth_user self = None \<or> auth_pass self = None then 0 else 2]"

definition creds_wire :: "'a HevSocks5Client_scheme \<Rightarrow> u8 list" where
  "creds_wire self = (case (auth_user self, auth_pass self) of
     (Some u, Some p) \<Rightarrow>
       [1, of_nat (length u)] @ take (length u mod 256) u @
       [of_nat (length p)] @ take (length p mod 256) p
   | _ \<Rightarrow> [])"

fun request_cmd :: "HevSocks5Type \<Rightarrow> u8" where
  "request_cmd HEV_SOCKS5_TYPE_UDP_IN_TCP = 5"
| "request_cmd HEV_SOCKS5_TYPE_UDP_IN_UDP = 3"
| "request_cmd _ = 1"

definition request_wire :: "HevSocks5Type \<Rightarrow> HevSocks5Addr \<Rightarrow> u8 list" where
  "request_wire t addr = [5, request_cmd t, 0] @ addr_wire addr"

text \<open>
  A step of a live connection that sends \<open>out\<close>, consumes \<open>inn\<close> and leaves the connection live.
\<close>

definition conn_live :: "'a HevSocks5_scheme \<Rightarrow> bool" where
  "conn_live self \<longleftrightarrow> rx_live (rxq self) \<and> tx_live (txq self)"

definition moves :: "'a HevSocks5_scheme \<Rightarrow> u8 list \<Rightarrow> u8 list \<Rightarrow> 'a HevSocks5_scheme \<Rightarrow> bool" where
  "moves self out inn self' \<longleftrightarrow>
     conn_live self' \<and> sent self' = sent self @ out \<and>
     rx_data (rxq self) = inn @ rx_data (rxq self') \<and>
     s_type self' = s_type self \<and> addr_family self' = addr_family self"

lemma moves_trans: "moves a o1 i1 b \<Longrightarrow> moves b o2 i2 c \<Longrightarrow> moves a (o1 @ o2) (i1 @ i2) c"
  by (simp add: moves_def)

lemma send_moves:
  assumes "conn_live self" "buf \<noteq> []"
  shows "\<exists>self'. hev_task_io_socket_send task_io_yielder True False buf self =
      (int (length buf), self') \<and> moves self buf [] self' \<and> HevSocks5.more self' = HevSocks5.more self"
  using send_live [of task_io_yielder self buf] assms by (auto simp: conn_live_def moves_def)

lemma recv_moves:
  assumes "conn_live self" "rx_data (rxq self) = inn @ rest" "inn \<noteq> []" "n = length inn"
  shows "\<exists>self'. hev_task_io_socket_recv task_io_yielder True False n self =
      (int n, inn, self') \<and> moves self [] inn self' \<and> HevSocks5.more self' = HevSocks5.more self"
  using recv_live [of task_io_yielder self n] assms by (fastforce simp: conn_live_def moves_def)

lemma more_auth:
  fixes a b :: "'a HevSocks5Client_scheme"
  assumes "HevSocks5.more a = HevSocks5.more b"
  shows "auth_user a = auth_user b" "auth_pass a = auth_pass b"
  using assms by (cases a; cases b; simp)+

lemma write_auth_methods_moves:
  assumes "conn_live self"
  shows "\<exists>self'. hev_socks5_client_write_auth_methods self = (0, self') \<and>
    moves self (methods_wire self) [] self' \<and> HevSocks5.more self' = HevSocks5.more self"
  using send_moves [OF assms, of "methods_wire self"]
  by (auto simp: hev_socks5_client_write_auth_methods_def methods_wire_def)

lemma write_auth_creds_moves:
  assumes "conn_live self"
  shows "\<exists>self'. hev_socks5_client_write_auth_creds self = (0, self') \<and>
    moves self (creds_wire self) [] self' \<and> HevSocks5.more self' = HevSocks5.more self"
proof (cases "auth_user self = None \<or> auth_pass self = None")
  case True
  with assms show ?thesis
    by (auto simp: hev_socks5_client_write_auth_creds_def creds_wire_def moves_def split: option.split)
next
  case False
  then obtain u p where up: "auth_user self = Some u" "auth_pass self = Some p" by auto
  let ?iov = "[[1, of_nat (length u)], take (unat (of_nat (length u) :: u8)) u, [of_nat (length p)],
    take (unat (of_nat (length p) :: u8)) p]"
  have wire: "concat ?iov = creds_wire self" by (simp add: creds_wire_def up unat_of_nat)
  then obtain self' where s: "hev_task_io_socket_send task_io_yielder True False (concat ?iov) self =
      (int (length (creds_wire self)), self')" "moves self (creds_wire self) [] self'"
      "HevSocks5.more self' = HevSocks5.more self"
    using send_moves [OF assms, of "creds_wire self"] by (auto simp: creds_wire_def up)
  moreover have "0 < length (creds_wire self)" by (simp add: creds_wire_def up)
  ultimately show ?thesis
    by (simp only: hev_socks5_client_write_auth_creds_def up sendmsg_eq_send Let_def) simp
qed

lemma read_auth_method_moves:
  assumes "conn_live self" "rx_data (rxq self) = [5, m] @ rest"
  shows "\<exists>self'. hev_socks5_client_read_auth_method self = (int (unat m), self') \<and>
    moves self [] [5, m] self' \<and> HevSocks5.more self' = HevSocks5.more self"
  using recv_moves [OF assms, of 2] by (auto simp: hev_socks5_client_read_auth_method_def)

lemma read_auth_creds_moves:
  assumes "conn_live self" "rx_data (rxq self) = [1, 0] @ rest"
  shows "\<exists>self'. hev_socks5_client_read_auth_creds self = (0, self') \<and>
    moves self [] [1, 0] self' \<and> HevSocks5.more self' = HevSocks5.more self"
  using recv_moves [OF assms, of 2] by (auto simp: hev_socks5_client_read_auth_creds_def)

lemma write_request_eq:
  "hev_socks5_client_write_request klass self =
     (if s_type self = HEV_SOCKS5_TYPE_NONE then Some (-1, self)
      else case get_upstream_addr klass self of
             (None, self') \<Rightarrow> None
           | (Some addr, self') \<Rightarrow>
               if hev_socks5_addr_len addr < 0 then Some (-1, self')
               else case hev_task_io_socket_send task_io_yielder True False
                           (request_wire (s_type self) addr) self' of
                      (r, self') \<Rightarrow> Some (if r \<le> 0 then -1 else 0, self'))"
proof -
  have n: "nat (4 + int k) = 4 + k" for k by simp
  show ?thesis
    by (cases "s_type self")
      (auto simp: hev_socks5_client_write_request_def sendmsg_eq_send hev_socks5_addr_len_def
        request_wire_def addr_wire_def Let_def n simp del: nat_int_add split: option.split prod.split)
qed

text \<open>The middle part of the standard handshake, and the handshake over it.\<close>

definition client_creds_exchange ::
  "'a HevSocks5Client_scheme \<Rightarrow> bool \<times> 'a HevSocks5Client_scheme" where
  "client_creds_exchange self =
     (case hev_socks5_client_write_auth_creds self of
        (r, s1) \<Rightarrow> if r < 0 then (False, s1)
                  else case hev_socks5_client_read_auth_creds s1 of (r, s2) \<Rightarrow> (\<not> r < 0, s2))"

lemma handshake_standard_eq:
  "hev_socks5_client_handshake_standard klass self =
     (case hev_socks5_client_write_auth_methods self of (r, s1) \<Rightarrow>
      if r < 0 then Some (-1, s1)
      else case hev_socks5_client_read_auth_method s1 of (m, s2) \<Rightarrow>
      if m < 0 then Some (-1, s2)
      else case (if m = 2 then client_creds_exchange s2 else (m = 0, s2)) of (ok, s4) \<Rightarrow>
      if \<not> ok then Some (-1, s4)
      else case hev_socks5_client_write_request klass s4 of
             None \<Rightarrow> None
           | Some (r, s5) \<Rightarrow>
               if r < 0 then Some (-1, s5)
               else case hev_socks5_client_read_response klass s5 of
                      (r, s6) \<Rightarrow> Some (if r < 0 then -1 else 0, s6))"
  by (simp add: hev_socks5_client_handshake_standard_def client_creds_exchange_def Let_def
      split: prod.split option.split)

lemma creds_exchange_moves:
  assumes "conn_live self" "rx_data (rxq self) = [1, 0] @ rest"
  shows "\<exists>self'. client_creds_exchange self = (True, self') \<and>
    moves self (creds_wire self) [1, 0] self' \<and> HevSocks5.more self' = HevSocks5.more self"
proof -
  obtain s3 where s3: "hev_socks5_client_write_auth_creds self = (0, s3)"
    "moves self (creds_wire self) [] s3" "HevSocks5.more s3 = HevSocks5.more self"
    using write_auth_creds_moves [OF assms(1)] by auto
  have l3: "conn_live s3" "rx_data (rxq s3) = [1, 0] @ rest"
    using s3(2) assms(2) by (auto simp: moves_def)
  obtain s4 where s4: "hev_socks5_client_read_auth_creds s3 = (0, s4)"
    "moves s3 [] [1, 0] s4" "HevSocks5.more s4 = HevSocks5.more s3"
    using read_auth_creds_moves [OF l3] by auto
  show ?thesis using s3 s4 moves_trans [OF s3(2) s4(2)] by (auto simp: client_creds_exchange_def)
qed

text \<open>Facts that hold on every connection: what a step reads and what it writes.\<close>

lemma send_keeps:
  assumes "hev_task_io_socket_send task_io_yielder True dw buf self = (r, self')"
  shows "rxq self' = rxq self" "s_type self' = s_type self" "addr_family self' = addr_family self"
    "HevSocks5.more self' = HevSocks5.more self" "\<exists>k. sent self' = sent self @ take k buf"
proof -
  from send_prefix [OF _ assms] obtain k where
    f: "frz self' = (frz self)\<lparr>sent := sent self @ take k buf, txq := txq self'\<rparr>" by auto
  have "sent (frz self') = sent self @ take k buf" "rxq (frz self') = rxq self"
    "s_type (frz self') = s_type self" "addr_family (frz self') = addr_family self"
    "HevSocks5.more (frz self') = HevSocks5.more self" by (simp_all add: f)
  then show "rxq self' = rxq self" "s_type self' = s_type self" "addr_family self' = addr_family self"
    "HevSocks5.more self' = HevSocks5.more self" "\<exists>k. sent self' = sent self @ take k buf"
    by auto
qed

lemma recv_keeps:
  assumes "hev_task_io_socket_recv task_io_yielder wa dw n self = (r, bs, self')"
  shows "sent self' = sent self" "s_type self' = s_type self" "addr_family self' = addr_family self"
    "HevSocks5.more self' = HevSocks5.more self" "rx_data (rxq self) = bs @ rx_data (rxq self')"
proof -
  from recv_frame [OF _ assms] have f: "frz self' = (frz self)\<lparr>rxq := rxq self'\<rparr>"
    and b: "bs @ rx_data (rxq self') = rx_data (rxq self)" by auto
  have "sent (frz self') = sent self" "s_type (frz self') = s_type self"
    "addr_family (frz self') = addr_family self"
    "HevSocks5.more (frz self') = HevSocks5.more self" by (simp_all only: f) simp_all
  then show "sent self' = sent self" "s_type self' = s_type self" "addr_family self' = addr_family self"
    "HevSocks5.more self' = HevSocks5.more self" "rx_data (rxq self) = bs @ rx_data (rxq self')"
    using b by auto
qed

lemma write_auth_methods_keeps:
  assumes "hev_socks5_client_write_auth_methods self = (r, self')"
  shows "rxq self' = rxq self" "HevSocks5.more self' = HevSocks5.more self"
    "s_type self' = s_type self" "addr_family self' = addr_family self"
    "\<exists>k. sent self' = sent self @ take k (methods_wire self)"
  using assms
  by (auto simp: hev_socks5_client_write_auth_methods_def methods_wire_def dest: send_keeps
      split: prod.splits if_splits)

lemma write_auth_creds_keeps:
  assumes "hev_socks5_client_write_auth_creds self = (r, self')"
  shows "rxq self' = rxq self" "HevSocks5.more self' = HevSocks5.more self"
    "s_type self' = s_type self" "addr_family self' = addr_family self"
  using assms
  by (auto simp: hev_socks5_client_write_auth_creds_def sendmsg_eq_send Let_def dest: send_keeps
      split: prod.splits if_splits option.splits)

lemma two_bytes: "length bs = 2 \<Longrightarrow> bs = [bs ! 0, bs ! 1]"
  by (cases bs; cases "tl bs") auto

lemma four_bytes: "length bs = 4 \<Longrightarrow> bs = [bs ! 0, bs ! 1, bs ! 2, bs ! 3]"
  by (rule nth_equalityI) (auto simp: nth_Cons less_Suc_eq numeral_eq_Suc split: nat.splits)

lemma read_auth_method_keeps:
  assumes "hev_socks5_client_read_auth_method self = (r, self')"
  shows "sent self' = sent self" "HevSocks5.more self' = HevSocks5.more self"
    "s_type self' = s_type self" "addr_family self' = addr_family self"
    "0 \<le> r \<Longrightarrow> \<exists>m. r = int (unat m) \<and> rx_data (rxq self) = [5, m] @ rx_data (rxq self')"
proof -
  obtain n bs s1 where rc: "hev_task_io_socket_recv task_io_yielder True False 2 self = (n, bs, s1)"
    by (metis prod_cases3)
  with assms have s1: "s1 = self'"
    by (auto simp: hev_socks5_client_read_auth_method_def split: if_splits)
  show "sent self' = sent self" "HevSocks5.more self' = HevSocks5.more self"
    "s_type self' = s_type self" "addr_family self' = addr_family self"
    using recv_keeps [OF rc] s1 by simp_all
  assume "0 \<le> r"
  with assms rc have "n = int 2" "bs ! 0 = 5" "r = int (unat (bs ! 1))"
    by (auto simp: hev_socks5_client_read_auth_method_def split: if_splits)
  moreover from this rc have "length bs = 2" using recv_exact [of task_io_yielder False 2 self bs s1] by simp
  ultimately show "\<exists>m. r = int (unat m) \<and> rx_data (rxq self) = [5, m] @ rx_data (rxq self')"
    using recv_keeps(5) [OF rc] s1 two_bytes [of bs] by (intro exI [of _ "bs ! 1"]) auto
qed

lemma read_auth_creds_keeps:
  assumes "hev_socks5_client_read_auth_creds self = (r, self')"
  shows "sent self' = sent self" "HevSocks5.more self' = HevSocks5.more self"
    "s_type self' = s_type self" "addr_family self' = addr_family self"
    "0 \<le> r \<Longrightarrow> rx_data (rxq self) = [1, 0] @ rx_data (rxq self')"
proof -
  obtain n bs s1 where rc: "hev_task_io_socket_recv task_io_yielder True False 2 self = (n, bs, s1)"
    by (metis prod_cases3)
  with assms have s1: "s1 = self'"
    by (auto simp: hev_socks5_client_read_auth_creds_def split: if_splits)
  show "sent self' = sent self" "HevSocks5.more self' = HevSocks5.more self"
    "s_type self' = s_type self" "addr_family self' = addr_family self"
    using recv_keeps [OF rc] s1 by simp_all
  assume "0 \<le> r"
  with assms rc have "n = int 2" "bs ! 0 = 1" "bs ! 1 = 0"
    by (auto simp: hev_socks5_client_read_auth_creds_def split: if_splits)
  moreover from this rc have "length bs = 2" using recv_exact [of task_io_yielder False 2 self bs s1] by simp
  ultimately show "rx_data (rxq self) = [1, 0] @ rx_data (rxq self')"
    using recv_keeps(5) [OF rc] s1 two_bytes [of bs] by simp
qed

definition is_reply :: "u8 list \<Rightarrow> bool" where
  "is_reply rep \<longleftrightarrow> (\<exists>rsv a bs. rep = [5, 0, rsv, a] @ bs \<and>
     (a = 1 \<and> length bs = 6 \<or> a = 4 \<and> length bs = 18))"

subsection \<open>The interface to the subclasses\<close>

text \<open>
  What the handshake relies on in \<open>get_upstream_addr\<close> and \<open>set_upstream_addr\<close>: neither touches
  the control connection or the credentials, and the address does not depend on the traffic.
\<close>

locale client_class =
  fixes klass :: "'a HevSocks5Client_scheme HevSocks5ClientClass"
  assumes get_keeps: "get_upstream_addr klass self = (a, self') \<Longrightarrow>
      rxq self' = rxq self \<and> txq self' = txq self \<and> sent self' = sent self \<and>
      s_type self' = s_type self \<and> addr_family self' = addr_family self \<and>
      auth_user self' = auth_user self \<and> auth_pass self' = auth_pass self"
    and get_stable: "HevSocks5.more s = HevSocks5.more t \<Longrightarrow> addr_family s = addr_family t \<Longrightarrow>
      fst (get_upstream_addr klass s) = fst (get_upstream_addr klass t)"
    and set_keeps: "set_upstream_addr klass self addr = (r, self') \<Longrightarrow>
      rxq self' = rxq self \<and> txq self' = txq self \<and> sent self' = sent self \<and>
      s_type self' = s_type self \<and> addr_family self' = addr_family self"
begin

lemma write_request_moves:
  assumes "conn_live self" "fst (get_upstream_addr klass self) = Some addr"
    "0 \<le> hev_socks5_addr_len addr" "s_type self \<noteq> HEV_SOCKS5_TYPE_NONE"
  shows "\<exists>self'. hev_socks5_client_write_request klass self = Some (0, self') \<and>
    moves self (request_wire (s_type self) addr) [] self'"
proof -
  from assms(2) obtain s1 where g: "get_upstream_addr klass self = (Some addr, s1)"
    by (cases "get_upstream_addr klass self") auto
  note k = get_keeps [OF g]
  have l1: "conn_live s1" using k assms(1) by (simp add: conn_live_def)
  let ?w = "request_wire (s_type self) addr"
  have pos: "0 < length ?w" "?w \<noteq> []" by (simp_all add: request_wire_def)
  from send_moves [OF l1 pos(2)] obtain s2 where
    s2: "hev_task_io_socket_send task_io_yielder True False ?w s1 = (int (length ?w), s2)"
      "moves s1 ?w [] s2" by auto
  have "moves self ?w [] s2" using s2(2) k by (simp add: moves_def)
  moreover have "hev_socks5_client_write_request klass self = Some (0, s2)"
    using assms(3,4) pos s2(1) by (simp add: write_request_eq g)
  ultimately show ?thesis by blast
qed

lemma read_response_moves:
  assumes l: "conn_live self" and d: "rx_data (rxq self) = ([5, 0, rsv, a] @ bs) @ rest"
    and a: "a = 1 \<and> length bs = 6 \<or> a = 4 \<and> length bs = 18"
    and set_ok: "\<And>s. 0 \<le> fst (set_upstream_addr klass s (a # bs))"
  shows "\<exists>self'. hev_socks5_client_read_response klass self = (0, self') \<and>
    moves self [] ([5, 0, rsv, a] @ bs) self'"
proof -
  from recv_moves [OF l, of "[5, 0, rsv, a]" "bs @ rest" 4] d obtain s1 where
    s1: "hev_task_io_socket_recv task_io_yielder True False 4 self = (4, [5, 0, rsv, a], s1)"
      "moves self [] [5, 0, rsv, a] s1" by auto
  from s1(2) d have l1: "conn_live s1" "rx_data (rxq s1) = bs @ rest" by (auto simp: moves_def)
  define n where "n = length bs"
  from a have n: "(if a = 1 then 6 else 18) = n" "bs \<noteq> []" "a = 1 \<or> a = 4"
    by (auto simp: n_def)
  from recv_moves [OF l1 n(2) n_def] obtain s2 where
    s2: "hev_task_io_socket_recv task_io_yielder True False n s1 = (int n, bs, s2)"
      "moves s1 [] bs s2" by auto
  obtain r s3 where s3: "set_upstream_addr klass s2 (a # bs) = (r, s3)" by fastforce
  with set_ok [of s2] have r: "0 \<le> r" by simp
  have "moves s2 [] [] s3" using set_keeps [OF s3] s2(2) by (auto simp: moves_def conn_live_def)
  with s1(2) s2(2) have "moves self [] ([5, 0, rsv, a] @ bs) s3"
    using moves_trans [OF s1(2) moves_trans [OF s2(2), of "[]" "[]" s3]] by simp
  moreover have "hev_socks5_client_read_response klass self = (0, s3)"
    using n r s3 by (auto simp: hev_socks5_client_read_response_def s1(1) s2(1) Let_def)
  ultimately show ?thesis by blast
qed

text \<open>On a live connection to a server that accepts, both handshakes complete.\<close>

lemma handshake_standard_moves:
  assumes l: "conn_live self" and d: "rx_data (rxq self) = [5, m] @ au @ rep @ rest"
    and au: "m = 2 \<and> au = [1, 0] \<or> m = 0 \<and> au = []" and rep: "is_reply rep"
    and get: "fst (get_upstream_addr klass self) = Some addr" "0 \<le> hev_socks5_addr_len addr"
    and t: "s_type self \<noteq> HEV_SOCKS5_TYPE_NONE"
    and set_ok: "\<And>s x. 0 \<le> fst (set_upstream_addr klass s x)"
  shows "\<exists>self'. hev_socks5_client_handshake_standard klass self = Some (0, self') \<and>
    moves self (methods_wire self @ (if m = 2 then creds_wire self else []) @
      request_wire (s_type self) addr) ([5, m] @ au @ rep) self'"
proof -
  obtain rsv a bs where rep': "rep = [5, 0, rsv, a] @ bs"
    "a = 1 \<and> length bs = 6 \<or> a = 4 \<and> length bs = 18" using rep by (auto simp: is_reply_def)
  obtain s1 where s1: "hev_socks5_client_write_auth_methods self = (0, s1)"
    "moves self (methods_wire self) [] s1" "HevSocks5.more s1 = HevSocks5.more self"
    using write_auth_methods_moves [OF l] by auto
  have l1: "conn_live s1" "rx_data (rxq s1) = [5, m] @ au @ rep @ rest"
    using s1(2) d by (auto simp: moves_def)
  obtain s2 where s2: "hev_socks5_client_read_auth_method s1 = (int (unat m), s2)"
    "moves s1 [] [5, m] s2" "HevSocks5.more s2 = HevSocks5.more s1"
    using read_auth_method_moves [OF l1] by auto
  have l2: "conn_live s2" "rx_data (rxq s2) = au @ rep @ rest"
    using s2(2) l1(2) by (auto simp: moves_def)
  have c2: "creds_wire s2 = creds_wire self"
    using s1(3) s2(3) by (simp add: creds_wire_def more_auth [of s2 self])
  obtain s4 where s4: "(if m = 2 then client_creds_exchange s2 else (True, s2)) = (True, s4)"
    "moves s2 (if m = 2 then creds_wire self else []) au s4" "HevSocks5.more s4 = HevSocks5.more s2"
  proof (cases "m = 2")
    case True
    with creds_exchange_moves [OF l2(1), of "rep @ rest"] l2(2) au c2 that show ?thesis by auto
  next
    case False
    with au l2 that [of s2] show ?thesis by (auto simp: moves_def)
  qed
  have l4: "conn_live s4" "s_type s4 = s_type self" "addr_family s4 = addr_family self"
    "rx_data (rxq s4) = rep @ rest"
    using s1(2) s2(2) s4(2) l2(2) by (auto simp: moves_def)
  have "fst (get_upstream_addr klass s4) = Some addr"
    using get(1) get_stable [of s4 self] l4 s1(3) s2(3) s4(3) by simp
  then obtain s5 where s5: "hev_socks5_client_write_request klass s4 = Some (0, s5)"
    "moves s4 (request_wire (s_type self) addr) [] s5"
    using write_request_moves [OF l4(1) _ get(2)] l4(2) t by auto
  have l5: "conn_live s5" "rx_data (rxq s5) = rep @ rest" using s5(2) l4 by (auto simp: moves_def)
  obtain s6 where s6: "hev_socks5_client_read_response klass s5 = (0, s6)" "moves s5 [] rep s6"
    using read_response_moves [OF l5(1) _ rep'(2) set_ok] l5(2) rep'(1) by auto
  have "moves self (methods_wire self @ (if m = 2 then creds_wire self else []) @
      request_wire (s_type self) addr) ([5, m] @ au @ rep) s6"
    using moves_trans [OF s1(2) moves_trans [OF s2(2) moves_trans [OF s4(2) moves_trans [OF s5(2) s6(2)]]]]
    by simp
  moreover have "hev_socks5_client_handshake_standard klass self = Some (0, s6)"
    using s4(1) au
    by (auto simp: handshake_standard_eq s1(1) s2(1) s5(1) s6(1) split: if_splits)
  ultimately show ?thesis by blast
qed

lemma handshake_pipeline_moves:
  assumes l: "conn_live self" and d: "rx_data (rxq self) = [5, m] @ au @ rep @ rest"
    and au: "m = 2 \<and> au = [1, 0] \<or> m = 0 \<and> au = []" and rep: "is_reply rep"
    and get: "fst (get_upstream_addr klass self) = Some addr" "0 \<le> hev_socks5_addr_len addr"
    and t: "s_type self \<noteq> HEV_SOCKS5_TYPE_NONE"
    and set_ok: "\<And>s x. 0 \<le> fst (set_upstream_addr klass s x)"
  shows "\<exists>self'. hev_socks5_client_handshake_pipeline klass self = Some (0, self') \<and>
    moves self (methods_wire self @ creds_wire self @ request_wire (s_type self) addr)
      ([5, m] @ au @ rep) self'"
proof -
  obtain rsv a bs where rep': "rep = [5, 0, rsv, a] @ bs"
    "a = 1 \<and> length bs = 6 \<or> a = 4 \<and> length bs = 18" using rep by (auto simp: is_reply_def)
  obtain s1 where s1: "hev_socks5_client_write_auth_methods self = (0, s1)"
    "moves self (methods_wire self) [] s1" "HevSocks5.more s1 = HevSocks5.more self"
    using write_auth_methods_moves [OF l] by auto
  then have l1: "conn_live s1" by (simp add: moves_def)
  obtain s2 where s2: "hev_socks5_client_write_auth_creds s1 = (0, s2)"
    "moves s1 (creds_wire self) [] s2" "HevSocks5.more s2 = HevSocks5.more self"
    using write_auth_creds_moves [OF l1] s1(3) by (auto simp: creds_wire_def more_auth [of s1 self])
  then have l2: "conn_live s2" "s_type s2 = s_type self" "addr_family s2 = addr_family self"
    using s1(2) by (auto simp: moves_def)
  have "fst (get_upstream_addr klass s2) = Some addr"
    using get(1) get_stable [of s2 self] l2 s2(3) by simp
  then obtain s3 where s3: "hev_socks5_client_write_request klass s2 = Some (0, s3)"
    "moves s2 (request_wire (s_type self) addr) [] s3"
    using write_request_moves [OF l2(1) _ get(2)] l2(2) t by auto
  have l3: "conn_live s3" "rx_data (rxq s3) = [5, m] @ au @ rep @ rest"
    using s1(2) s2(2) s3(2) d by (auto simp: moves_def)
  obtain s4 where s4: "hev_socks5_client_read_auth_method s3 = (int (unat m), s4)"
    "moves s3 [] [5, m] s4" using read_auth_method_moves [OF l3] by auto
  have l4: "conn_live s4" "rx_data (rxq s4) = au @ rep @ rest"
    using s4(2) l3(2) by (auto simp: moves_def)
  obtain s5 where s5: "(if m = 2 then case hev_socks5_client_read_auth_creds s4 of (r, s) \<Rightarrow> (\<not> r < 0, s)
      else (True, s4)) = (True, s5)" "moves s4 [] au s5"
  proof (cases "m = 2")
    case True
    with read_auth_creds_moves [OF l4(1), of "rep @ rest"] l4(2) au that show ?thesis by auto
  next
    case False
    with au l4 that [of s4] show ?thesis by (auto simp: moves_def)
  qed
  have l5: "conn_live s5" "rx_data (rxq s5) = rep @ rest" using s5(2) l4 by (auto simp: moves_def)
  obtain s6 where s6: "hev_socks5_client_read_response klass s5 = (0, s6)" "moves s5 [] rep s6"
    using read_response_moves [OF l5(1) _ rep'(2) set_ok] l5(2) rep'(1) by auto
  have "hev_socks5_client_handshake_pipeline klass self = Some (0, s6)"
    using s5(1) au
    by (auto simp: hev_socks5_client_handshake_pipeline_def Let_def s1(1) s2(1) s3(1) s4(1) s6(1)
        split: if_splits)
  with moves_trans [OF s1(2) moves_trans [OF s2(2) moves_trans [OF s3(2) moves_trans [OF s4(2)
        moves_trans [OF s5(2) s6(2)]]]]]
  show ?thesis by simp
qed

lemma write_request_keeps:
  assumes "hev_socks5_client_write_request klass self = Some (r, self')"
  shows "rxq self' = rxq self" "s_type self' = s_type self"
    "\<exists>k addr. sent self' = sent self @ take k (request_wire (s_type self) addr)"
proof -
  have "rxq self' = rxq self \<and> s_type self' = s_type self \<and>
    (\<exists>k addr. sent self' = sent self @ take k (request_wire (s_type self) addr))"
  proof (cases "s_type self = HEV_SOCKS5_TYPE_NONE")
    case True
    with assms show ?thesis by (auto simp: write_request_eq intro!: exI [of _ 0])
  next
    case False
    obtain a s1 where g: "get_upstream_addr klass self = (a, s1)" by fastforce
    note k = get_keeps [OF g]
    show ?thesis
    proof (cases "a = None \<or> hev_socks5_addr_len (the a) < 0")
      case True
      with assms False k g show ?thesis
        by (auto simp: write_request_eq split: option.splits if_splits intro!: exI [of _ 0])
    next
      case a: False
      obtain n s2 where s2: "hev_task_io_socket_send task_io_yielder True False
          (request_wire (s_type self) (the a)) s1 = (n, s2)" by fastforce
      with assms False a g have "self' = s2" by (auto simp: write_request_eq)
      with send_keeps [OF s2] k show ?thesis by auto
    qed
  qed
  then show "rxq self' = rxq self" "s_type self' = s_type self"
    "\<exists>k addr. sent self' = sent self @ take k (request_wire (s_type self) addr)" by auto
qed

lemma read_response_keeps:
  assumes "hev_socks5_client_read_response klass self = (r, self')"
  shows "sent self' = sent self"
    "0 \<le> r \<Longrightarrow> \<exists>rep. is_reply rep \<and> rx_data (rxq self) = rep @ rx_data (rxq self')"
proof -
  obtain n h s1 where h: "hev_task_io_socket_recv task_io_yielder True False 4 self = (n, h, s1)"
    by (metis prod_cases3)
  define al :: nat where "al = (if h ! 3 = 1 then 6 else 18)"
  obtain k bs s2 where b: "hev_task_io_socket_recv task_io_yielder True False al s1 = (k, bs, s2)"
    by (metis prod_cases3)
  obtain e s3 where st: "set_upstream_addr klass s2 (h ! 3 # bs) = (e, s3)" by fastforce
  have "self' = s1 \<or> self' = s2 \<or> self' = s3"
    and good: "0 \<le> r \<Longrightarrow> self' = s3 \<and> n = int 4 \<and> h ! 0 = 5 \<and> h ! 1 = 0 \<and> (h ! 3 = 1 \<or> h ! 3 = 4) \<and>
      k = int al"
    using assms h b st
    by (auto simp: hev_socks5_client_read_response_def al_def Let_def split: if_splits)
  then show "sent self' = sent self"
    using recv_keeps(1) [OF h] recv_keeps(1) [OF b] set_keeps [OF st] by auto
  assume "0 \<le> r"
  note g = good [OF this]
  then have "length h = 4" "length bs = al"
    using recv_exact [of task_io_yielder False 4 self h s1] recv_exact [of task_io_yielder False al s1 bs s2]
      h b by (auto simp: al_def)
  moreover from this(1) g have "h = [5, 0, h ! 2, h ! 3]" using four_bytes [of h] by simp
  ultimately have "is_reply (h @ bs)"
    unfolding is_reply_def using g
    by (intro exI [of _ "h ! 2"] exI [of _ "h ! 3"] exI [of _ bs]) (auto simp: al_def)
  moreover have "rx_data (rxq self) = (h @ bs) @ rx_data (rxq self')"
    using recv_keeps(5) [OF h] recv_keeps(5) [OF b] set_keeps [OF st] g by simp
  ultimately show "\<exists>rep. is_reply rep \<and> rx_data (rxq self) = rep @ rx_data (rxq self')" by blast
qed

text \<open>A handshake that reports success has read an acceptance of the server.\<close>

lemma handshake_standard_sound:
  assumes "hev_socks5_client_handshake_standard klass self = Some (0, self')"
  shows "\<exists>m au rep. rx_data (rxq self) = [5, m] @ au @ rep @ rx_data (rxq self') \<and>
    (m = 2 \<and> au = [1, 0] \<or> m = 0 \<and> au = []) \<and> is_reply rep"
proof -
  obtain r1 s1 where s1: "hev_socks5_client_write_auth_methods self = (r1, s1)" by fastforce
  obtain r2 s2 where s2: "hev_socks5_client_read_auth_method s1 = (r2, s2)" by fastforce
  obtain ok s4 where s4: "(if r2 = 2 then client_creds_exchange s2 else (r2 = 0, s2)) = (ok, s4)"
    by fastforce
  from assms s1 s2 s4 have r2: "0 \<le> r2" and ok by (auto simp: handshake_standard_eq split: if_splits)
  with assms s1 s2 s4 obtain r5 s5 r6 where
    s5: "hev_socks5_client_write_request klass s4 = Some (r5, s5)"
    and s6: "hev_socks5_client_read_response klass s5 = (r6, self')" "0 \<le> r6"
    by (auto simp: handshake_standard_eq split: if_splits option.splits prod.splits)
  from read_auth_method_keeps(5) [OF s2 r2] obtain m where
    m: "r2 = int (unat m)" "rx_data (rxq s1) = [5, m] @ rx_data (rxq s2)" by auto
  have m2: "r2 = 2 \<longleftrightarrow> m = 2" "r2 = 0 \<longleftrightarrow> m = 0" using m(1) by (auto simp: word_unat_eq_iff)
  have "\<exists>au. (m = 2 \<and> au = [1, 0] \<or> m = 0 \<and> au = []) \<and> rx_data (rxq s2) = au @ rx_data (rxq s4)"
    using s4 \<open>ok\<close> m2
    by (auto simp: client_creds_exchange_def split: if_splits prod.splits
        dest!: write_auth_creds_keeps(1) read_auth_creds_keeps(5))
  moreover from read_response_keeps(2) [OF s6] obtain rep where "is_reply rep"
    "rx_data (rxq s5) = rep @ rx_data (rxq self')" by auto
  ultimately show ?thesis
    using m(2) write_auth_methods_keeps(1) [OF s1] write_request_keeps(1) [OF s5] by auto
qed

lemma handshake_pipeline_sound:
  assumes "hev_socks5_client_handshake_pipeline klass self = Some (0, self')"
  shows "\<exists>m au rep. rx_data (rxq self) = [5, m] @ au @ rep @ rx_data (rxq self') \<and>
    (m = 2 \<and> au = [1, 0] \<or> m = 0 \<and> au = []) \<and> is_reply rep"
proof -
  obtain r1 s1 where s1: "hev_socks5_client_write_auth_methods self = (r1, s1)" by fastforce
  obtain r2 s2 where s2: "hev_socks5_client_write_auth_creds s1 = (r2, s2)" by fastforce
  from assms s1 s2 obtain r3 s3 where s3: "hev_socks5_client_write_request klass s2 = Some (r3, s3)"
    by (auto simp: hev_socks5_client_handshake_pipeline_def split: if_splits option.splits)
  obtain r4 s4 where s4: "hev_socks5_client_read_auth_method s3 = (r4, s4)" by fastforce
  obtain r s5' where c: "hev_socks5_client_read_auth_creds s4 = (r, s5')" by fastforce
  define s5 where "s5 = (if r4 = 2 then s5' else s4)"
  obtain r6 s6 where s6: "hev_socks5_client_read_response klass s5 = (r6, s6)" by fastforce
  have g: "0 \<le> r4" "r4 = 2 \<and> 0 \<le> r \<or> r4 = 0" "0 \<le> r6" "s6 = self'"
    using assms s1 s2 s3 s4 c s6
    by (auto simp: hev_socks5_client_handshake_pipeline_def Let_def s5_def split: if_splits)
  from read_auth_method_keeps(5) [OF s4 g(1)] obtain m where
    m: "r4 = int (unat m)" "rx_data (rxq s3) = [5, m] @ rx_data (rxq s4)" by auto
  have m2: "r4 = 2 \<longleftrightarrow> m = 2" "r4 = 0 \<longleftrightarrow> m = 0" using m(1) by (auto simp: word_unat_eq_iff)
  have "\<exists>au. (m = 2 \<and> au = [1, 0] \<or> m = 0 \<and> au = []) \<and> rx_data (rxq s4) = au @ rx_data (rxq s5)"
    using g(2) m2 read_auth_creds_keeps(5) [OF c] by (auto simp: s5_def)
  moreover from read_response_keeps(2) [OF s6 g(3)] obtain rep where "is_reply rep"
    "rx_data (rxq s5) = rep @ rx_data (rxq self')" using g(4) by auto
  ultimately show ?thesis
    using m(2) write_auth_methods_keeps(1) [OF s1] write_auth_creds_keeps(1) [OF s2]
      write_request_keeps(1) [OF s3] by auto
qed

text \<open>A handshake that can get an upstream address does not follow a null pointer.\<close>

lemma write_request_some:
  assumes "fst (get_upstream_addr klass self) \<noteq> None"
    and "HevSocks5.more s = HevSocks5.more self" "addr_family s = addr_family self"
  shows "hev_socks5_client_write_request klass s \<noteq> None"
proof -
  from get_stable [OF assms(2,3)] assms(1) obtain a s1 where "get_upstream_addr klass s = (Some a, s1)"
    by (cases "get_upstream_addr klass s") auto
  then show ?thesis by (simp add: write_request_eq split: prod.split)
qed

lemma handshake_pipeline_some:
  assumes "fst (get_upstream_addr klass self) \<noteq> None"
  shows "hev_socks5_client_handshake_pipeline klass self \<noteq> None"
proof -
  obtain r1 s1 where s1: "hev_socks5_client_write_auth_methods self = (r1, s1)" by fastforce
  obtain r2 s2 where s2: "hev_socks5_client_write_auth_creds s1 = (r2, s2)" by fastforce
  note k = write_auth_methods_keeps [OF s1] write_auth_creds_keeps [OF s2]
  have "hev_socks5_client_write_request klass s2 \<noteq> None"
    using write_request_some [OF assms, of s2] k by simp
  then show ?thesis
    using s1 s2 by (auto simp: hev_socks5_client_handshake_pipeline_def Let_def split: prod.split)
qed

lemma handshake_standard_some:
  assumes "fst (get_upstream_addr klass self) \<noteq> None"
  shows "hev_socks5_client_handshake_standard klass self \<noteq> None"
proof -
  obtain r1 s1 where s1: "hev_socks5_client_write_auth_methods self = (r1, s1)" by fastforce
  obtain r2 s2 where s2: "hev_socks5_client_read_auth_method s1 = (r2, s2)" by fastforce
  obtain ok s4 where s4: "(if r2 = 2 then client_creds_exchange s2 else (r2 = 0, s2)) = (ok, s4)"
    by fastforce
  have "HevSocks5.more s4 = HevSocks5.more s2 \<and> addr_family s4 = addr_family s2"
    using s4 write_auth_creds_keeps(2,4) read_auth_creds_keeps(2,4)
    by (fastforce simp: client_creds_exchange_def split: if_splits prod.splits)
  with write_auth_methods_keeps [OF s1] read_auth_method_keeps [OF s2]
  have "hev_socks5_client_write_request klass s4 \<noteq> None"
    using write_request_some [OF assms, of s4] by simp
  then show ?thesis using s1 s2 s4 by (auto simp: handshake_standard_eq split: prod.split)
qed

text \<open>
  The standard handshake sends no credentials to a server that has not asked for them.
\<close>

lemma handshake_standard_no_creds:
  assumes "hev_socks5_client_handshake_standard klass self = Some (r, self')"
    and no: "\<And>rest. rx_data (rxq self) \<noteq> [5, 2] @ rest"
  shows "\<exists>k j addr. sent self' =
    sent self @ take k (methods_wire self) @ take j (request_wire (s_type self) addr)"
proof -
  obtain r1 s1 where s1: "hev_socks5_client_write_auth_methods self = (r1, s1)" by fastforce
  obtain r2 s2 where s2: "hev_socks5_client_read_auth_method s1 = (r2, s2)" by fastforce
  note k1 = write_auth_methods_keeps [OF s1] and k2 = read_auth_method_keeps [OF s2]
  obtain k where k: "sent s2 = sent self @ take k (methods_wire self)" using k1(5) k2(1) by auto
  have ne: "r2 \<noteq> 2"
  proof
    assume "r2 = 2"
    with k2(5) obtain m where "(2::int) = int (unat m)" "rx_data (rxq s1) = [5, m] @ rx_data (rxq s2)"
      by auto
    moreover from this(1) have "m = 2" by (simp add: word_unat_eq_iff)
    ultimately show False using no k1(1) by auto
  qed
  consider "self' = s1" | "self' = s2"
    | r5 s5 where "hev_socks5_client_write_request klass s2 = Some (r5, s5)" "self' = s5 \<or>
        (\<exists>r6. hev_socks5_client_read_response klass s5 = (r6, self'))"
    using assms(1) s1 s2 ne
    by (auto simp: handshake_standard_eq split: if_splits option.splits prod.splits)
  then show ?thesis
  proof cases
    case 1
    with k1(5) obtain i where "sent self' = sent self @ take i (methods_wire self)" by auto
    then show ?thesis by (intro exI [of _ i] exI [of _ 0]) simp
  next
    case 2
    with k show ?thesis by (intro exI [of _ k] exI [of _ 0]) simp
  next
    case 3
    from write_request_keeps(3) [OF 3(1)] obtain j addr where
      "sent s5 = sent s2 @ take j (request_wire (s_type s2) addr)" by auto
    moreover have "sent self' = sent s5" using 3(2) read_response_keeps(1) by auto
    ultimately show ?thesis using k k1(3) k2(3) by auto
  qed
qed

end

text \<open>The two subclasses meet the interface.\<close>

lemma connect_keeps:
  "hev_task_io_socket_connect task_io_yielder q self = (r, q', self') \<Longrightarrow> frz self' = frz self"
proof (induction q arbitrary: self)
  case (Cons a q)
  then show ?case
    by (cases a) (auto split: prod.splits if_splits dest: yieldsD [OF yields_yielders(1)])
qed simp

interpretation tcp_client: client_class
  "hev_socks5_client_tcp_class :: 'a HevSocks5ClientTCP_scheme HevSocks5ClientClass"
proof unfold_locales
  fix s t :: "'a HevSocks5ClientTCP_scheme"
  assume "HevSocks5.more s = HevSocks5.more t"
  then have "tcp_addr s = tcp_addr t" by (cases s; cases t) simp
  then show "fst (get_upstream_addr hev_socks5_client_tcp_class s) =
      fst (get_upstream_addr hev_socks5_client_tcp_class t)"
    by (simp add: hev_socks5_client_tcp_class_def hev_socks5_client_tcp_get_upstream_addr_def)
qed (auto simp: hev_socks5_client_tcp_class_def hev_socks5_client_tcp_get_upstream_addr_def
    hev_socks5_client_tcp_set_upstream_addr_def)

lemma udp_set_upstream_keeps:
  assumes "hev_socks5_client_udp_set_upstream_addr R E b self addr = (r, self')"
  shows "rxq self' = rxq self \<and> txq self' = txq self \<and> sent self' = sent self \<and>
    s_type self' = s_type self \<and> addr_family self' = addr_family self"
  using assms
  by (auto simp: hev_socks5_client_udp_set_upstream_addr_def Let_def split: if_splits prod.splits
      dest!: connect_keeps [THEN frz_fields])

interpretation udp_client: client_class
  "hev_socks5_client_udp_class mok R E :: 'a HevSocks5ClientUDP_scheme HevSocks5ClientClass"
  for mok R E
proof unfold_locales
  fix s t :: "'a HevSocks5ClientUDP_scheme"
  assume "addr_family s = addr_family t"
  then show "fst (get_upstream_addr (hev_socks5_client_udp_class mok R E) s) =
      fst (get_upstream_addr (hev_socks5_client_udp_class mok R E) t)"
    by (simp add: hev_socks5_client_udp_class_def hev_socks5_client_udp_get_upstream_addr_def
        hev_socks5_get_addr_family_def Let_def)
qed (auto simp: hev_socks5_client_udp_class_def hev_socks5_client_udp_get_upstream_addr_def
    Let_def split: if_splits dest!: udp_set_upstream_keeps)

subsection \<open>Properties\<close>

lemma addr_family_known:
  "hev_socks5_name_into_sockaddr6 R name port sa fam = (res, sa', fam') \<Longrightarrow> 0 \<le> res \<Longrightarrow>
   fam' = AF_INET \<or> fam' = AF_INET6"
  by (auto simp: hev_socks5_name_into_sockaddr6_def hev_socks5_name_resolve_name_def Let_def
      split: prod.splits if_splits option.splits)

lemma handshake_cases:
  "hev_socks5_client_handshake G klass p self = Some (r, self') \<Longrightarrow>
   \<exists>s1. (if p then hev_socks5_client_handshake_pipeline klass (self\<lparr>timeout := tcp_timeout G\<rparr>)
         else hev_socks5_client_handshake_standard klass (self\<lparr>timeout := tcp_timeout G\<rparr>)) = Some (r, s1) \<and>
        rxq self' = rxq s1 \<and> sent self' = sent s1"
  by (auto simp: hev_socks5_client_handshake_def hev_socks5_set_timeout_def Let_def
      split: option.splits HevSocks5Type.splits if_splits)

definition demo_tcp :: HevSocks5ClientTCP where
  "demo_tcp = client_tcp0\<lparr>s_type := HEV_SOCKS5_TYPE_TCP, tcp_addr := Some [1, 1, 2, 3, 4, 0, 80],
     auth_user := Some [117], auth_pass := Some [112, 119],
     rxq := [RxData [5], RxAgain \<lparr>w_left = 5, w_term = False, w_ctl = CtlAgain\<rparr>,
             RxData [2, 1, 0, 5, 0, 0, 1, 0, 0, 0, 0, 0, 0]]\<rparr>"

lemma handshake_returns:
  "map_option fst h = Some r \<Longrightarrow> \<exists>s'. h = Some (r, s')"
  by (cases h) auto

lemma demo_tcp_accepted:
  "\<exists>s'. hev_socks5_client_handshake hev_socks5_misc_init hev_socks5_client_tcp_class p demo_tcp = Some (0, s')"
proof (rule handshake_returns)
  have "map_option fst (hev_socks5_client_handshake hev_socks5_misc_init hev_socks5_client_tcp_class
     True demo_tcp) = Some 0" by code_simp
  moreover have "map_option fst (hev_socks5_client_handshake hev_socks5_misc_init
     hev_socks5_client_tcp_class False demo_tcp) = Some 0" by code_simp
  ultimately show "map_option fst (hev_socks5_client_handshake hev_socks5_misc_init
     hev_socks5_client_tcp_class p demo_tcp) = Some 0" by (cases p) simp_all
qed

lemma tcp_handshake_live:
  assumes "conn_live self" "s_type self = HEV_SOCKS5_TYPE_TCP"
    and "rx_data (rxq self) = [5, m] @ au @ rep @ rest"
    and "m = 2 \<and> au = [1, 0] \<or> m = 0 \<and> au = []" and "is_reply rep"
    and "tcp_addr self = Some addr" "0 \<le> hev_socks5_addr_len addr"
  shows "\<exists>self'. hev_socks5_client_handshake G hev_socks5_client_tcp_class p self = Some (0, self') \<and>
    rx_data (rxq self') = rest \<and>
    sent self' = sent self @ methods_wire self @ (if m = 2 \<or> p then creds_wire self else []) @
      [5, 1, 0] @ addr_wire addr"
proof -
  let ?s = "self\<lparr>timeout := tcp_timeout G\<rparr>" and ?k = "hev_socks5_client_tcp_class"
  have l: "conn_live ?s" "rx_data (rxq ?s) = [5, m] @ au @ rep @ rest"
    "fst (get_upstream_addr ?k ?s) = Some addr" "s_type ?s \<noteq> HEV_SOCKS5_TYPE_NONE"
    using assms by (simp_all add: conn_live_def hev_socks5_client_tcp_class_def
        hev_socks5_client_tcp_get_upstream_addr_def)
  have ok: "\<And>s x. 0 \<le> fst (set_upstream_addr ?k s x)"
    by (simp add: hev_socks5_client_tcp_class_def hev_socks5_client_tcp_set_upstream_addr_def)
  have w: "methods_wire ?s = methods_wire self" "creds_wire ?s = creds_wire self"
    by (simp_all add: methods_wire_def creds_wire_def)
  note st = tcp_client.handshake_standard_moves [OF l(1,2) assms(4,5) l(3) assms(7) l(4) ok, unfolded w]
   and pi = tcp_client.handshake_pipeline_moves [OF l(1,2) assms(4,5) l(3) assms(7) l(4) ok, unfolded w]
  have "\<exists>s1. (if p then hev_socks5_client_handshake_pipeline ?k ?s
      else hev_socks5_client_handshake_standard ?k ?s) = Some (0, s1) \<and>
    moves ?s (methods_wire self @ (if m = 2 \<or> p then creds_wire self else []) @
      [5, 1, 0] @ addr_wire addr) ([5, m] @ au @ rep) s1"
    using st pi assms(2) by (cases p) (auto simp: request_wire_def)
  then obtain s1 where s1: "(if p then hev_socks5_client_handshake_pipeline ?k ?s
      else hev_socks5_client_handshake_standard ?k ?s) = Some (0, s1)"
    "moves ?s (methods_wire self @ (if m = 2 \<or> p then creds_wire self else []) @
      [5, 1, 0] @ addr_wire addr) ([5, m] @ au @ rep) s1" by blast
  moreover from s1(2) have "s_type s1 = HEV_SOCKS5_TYPE_TCP" using assms(2) by (simp add: moves_def)
  ultimately have "hev_socks5_client_handshake G ?k p self = Some (0, s1)"
    by (simp add: hev_socks5_client_handshake_def hev_socks5_set_timeout_def)
  with s1(2) l(2) show ?thesis by (auto simp: moves_def)
qed

text \<open>C2 When the handshake of a TCP client reports success, in either mode and on every behaviour
  of the network, the bytes it consumed are exactly a method selection of NONE or USER, the
  acceptance \<open>[1, 0]\<close> of the credentials when USER was selected, and a success reply with a
  complete IPv4 or IPv6 address.\<close>

theorem tcp_handshake_sound:
  assumes "hev_socks5_client_handshake G hev_socks5_client_tcp_class p self = Some (0, self')"
  shows "\<exists>m au rep. rx_data (rxq self) = [5, m] @ au @ rep @ rx_data (rxq self') \<and>
    (m = 2 \<and> au = [1, 0] \<or> m = 0 \<and> au = []) \<and> is_reply rep"
  using handshake_cases [OF assms]
  by (auto split: if_splits dest!: tcp_client.handshake_pipeline_sound tcp_client.handshake_standard_sound)

theorem tcp_handshake_sound_witness:
  "\<exists>self'. hev_socks5_client_handshake hev_socks5_misc_init hev_socks5_client_tcp_class False demo_tcp =
      Some (0, self') \<and> (\<exists>m au rep. rx_data (rxq demo_tcp) = [5, m] @ au @ rep @ rx_data (rxq self') \<and>
    (m = 2 \<and> au = [1, 0] \<or> m = 0 \<and> au = []) \<and> is_reply rep)"
  using demo_tcp_accepted [of False] tcp_handshake_sound by blast

text \<open>C3 On a connection that neither fails nor times out, to a server that accepts, the handshake
  completes in both modes: it returns 0, consumes exactly the server's answer, and what it sent is
  the method offer, the credentials (in standard mode only if the server asked for them) and the
  request for the destination address.\<close>

theorem tcp_handshake_completes:
  assumes "conn_live self" "s_type self = HEV_SOCKS5_TYPE_TCP"
    and "rx_data (rxq self) = [5, m] @ au @ rep @ rest"
    and "m = 2 \<and> au = [1, 0] \<or> m = 0 \<and> au = []" and "is_reply rep"
    and "tcp_addr self = Some addr" "0 \<le> hev_socks5_addr_len addr"
  shows "\<exists>self'. hev_socks5_client_handshake G hev_socks5_client_tcp_class p self = Some (0, self') \<and>
    rx_data (rxq self') = rest \<and>
    sent self' = sent self @ methods_wire self @ (if m = 2 \<or> p then creds_wire self else []) @
      [5, 1, 0] @ addr_wire addr"
  using assms by (rule tcp_handshake_live)

theorem tcp_handshake_completes_witness:
  "\<exists>self'. hev_socks5_client_handshake hev_socks5_misc_init hev_socks5_client_tcp_class False demo_tcp =
      Some (0, self') \<and> sent self' = [5, 1, 2, 1, 1, 117, 2, 112, 119, 5, 1, 0, 1, 1, 2, 3, 4, 0, 80]"
  using tcp_handshake_completes [of demo_tcp 2 "[1, 0]" "[5, 0, 0, 1, 0, 0, 0, 0, 0, 0]" "[]"
      "[1, 1, 2, 3, 4, 0, 80]" hev_socks5_misc_init False]
  by (auto simp: demo_tcp_def client_tcp0_def conn_live_def wait_live_def is_reply_def
      hev_socks5_addr_len_def a_atype_def methods_wire_def creds_wire_def addr_wire_def)

text \<open>C4 Without the pipeline option no byte of the credentials leaves the client unless the server
  has selected user/password authentication: everything sent is a prefix of the method offer
  followed by a prefix of a request, whatever the outcome.\<close>

theorem tcp_standard_no_creds:
  assumes "hev_socks5_client_handshake G hev_socks5_client_tcp_class False self = Some (r, self')"
    and "\<And>rest. rx_data (rxq self) \<noteq> [5, 2] @ rest"
  shows "\<exists>k j addr. sent self' =
    sent self @ take k (methods_wire self) @ take j ([5, request_cmd (s_type self), 0] @ addr_wire addr)"
proof -
  from handshake_cases [OF assms(1)] obtain s1 where
    s1: "hev_socks5_client_handshake_standard hev_socks5_client_tcp_class
      (self\<lparr>timeout := tcp_timeout G\<rparr>) = Some (r, s1)" "sent self' = sent s1" by auto
  from tcp_client.handshake_standard_no_creds [OF s1(1)] assms(2) s1(2) show ?thesis
    by (auto simp: request_wire_def methods_wire_def)
qed

definition demo_tcp_denied :: HevSocks5ClientTCP where
  "demo_tcp_denied = demo_tcp\<lparr>rxq := [RxData [5, 255]]\<rparr>"

theorem tcp_standard_no_creds_witness:
  "\<exists>self'. hev_socks5_client_handshake hev_socks5_misc_init hev_socks5_client_tcp_class False
      demo_tcp_denied = Some (-1, self') \<and>
    (\<exists>k j addr. sent self' = sent demo_tcp_denied @ take k (methods_wire demo_tcp_denied) @
      take j ([5, request_cmd (s_type demo_tcp_denied), 0] @ addr_wire addr))"
proof -
  have "map_option fst (hev_socks5_client_handshake hev_socks5_misc_init hev_socks5_client_tcp_class
     False demo_tcp_denied) = Some (-1)" by code_simp
  from handshake_returns [OF this] obtain s' where
    s: "hev_socks5_client_handshake hev_socks5_misc_init hev_socks5_client_tcp_class
     False demo_tcp_denied = Some (-1, s')" by blast
  have "\<And>rest. rx_data (rxq demo_tcp_denied) \<noteq> [5, 2] @ rest" by (simp add: demo_tcp_denied_def)
  from tcp_standard_no_creds [OF s this] s show ?thesis by blast
qed


definition demo_env :: net_env where
  "demo_env = \<lparr>e_socket = 7, e_v6only = 0,
     e_conn = [CxInProgress \<lparr>w_left = 3, w_term = False, w_ctl = CtlAgain\<rparr>, CxFail],
     e_rx = [], e_tx = [], e_saddr = \<lparr>sin6_family = 0, sin6_port = 0, sin6_addr = replicate 16 9\<rparr>\<rparr>"


text \<open>C36 A UDP client that has connected never dereferences a null upstream address in its
  handshake as long as memory can be allocated: the family recorded by the connection selects a
  wildcard address of that family.\<close>

theorem udp_handshake_no_null:
  assumes "hev_socks5_client_connect G R E klass self name port = (0, self')"
    and "mok 7" "mok 19"
  shows "hev_socks5_client_handshake G (hev_socks5_client_udp_class mok R' E') p self' \<noteq> None"
proof -
  let ?k = "hev_socks5_client_udp_class mok R' E'"
  have "addr_family self' = AF_INET \<or> addr_family self' = AF_INET6"
  proof -
    from assms(1) obtain res sa fam where n: "hev_socks5_name_into_sockaddr6 R name (of_int port)
        (e_saddr E) (addr_family self) = (res, sa, fam)" "0 \<le> res" "addr_family self' = fam"
      by (auto simp: hev_socks5_client_connect_def hev_socks5_set_timeout_def
        hev_socks5_get_addr_family_def hev_socks5_set_addr_family_def Let_def
        split: prod.splits if_splits)
    with addr_family_known show ?thesis by blast
  qed
  then have g: "fst (get_upstream_addr ?k (self'\<lparr>timeout := tcp_timeout G\<rparr>)) \<noteq> None"
    using assms(2,3) by (auto simp: hev_socks5_client_udp_class_def hev_socks5_get_addr_family_def
        hev_socks5_client_udp_get_upstream_addr_def)
  show ?thesis
    using udp_client.handshake_pipeline_some [OF g] udp_client.handshake_standard_some [OF g]
    by (auto simp: hev_socks5_client_handshake_def hev_socks5_set_timeout_def Let_def
        split: HevSocks5Type.split)
qed

definition demo_env_up :: net_env where
  "demo_env_up = demo_env\<lparr>e_conn := [CxOk], e_rx := [RxData [5, 0], RxFail]\<rparr>"

theorem udp_handshake_no_null_witness:
  "\<exists>self'. hev_socks5_client_connect hev_socks5_misc_init demo_resolver demo_env_up
      (hev_socks5_client_udp_class (\<lambda>n. True) demo_resolver demo_env) client_udp0 [49] 1080 = (0, self') \<and>
    hev_socks5_client_handshake hev_socks5_misc_init
      (hev_socks5_client_udp_class (\<lambda>n. True) demo_resolver demo_env) True self' \<noteq> None"
proof -
  let ?c = "hev_socks5_client_connect hev_socks5_misc_init demo_resolver demo_env_up
      (hev_socks5_client_udp_class (\<lambda>n. True) demo_resolver demo_env) client_udp0 [49] 1080"
  have "fst ?c = 0" by code_simp
  then have "?c = (0, snd ?c)" by (metis prod.collapse)
  from udp_handshake_no_null [OF this, where mok = "\<lambda>n. True"] this show ?thesis by blast
qed

end
