(* ===== verification/Hev_RBTree.thy ===== *)
theory Hev_RBTree
  imports Prelude
begin

text \<open>
  The red-black tree of \<^verbatim>\<open>core/src/hev-rbtree.c\<close> on an explicit heap, with the parent pointer
  and the colour packed into one word as the code packs them. The tree indexes the users of the
  authenticator and the names of the mapped DNS. The operations are translated pointer write by
  pointer write; \<open>tree_at\<close> and \<open>ctx_at\<close> relate a heap to a tree of node addresses and to the path
  above a node, and the lemmas show that insertion and removal keep the order of the nodes and
  the balance conditions.
\<close>

subsection \<open>Nodes\<close>

datatype HevRBTreeColor = HEV_RBTREE_RED | HEV_RBTREE_BLACK

primrec color_bit :: "HevRBTreeColor \<Rightarrow> nat" where
  "color_bit HEV_RBTREE_RED = 0"
| "color_bit HEV_RBTREE_BLACK = 1"

record HevRBTreeNode =
  rb_pc :: nat
  rb_right :: ptr
  rb_left :: ptr

type_synonym rbheap = "ptr \<Rightarrow> HevRBTreeNode"
type_synonym rbstate = "ptr \<times> rbheap"

definition hev_rbtree_node_color :: "rbheap \<Rightarrow> ptr \<Rightarrow> nat" where
  "hev_rbtree_node_color h node = rb_pc (h node) AND 1"

definition hev_rbtree_node_is_red :: "rbheap \<Rightarrow> ptr \<Rightarrow> bool" where
  "hev_rbtree_node_is_red h node \<longleftrightarrow> hev_rbtree_node_color h node AND 1 = 0"

definition hev_rbtree_node_is_black :: "rbheap \<Rightarrow> ptr \<Rightarrow> bool" where
  "hev_rbtree_node_is_black h node \<longleftrightarrow> hev_rbtree_node_color h node AND 1 \<noteq> 0"

definition pc_is_black :: "nat \<Rightarrow> bool" where
  "pc_is_black pc \<longleftrightarrow> pc AND 1 \<noteq> 0"

text \<open>\<^verbatim>\<open>pc & ~3\<close>.\<close>

definition pc_parent :: "nat \<Rightarrow> ptr" where
  "pc_parent pc = 4 * (pc div 4)"

definition hev_rbtree_node_parent :: "rbheap \<Rightarrow> ptr \<Rightarrow> ptr" where
  "hev_rbtree_node_parent h node = pc_parent (rb_pc (h node))"

definition hev_rbtree_node_red_parent :: "rbheap \<Rightarrow> ptr \<Rightarrow> ptr" where
  "hev_rbtree_node_red_parent h node = rb_pc (h node)"

definition hev_rbtree_node_empty :: "rbheap \<Rightarrow> ptr \<Rightarrow> bool" where
  "hev_rbtree_node_empty h node \<longleftrightarrow> rb_pc (h node) = node"

definition hev_rbtree_node_set_black :: "rbheap \<Rightarrow> ptr \<Rightarrow> rbheap" where
  "hev_rbtree_node_set_black h node = h(node := (h node)\<lparr>rb_pc := rb_pc (h node) OR 1\<rparr>)"

definition hev_rbtree_node_set_parent :: "rbheap \<Rightarrow> ptr \<Rightarrow> ptr \<Rightarrow> rbheap" where
  "hev_rbtree_node_set_parent h node parent =
     h(node := (h node)\<lparr>rb_pc := hev_rbtree_node_color h node OR parent\<rparr>)"

definition hev_rbtree_node_set_parent_color :: "rbheap \<Rightarrow> ptr \<Rightarrow> ptr \<Rightarrow> HevRBTreeColor \<Rightarrow> rbheap" where
  "hev_rbtree_node_set_parent_color h node parent color =
     h(node := (h node)\<lparr>rb_pc := parent OR color_bit color\<rparr>)"

definition set_right :: "rbheap \<Rightarrow> ptr \<Rightarrow> ptr \<Rightarrow> rbheap" where
  "set_right h node v = h(node := (h node)\<lparr>rb_right := v\<rparr>)"

definition set_left :: "rbheap \<Rightarrow> ptr \<Rightarrow> ptr \<Rightarrow> rbheap" where
  "set_left h node v = h(node := (h node)\<lparr>rb_left := v\<rparr>)"

definition hev_rbtree_change_child :: "rbstate \<Rightarrow> ptr \<Rightarrow> ptr \<Rightarrow> ptr \<Rightarrow> rbstate" where
  "hev_rbtree_change_child s old new' parent =
     (let (root, h) = s
      in if parent \<noteq> NULL then
           (if rb_left (h parent) = old then (root, set_left h parent new')
            else (root, set_right h parent new'))
         else (new', h))"

definition hev_rbtree_rotate_set_parents :: "rbstate \<Rightarrow> ptr \<Rightarrow> ptr \<Rightarrow> HevRBTreeColor \<Rightarrow> rbstate" where
  "hev_rbtree_rotate_set_parents s old new' color =
     (let (root, h) = s;
          parent = hev_rbtree_node_parent h old;
          h = h(new' := (h new')\<lparr>rb_pc := rb_pc (h old)\<rparr>);
          h = hev_rbtree_node_set_parent_color h old new' color
      in hev_rbtree_change_child (root, h) old new' parent)"

text \<open>
  \<^verbatim>\<open>hev_rbtree_node_link\<close>; \<open>link\<close> is the pointer it stores through: the root, or a child field.
\<close>

datatype rblink = LinkRoot | LinkLeft ptr | LinkRight ptr

definition hev_rbtree_node_link :: "rbstate \<Rightarrow> ptr \<Rightarrow> ptr \<Rightarrow> rblink \<Rightarrow> rbstate" where
  "hev_rbtree_node_link s node parent link =
     (let (root, h) = s;
          h = h(node := (h node)\<lparr>rb_pc := parent\<rparr>);
          h = h(node := (h node)\<lparr>rb_right := NULL\<rparr>);
          h = h(node := (h node)\<lparr>rb_left := NULL\<rparr>)
      in case link of
           LinkRoot \<Rightarrow> (node, h)
         | LinkLeft p \<Rightarrow> (root, set_left h p node)
         | LinkRight p \<Rightarrow> (root, set_right h p node))"

subsection \<open>Traversal\<close>

text \<open>
  The loops that go down to the leftmost or rightmost node, and up to the first ancestor on the
  other side; \<open>None\<close> if a loop did not end.
\<close>

partial_function (option) go_left :: "rbheap \<Rightarrow> ptr \<Rightarrow> ptr option" where
  "go_left h n = (if rb_left (h n) \<noteq> NULL then go_left h (rb_left (h n)) else Some n)"

partial_function (option) go_right :: "rbheap \<Rightarrow> ptr \<Rightarrow> ptr option" where
  "go_right h n = (if rb_right (h n) \<noteq> NULL then go_right h (rb_right (h n)) else Some n)"

partial_function (option) up_while_right :: "rbheap \<Rightarrow> ptr \<Rightarrow> ptr option" where
  "up_while_right h node =
     (let parent = hev_rbtree_node_parent h node
      in if parent \<noteq> NULL \<and> node = rb_right (h parent) then up_while_right h parent
         else Some parent)"

partial_function (option) up_while_left :: "rbheap \<Rightarrow> ptr \<Rightarrow> ptr option" where
  "up_while_left h node =
     (let parent = hev_rbtree_node_parent h node
      in if parent \<noteq> NULL \<and> node = rb_left (h parent) then up_while_left h parent
         else Some parent)"

definition hev_rbtree_node_prev :: "rbheap \<Rightarrow> ptr \<Rightarrow> ptr option" where
  "hev_rbtree_node_prev h node =
     (if hev_rbtree_node_empty h node then Some NULL
      else if rb_left (h node) \<noteq> NULL then go_right h (rb_left (h node))
      else up_while_left h node)"

definition hev_rbtree_node_next :: "rbheap \<Rightarrow> ptr \<Rightarrow> ptr option" where
  "hev_rbtree_node_next h node =
     (if hev_rbtree_node_empty h node then Some NULL
      else if rb_right (h node) \<noteq> NULL then go_left h (rb_right (h node))
      else up_while_right h node)"

definition hev_rbtree_first :: "rbstate \<Rightarrow> ptr option" where
  "hev_rbtree_first s = (if fst s = NULL then Some NULL else go_left (snd s) (fst s))"

definition hev_rbtree_last :: "rbstate \<Rightarrow> ptr option" where
  "hev_rbtree_last s = (if fst s = NULL then Some NULL else go_right (snd s) (fst s))"

subsection \<open>Insertion\<close>

text \<open>
  One round of the loop of \<^verbatim>\<open>hev_rbtree_insert_color\<close>, with its local variables \<^verbatim>\<open>node\<close>
  and \<^verbatim>\<open>parent\<close>: \<open>Inl\<close> for \<^verbatim>\<open>break\<close>, \<open>Inr\<close> for \<^verbatim>\<open>continue\<close>.
\<close>

definition insert_color_step :: "rbstate \<Rightarrow> ptr \<Rightarrow> ptr \<Rightarrow> rbstate + (rbstate \<times> ptr \<times> ptr)" where
  "insert_color_step s node parent =
     (let (root, h) = s in
      if parent = NULL then
        Inl (root, hev_rbtree_node_set_parent_color h node NULL HEV_RBTREE_BLACK)
      else if hev_rbtree_node_is_black h parent then Inl (root, h)
      else let gparent = hev_rbtree_node_red_parent h parent;
               tmp = rb_right (h gparent)
      in if parent \<noteq> tmp then
           (if tmp \<noteq> NULL \<and> hev_rbtree_node_is_red h tmp then
              let h = hev_rbtree_node_set_parent_color h tmp gparent HEV_RBTREE_BLACK;
                  h = hev_rbtree_node_set_parent_color h parent gparent HEV_RBTREE_BLACK;
                  node = gparent;
                  parent = hev_rbtree_node_parent h node;
                  h = hev_rbtree_node_set_parent_color h node parent HEV_RBTREE_RED
              in Inr ((root, h), node, parent)
            else
              let tmp = rb_right (h parent);
                  (h, parent, tmp) =
                    (if node = tmp then
                       let tmp = rb_left (h node);
                           h = set_right h parent tmp;
                           h = set_left h node parent;
                           h = (if tmp \<noteq> NULL
                                then hev_rbtree_node_set_parent_color h tmp parent HEV_RBTREE_BLACK
                                else h);
                           h = hev_rbtree_node_set_parent_color h parent node HEV_RBTREE_RED
                       in (h, node, rb_right (h node))
                     else (h, parent, tmp));
                  h = set_left h gparent tmp;
                  h = set_right h parent gparent;
                  h = (if tmp \<noteq> NULL
                       then hev_rbtree_node_set_parent_color h tmp gparent HEV_RBTREE_BLACK else h)
              in Inl (hev_rbtree_rotate_set_parents (root, h) gparent parent HEV_RBTREE_RED))
         else
           let tmp = rb_left (h gparent)
           in if tmp \<noteq> NULL \<and> hev_rbtree_node_is_red h tmp then
                let h = hev_rbtree_node_set_parent_color h tmp gparent HEV_RBTREE_BLACK;
                    h = hev_rbtree_node_set_parent_color h parent gparent HEV_RBTREE_BLACK;
                    node = gparent;
                    parent = hev_rbtree_node_parent h node;
                    h = hev_rbtree_node_set_parent_color h node parent HEV_RBTREE_RED
                in Inr ((root, h), node, parent)
              else
                let tmp = rb_left (h parent);
                    (h, parent, tmp) =
                      (if node = tmp then
                         let tmp = rb_right (h node);
                             h = set_left h parent tmp;
                             h = set_right h node parent;
                             h = (if tmp \<noteq> NULL
                                  then hev_rbtree_node_set_parent_color h tmp parent HEV_RBTREE_BLACK
                                  else h);
                             h = hev_rbtree_node_set_parent_color h parent node HEV_RBTREE_RED
                         in (h, node, rb_left (h node))
                       else (h, parent, tmp));
                    h = set_right h gparent tmp;
                    h = set_left h parent gparent;
                    h = (if tmp \<noteq> NULL
                         then hev_rbtree_node_set_parent_color h tmp gparent HEV_RBTREE_BLACK else h)
                in Inl (hev_rbtree_rotate_set_parents (root, h) gparent parent HEV_RBTREE_RED))"

partial_function (option) insert_color_loop :: "rbstate \<Rightarrow> ptr \<Rightarrow> ptr \<Rightarrow> rbstate option" where
  "insert_color_loop s node parent =
     (case insert_color_step s node parent of
        Inl s \<Rightarrow> Some s
      | Inr (s, node, parent) \<Rightarrow> insert_color_loop s node parent)"

definition hev_rbtree_insert_color :: "rbstate \<Rightarrow> ptr \<Rightarrow> rbstate option" where
  "hev_rbtree_insert_color s node =
     insert_color_loop s node (hev_rbtree_node_red_parent (snd s) node)"

definition hev_rbtree_replace :: "rbstate \<Rightarrow> ptr \<Rightarrow> ptr \<Rightarrow> rbstate" where
  "hev_rbtree_replace s victim new' =
     (let (root, h) = s;
          parent = hev_rbtree_node_parent h victim;
          h = h(new' := h victim);
          h = (if rb_left (h victim) \<noteq> NULL
               then hev_rbtree_node_set_parent h (rb_left (h victim)) new' else h);
          h = (if rb_right (h victim) \<noteq> NULL
               then hev_rbtree_node_set_parent h (rb_right (h victim)) new' else h)
      in hev_rbtree_change_child (root, h) victim new' parent)"

subsection \<open>Removal\<close>

text \<open>The \<^verbatim>\<open>do ... while\<close> loop that finds the successor: \<^verbatim>\<open>parent\<close> and \<^verbatim>\<open>successor\<close> at its end.\<close>

partial_function (option) find_successor :: "rbheap \<Rightarrow> ptr \<Rightarrow> ptr \<Rightarrow> (ptr \<times> ptr) option" where
  "find_successor h successor tmp =
     (let parent = successor;
          successor = tmp;
          tmp = rb_left (h tmp)
      in if tmp \<noteq> NULL then find_successor h successor tmp else Some (parent, successor))"

text \<open>\<^verbatim>\<open>_hev_rbtree_erase\<close>: the state with the node unlinked, and \<^verbatim>\<open>rebalance\<close>.\<close>

definition rbtree_erase_node :: "rbstate \<Rightarrow> ptr \<Rightarrow> (rbstate \<times> ptr) option" where
  "rbtree_erase_node s node =
     (let (root, h) = s;
          child = rb_right (h node);
          tmp = rb_left (h node)
      in if tmp = NULL then
           (let pc = rb_pc (h node);
                parent = pc_parent pc;
                (root, h) = hev_rbtree_change_child (root, h) node child parent
            in if child \<noteq> NULL then Some ((root, h(child := (h child)\<lparr>rb_pc := pc\<rparr>)), NULL)
               else Some ((root, h), if pc_is_black pc then parent else NULL))
         else if child = NULL then
           (let pc = rb_pc (h node);
                h = h(tmp := (h tmp)\<lparr>rb_pc := pc\<rparr>);
                parent = pc_parent pc
            in Some (hev_rbtree_change_child (root, h) node tmp parent, NULL))
         else
           (case (if rb_left (h child) = NULL then Some (h, child, child, rb_right (h child))
                  else case find_successor h child (rb_left (h child)) of
                         None \<Rightarrow> None
                       | Some (parent, successor) \<Rightarrow>
                           (let child2 = rb_right (h successor);
                                h = set_left h parent child2;
                                h = set_right h successor child;
                                h = hev_rbtree_node_set_parent h child successor
                            in Some (h, parent, successor, child2))) of
              None \<Rightarrow> None
            | Some (h, parent, successor, child2) \<Rightarrow>
                (let tmp = rb_left (h node);
                     h = set_left h successor tmp;
                     h = hev_rbtree_node_set_parent h tmp successor;
                     pc = rb_pc (h node);
                     tmp = pc_parent pc;
                     (root, h) = hev_rbtree_change_child (root, h) node successor tmp;
                     (h, rebalance) =
                       (if child2 \<noteq> NULL
                        then (hev_rbtree_node_set_parent_color h child2 parent HEV_RBTREE_BLACK, NULL)
                        else (h, if hev_rbtree_node_is_black h successor then parent else NULL))
                 in Some ((root, h(successor := (h successor)\<lparr>rb_pc := pc\<rparr>)), rebalance))))"

text \<open>One round of \<^verbatim>\<open>_hev_rbtree_erase_color\<close>, with its local variables \<^verbatim>\<open>node\<close> and \<^verbatim>\<open>parent\<close>.\<close>

definition erase_color_step :: "rbstate \<Rightarrow> ptr \<Rightarrow> ptr \<Rightarrow> rbstate + (rbstate \<times> ptr \<times> ptr)" where
  "erase_color_step s node parent =
     (let (root, h) = s;
          sibling = rb_right (h parent)
      in if node \<noteq> sibling then
           let (root, h, sibling) =
                 (if hev_rbtree_node_is_red h sibling then
                    let tmp1 = rb_left (h sibling);
                        h = set_right h parent tmp1;
                        h = set_left h sibling parent;
                        h = hev_rbtree_node_set_parent_color h tmp1 parent HEV_RBTREE_BLACK;
                        (root, h) = hev_rbtree_rotate_set_parents (root, h) parent sibling HEV_RBTREE_RED
                    in (root, h, tmp1)
                  else (root, h, sibling));
               tmp1 = rb_right (h sibling);
               tmp2 = rb_left (h sibling)
           in if (tmp1 = NULL \<or> hev_rbtree_node_is_black h tmp1) \<and>
                 (tmp2 = NULL \<or> hev_rbtree_node_is_black h tmp2) then
                let h = hev_rbtree_node_set_parent_color h sibling parent HEV_RBTREE_RED
                in if hev_rbtree_node_is_red h parent
                   then Inl (root, hev_rbtree_node_set_black h parent)
                   else let node = parent;
                            parent = hev_rbtree_node_parent h node
                        in if parent \<noteq> NULL then Inr ((root, h), node, parent)
                           else Inl (root, h)
              else
                let (h, sibling, tmp1) =
                      (if tmp1 = NULL \<or> hev_rbtree_node_is_black h tmp1 then
                         let tmp1 = rb_right (h tmp2);
                             h = set_left h sibling tmp1;
                             h = set_right h tmp2 sibling;
                             h = set_right h parent tmp2;
                             h = (if tmp1 \<noteq> NULL
                                  then hev_rbtree_node_set_parent_color h tmp1 sibling HEV_RBTREE_BLACK
                                  else h)
                         in (h, tmp2, sibling)
                       else (h, sibling, tmp1));
                    tmp2 = rb_left (h sibling);
                    h = set_right h parent tmp2;
                    h = set_left h sibling parent;
                    h = hev_rbtree_node_set_parent_color h tmp1 sibling HEV_RBTREE_BLACK;
                    h = (if tmp2 \<noteq> NULL then hev_rbtree_node_set_parent h tmp2 parent else h)
                in Inl (hev_rbtree_rotate_set_parents (root, h) parent sibling HEV_RBTREE_BLACK)
         else
           let sibling = rb_left (h parent);
               (root, h, sibling) =
                 (if hev_rbtree_node_is_red h sibling then
                    let tmp1 = rb_right (h sibling);
                        h = set_left h parent tmp1;
                        h = set_right h sibling parent;
                        h = hev_rbtree_node_set_parent_color h tmp1 parent HEV_RBTREE_BLACK;
                        (root, h) = hev_rbtree_rotate_set_parents (root, h) parent sibling HEV_RBTREE_RED
                    in (root, h, tmp1)
                  else (root, h, sibling));
               tmp1 = rb_left (h sibling);
               tmp2 = rb_right (h sibling)
           in if (tmp1 = NULL \<or> hev_rbtree_node_is_black h tmp1) \<and>
                 (tmp2 = NULL \<or> hev_rbtree_node_is_black h tmp2) then
                let h = hev_rbtree_node_set_parent_color h sibling parent HEV_RBTREE_RED
                in if hev_rbtree_node_is_red h parent
                   then Inl (root, hev_rbtree_node_set_black h parent)
                   else let node = parent;
                            parent = hev_rbtree_node_parent h node
                        in if parent \<noteq> NULL then Inr ((root, h), node, parent)
                           else Inl (root, h)
              else
                let (h, sibling, tmp1) =
                      (if tmp1 = NULL \<or> hev_rbtree_node_is_black h tmp1 then
                         let tmp1 = rb_left (h tmp2);
                             h = set_right h sibling tmp1;
                             h = set_left h tmp2 sibling;
                             h = set_left h parent tmp2;
                             h = (if tmp1 \<noteq> NULL
                                  then hev_rbtree_node_set_parent_color h tmp1 sibling HEV_RBTREE_BLACK
                                  else h)
                         in (h, tmp2, sibling)
                       else (h, sibling, tmp1));
                    tmp2 = rb_right (h sibling);
                    h = set_left h parent tmp2;
                    h = set_right h sibling parent;
                    h = hev_rbtree_node_set_parent_color h tmp1 sibling HEV_RBTREE_BLACK;
                    h = (if tmp2 \<noteq> NULL then hev_rbtree_node_set_parent h tmp2 parent else h)
                in Inl (hev_rbtree_rotate_set_parents (root, h) parent sibling HEV_RBTREE_BLACK))"

partial_function (option) erase_color_loop :: "rbstate \<Rightarrow> ptr \<Rightarrow> ptr \<Rightarrow> rbstate option" where
  "erase_color_loop s node parent =
     (case erase_color_step s node parent of
        Inl s \<Rightarrow> Some s
      | Inr (s, node, parent) \<Rightarrow> erase_color_loop s node parent)"

definition hev_rbtree_erase :: "rbstate \<Rightarrow> ptr \<Rightarrow> rbstate option" where
  "hev_rbtree_erase s node =
     (case rbtree_erase_node s node of
        None \<Rightarrow> None
      | Some (s, rebalance) \<Rightarrow>
          if rebalance \<noteq> NULL then erase_color_loop s NULL rebalance else Some s)"

subsection \<open>Trees of nodes and paths\<close>

datatype ptree = Leaf | Node ptree HevRBTreeColor ptr ptree

text \<open>A path upwards from a hole: the hole is the left or the right child of the next node.\<close>

datatype frame = InL HevRBTreeColor ptr ptree | InR ptree HevRBTreeColor ptr

abbreviation (input) "RED \<equiv> HEV_RBTREE_RED"
abbreviation (input) "BLACK \<equiv> HEV_RBTREE_BLACK"

fun rootp :: "ptree \<Rightarrow> ptr" where
  "rootp Leaf = NULL"
| "rootp (Node l c a r) = a"

fun paint :: "HevRBTreeColor \<Rightarrow> ptree \<Rightarrow> ptree" where
  "paint c Leaf = Leaf"
| "paint c (Node l c' a r) = Node l c a r"

fun is_red :: "ptree \<Rightarrow> bool" where
  "is_red (Node l HEV_RBTREE_RED a r) = True"
| "is_red t = False"

fun inorder :: "ptree \<Rightarrow> ptr list" where
  "inorder Leaf = []"
| "inorder (Node l c a r) = inorder l @ a # inorder r"

fun plug :: "frame list \<Rightarrow> ptree \<Rightarrow> ptree" where
  "plug [] t = t"
| "plug (InL c p r # k) t = plug k (Node t c p r)"
| "plug (InR l c p # k) t = plug k (Node l c p t)"

fun lefts :: "frame list \<Rightarrow> ptr list" where
  "lefts [] = []"
| "lefts (InL c p r # k) = lefts k"
| "lefts (InR l c p # k) = lefts k @ inorder l @ [p]"

fun rights :: "frame list \<Rightarrow> ptr list" where
  "rights [] = []"
| "rights (InL c p r # k) = p # inorder r @ rights k"
| "rights (InR l c p # k) = rights k"

fun topp :: "frame list \<Rightarrow> ptr" where
  "topp [] = NULL"
| "topp (InL c p r # k) = p"
| "topp (InR l c p # k) = p"

lemma inorder_plug [simp]: "inorder (plug k t) = lefts k @ inorder t @ rights k"
  by (induction k t rule: plug.induct) auto

lemma inorder_paint [simp]: "inorder (paint c t) = inorder t"
  by (cases t) auto

lemma rootp_paint [simp]: "rootp (paint c t) = rootp t"
  by (cases t) auto

lemma rootp_in: "t \<noteq> Leaf \<Longrightarrow> rootp t \<in> set (inorder t)"
  by (cases t) auto

lemma rootp_neq [simp]:
  "a \<notin> set (inorder t) \<Longrightarrow> a \<noteq> NULL \<Longrightarrow> a \<noteq> rootp t" "a \<notin> set (inorder t) \<Longrightarrow> a \<noteq> NULL \<Longrightarrow> rootp t \<noteq> a"
  by (cases t; auto)+

subsection \<open>The packed word\<close>

definition pcw :: "ptr \<Rightarrow> HevRBTreeColor \<Rightarrow> nat" where
  "pcw p c = p + color_bit c"

definition al :: "ptr \<Rightarrow> bool" where
  "al p \<longleftrightarrow> p mod 4 = 0"

lemma al_even: "al p \<Longrightarrow> \<exists>q. p = 4 * q"
  unfolding al_def by presburger

lemma al_0 [simp]: "al 0"
  by (simp add: al_def)

lemma or_color [simp]: "al p \<Longrightarrow> p OR color_bit c = pcw p c"
proof -
  assume "al p"
  then obtain q where "p = 4 * q" using al_even by auto
  then have "even p" by simp
  then show ?thesis
    by (cases c) (simp_all add: pcw_def or_Suc_0_eq)
qed

lemma pc_parent_pcw [simp]: "al p \<Longrightarrow> pc_parent (pcw p c) = p"
  by (cases c) (auto dest!: al_even simp: pc_parent_def pcw_def)

lemma pc_mod_2 [simp]: "al p \<Longrightarrow> pcw p c mod 2 = color_bit c"
  by (cases c) (auto dest!: al_even simp: pcw_def, presburger)

lemma color_bit_mod_2 [simp]: "color_bit c mod 2 = color_bit c"
  by (cases c) simp_all

lemma color_bit_0_iff [simp]: "color_bit c = 0 \<longleftrightarrow> c = RED" "0 < color_bit c \<longleftrightarrow> c = BLACK"
  by (cases c; simp)+

lemma not_color [simp]: "c \<noteq> RED \<longleftrightarrow> c = BLACK" "c \<noteq> BLACK \<longleftrightarrow> c = RED"
  by (cases c; simp)+

lemma pc_is_black_pcw [simp]: "al p \<Longrightarrow> pc_is_black (pcw p c) \<longleftrightarrow> c = BLACK"
  by (simp add: pc_is_black_def)

lemma pcw_or_1 [simp]: "al p \<Longrightarrow> pcw p c OR Suc 0 = pcw p BLACK"
  by (cases c) (auto dest!: al_even simp: pcw_def or_Suc_0_eq)

lemma pcw_red [simp]: "pcw p RED = p"
  by (simp add: pcw_def)

lemma al_mod_2 [simp]: "al p \<Longrightarrow> p mod 2 = 0"
  by (auto dest!: al_even)

lemma pc_parent_al [simp]: "al p \<Longrightarrow> pc_parent p = p"
  using pc_parent_pcw [of p RED] by simp

lemma al_or_1 [simp]: "al p \<Longrightarrow> p OR Suc 0 = pcw p BLACK"
  using pcw_or_1 [of p RED] by simp

lemma color_or_parent [simp]: "al p \<Longrightarrow> color_bit c OR p = pcw p c"
  by (simp add: or.commute)

lemma pcw_not_self: "al p \<Longrightarrow> al a \<Longrightarrow> a \<noteq> p \<Longrightarrow> pcw p c \<noteq> a"
  by (cases c) (auto dest!: al_even simp: pcw_def)

subsection \<open>A heap holds a tree\<close>

fun tree_at :: "rbheap \<Rightarrow> ptr \<Rightarrow> ptree \<Rightarrow> bool" where
  "tree_at h p Leaf = True"
| "tree_at h p (Node l c a r) =
     (a \<noteq> NULL \<and> al a \<and> h a = \<lparr>rb_pc = pcw p c, rb_right = rootp r, rb_left = rootp l\<rparr> \<and>
      tree_at h a l \<and> tree_at h a r)"

fun ctx_at :: "rbheap \<Rightarrow> ptr \<Rightarrow> frame list \<Rightarrow> ptr \<Rightarrow> bool" where
  "ctx_at h root [] q = (root = q)"
| "ctx_at h root (InL c p r # k) q =
     (p \<noteq> NULL \<and> al p \<and> h p = \<lparr>rb_pc = pcw (topp k) c, rb_right = rootp r, rb_left = q\<rparr> \<and>
      tree_at h p r \<and> ctx_at h root k p)"
| "ctx_at h root (InR l c p # k) q =
     (p \<noteq> NULL \<and> al p \<and> h p = \<lparr>rb_pc = pcw (topp k) c, rb_right = q, rb_left = rootp l\<rparr> \<and>
      tree_at h p l \<and> ctx_at h root k p)"

definition path_ptrs :: "frame list \<Rightarrow> ptr set" where
  "path_ptrs k = set (lefts k) \<union> set (rights k)"

definition focus :: "rbstate \<Rightarrow> frame list \<Rightarrow> ptree \<Rightarrow> bool" where
  "focus s k t \<longleftrightarrow>
     distinct (lefts k @ inorder t @ rights k) \<and> tree_at (snd s) (topp k) t \<and>
     ctx_at (snd s) (fst s) k (rootp t)"

definition rbt_rep :: "rbstate \<Rightarrow> ptree \<Rightarrow> bool" where
  "rbt_rep s t \<longleftrightarrow> focus s [] t"

lemma path_ptrs_simps [simp]:
  "path_ptrs [] = {}" "path_ptrs (InL c p r # k) = insert p (set (inorder r)) \<union> path_ptrs k"
  "path_ptrs (InR l c p # k) = insert p (set (inorder l)) \<union> path_ptrs k"
  by (auto simp: path_ptrs_def)

lemma ctx_top_al [simp]: "ctx_at h root k q \<Longrightarrow> al (topp k)"
  by (induction h root k q rule: ctx_at.induct) auto

lemma ctx_top_NULL [simp]:
  "ctx_at h root k q \<Longrightarrow> topp k = 0 \<longleftrightarrow> k = []" "ctx_at h root k q \<Longrightarrow> 0 < topp k \<longleftrightarrow> k \<noteq> []"
  by (induction h root k q rule: ctx_at.induct) auto

lemma tree_at_cong:
  "(\<And>a. a \<in> set (inorder t) \<Longrightarrow> h' a = h a) \<Longrightarrow> tree_at h' p t = tree_at h p t"
  by (induction t arbitrary: p) auto

lemma tree_at_upd [simp]: "a \<notin> set (inorder t) \<Longrightarrow> tree_at (h(a := v)) p t = tree_at h p t"
  by (rule tree_at_cong) auto

lemma ctx_at_cong:
  "(\<And>a. a \<in> path_ptrs k \<Longrightarrow> h' a = h a) \<Longrightarrow> ctx_at h' root k q = ctx_at h root k q"
proof (induction k arbitrary: q)
  case (Cons f k)
  then show ?case
    by (cases f) (auto simp: tree_at_cong [of _ h' h])
qed simp

lemma ctx_at_upd [simp]: "a \<notin> path_ptrs k \<Longrightarrow> ctx_at (h(a := v)) root k q = ctx_at h root k q"
  by (rule ctx_at_cong) auto

lemma focus_plug: "focus s k t \<Longrightarrow> focus s [] (plug k t)"
proof (induction k t rule: plug.induct)
  case (2 c p r k t)
  then have "focus s k (Node t c p r)" by (auto simp: focus_def)
  with 2 show ?case by simp
next
  case (3 l c p k t)
  then have "focus s k (Node l c p t)" by (auto simp: focus_def)
  with 3 show ?case by simp
qed simp

text \<open>The hole can be moved to any node of the tree.\<close>

lemma focus_node:
  "focus s k t \<Longrightarrow> a \<in> set (inorder t) \<Longrightarrow>
   \<exists>k' l c r. focus s k' (Node l c a r) \<and> plug k' (Node l c a r) = plug k t"
proof (induction t arbitrary: k)
  case (Node l c b r)
  consider "a = b" | "a \<in> set (inorder l)" | "a \<in> set (inorder r)" using Node.prems by auto
  then show ?case
  proof cases
    case 1
    with Node.prems show ?thesis by blast
  next
    case 2
    have "focus s (InL c b r # k) l" using Node.prems by (auto simp: focus_def)
    with Node.IH(1) 2 show ?thesis by fastforce
  next
    case 3
    have "focus s (InR l c b # k) r" using Node.prems by (auto simp: focus_def)
    with Node.IH(2) 3 show ?thesis by fastforce
  qed
qed simp

subsection \<open>Rotations\<close>

lemmas rb_ops =
  hev_rbtree_node_set_parent_color_def hev_rbtree_node_set_parent_def hev_rbtree_node_set_black_def
  set_right_def set_left_def hev_rbtree_node_color_def hev_rbtree_node_is_red_def
  hev_rbtree_node_is_black_def hev_rbtree_node_red_parent_def hev_rbtree_node_parent_def

lemma change_child_focus:
  assumes c: "ctx_at h root k old" and t: "tree_at h (topp k) t" and d: "distinct (lefts k @ inorder t @ rights k)"
    and old: "old \<notin> path_ptrs k" "old \<noteq> NULL"
  shows "focus (hev_rbtree_change_child (root, h) old (rootp t) (topp k)) k t"
proof (cases k)
  case Nil
  with assms show ?thesis by (simp add: hev_rbtree_change_child_def focus_def)
next
  case (Cons f k')
  show ?thesis
  proof (cases f)
    case (InL col p r)
    with Cons assms show ?thesis
      by (auto simp: hev_rbtree_change_child_def focus_def set_left_def path_ptrs_def)
  next
    case (InR l col p)
    have "rootp l \<noteq> old" using old InR Cons by (cases l) auto
    with Cons InR assms show ?thesis
      by (auto simp: hev_rbtree_change_child_def focus_def set_right_def path_ptrs_def)
  qed
qed

lemma rotate_focus:
  assumes pc: "rb_pc (h old) = pcw (topp k) c"
    and ctx: "ctx_at h root k old" and old: "old \<notin> path_ptrs k" "old \<noteq> NULL"
    and nw: "new' \<notin> path_ptrs k" "rootp t = new'"
    and t: "tree_at (hev_rbtree_node_set_parent_color (h(new' := (h new')\<lparr>rb_pc := pcw (topp k) c\<rparr>))
              old new' col) (topp k) t"
    and d: "distinct (lefts k @ inorder t @ rights k)"
  shows "focus (hev_rbtree_rotate_set_parents (root, h) old new' col) k t"
proof -
  let ?h = "hev_rbtree_node_set_parent_color (h(new' := (h new')\<lparr>rb_pc := pcw (topp k) c\<rparr>)) old new' col"
  have "ctx_at ?h root k old" using ctx old nw by (simp add: hev_rbtree_node_set_parent_color_def)
  from change_child_focus [OF this t d old] show ?thesis
    using pc ctx nw(2) by (simp add: hev_rbtree_rotate_set_parents_def hev_rbtree_node_parent_def)
qed

subsection \<open>Insertion on trees\<close>

fun fcol :: "frame \<Rightarrow> HevRBTreeColor" where
  "fcol (InL c p r) = c"
| "fcol (InR l c p) = c"

fun fsib :: "frame \<Rightarrow> ptree" where
  "fsib (InL c p r) = r"
| "fsib (InR l c p) = l"

fun fptr :: "frame \<Rightarrow> ptr" where
  "fptr (InL c p r) = p"
| "fptr (InR l c p) = p"

text \<open>The colour flip of case 1, and the rotations of cases 2 and 3.\<close>

fun ins_flip :: "frame \<Rightarrow> frame \<Rightarrow> ptree \<Rightarrow> ptree" where
  "ins_flip f (InL gc g u) t = Node (case f of InL c p r \<Rightarrow> Node t BLACK p r | InR l c p \<Rightarrow> Node l BLACK p t)
      RED g (paint BLACK u)"
| "ins_flip f (InR u gc g) t = Node (paint BLACK u) RED g
      (case f of InL c p r \<Rightarrow> Node t BLACK p r | InR l c p \<Rightarrow> Node l BLACK p t)"

fun ins_rot :: "frame \<Rightarrow> frame \<Rightarrow> ptree \<Rightarrow> ptree" where
  "ins_rot (InL c p pr) (InL gc g u) t = Node t gc p (Node (paint BLACK pr) RED g u)"
| "ins_rot (InR pl c p) (InL gc g u) (Node nl nc n nr) =
     Node (Node pl RED p (paint BLACK nl)) gc n (Node (paint BLACK nr) RED g u)"
| "ins_rot (InR pl c p) (InR u gc g) t = Node (Node u RED g (paint BLACK pl)) gc p t"
| "ins_rot (InL c p pr) (InR u gc g) (Node nl nc n nr) =
     Node (Node u RED g (paint BLACK nl)) gc n (Node (paint BLACK nr) RED p pr)"
| "ins_rot f g Leaf = Leaf"

fun ins_fix :: "frame list \<Rightarrow> ptree \<Rightarrow> ptree" where
  "ins_fix [] t = paint BLACK t"
| "ins_fix [f] t = plug [f] t"
| "ins_fix (f # g # k) t =
     (if fcol f = BLACK then plug (f # g # k) t
      else if is_red (fsib g) then ins_fix k (ins_flip f g t)
      else plug k (ins_rot f g t))"

lemma is_red_iff: "tree_at h p t \<Longrightarrow> al p \<Longrightarrow> rootp t \<noteq> NULL \<and> hev_rbtree_node_is_red h (rootp t) \<longleftrightarrow> is_red t"
  by (cases t rule: is_red.cases) (auto simp: rb_ops)

lemma focusD:
  "focus (root, h) k t \<Longrightarrow> distinct (lefts k @ inorder t @ rights k) \<and> tree_at h (topp k) t \<and>
     ctx_at h root k (rootp t)"
  by (simp add: focus_def)

lemma black_cases:
  "\<not> is_red u \<Longrightarrow> (u = Leaf \<Longrightarrow> P) \<Longrightarrow> (\<And>l a r. u = Node l BLACK a r \<Longrightarrow> P) \<Longrightarrow> P"
  by (cases u rule: is_red.cases) auto

lemma red_cases: "is_red u \<Longrightarrow> (\<And>l a r. u = Node l RED a r \<Longrightarrow> P) \<Longrightarrow> P"
  by (cases u rule: is_red.cases) auto

text \<open>One round of the loop on the heap is one step on the path; a side for each pair of frames.\<close>

lemma ins_flip_LL:
  assumes "is_red u" "focus (root, h) (InL RED p pr # InL gc g u # k) (Node l RED n r)"
  shows "case insert_color_step (root, h) n p of Inl s \<Rightarrow> False | Inr (s, n', p') \<Rightarrow>
    n' = fptr (InL gc g u) \<and> p' = topp k \<and> focus s k (ins_flip (InL RED p pr) (InL gc g u) (Node l RED n r))"
  using assms
  apply -
  apply (erule red_cases, hypsubst_thin, drule focusD, simp, elim conjE)
  apply (simp (no_asm_simp) add: insert_color_step_def Let_def rb_ops focus_def path_ptrs_def)
  done

lemma ins_flip_RL:
  assumes "is_red u" "focus (root, h) (InR pl RED p # InL gc g u # k) (Node l RED n r)"
  shows "case insert_color_step (root, h) n p of Inl s \<Rightarrow> False | Inr (s, n', p') \<Rightarrow>
    n' = fptr (InL gc g u) \<and> p' = topp k \<and> focus s k (ins_flip (InR pl RED p) (InL gc g u) (Node l RED n r))"
  using assms
  apply -
  apply (erule red_cases, hypsubst_thin, drule focusD, simp, elim conjE)
  apply (simp (no_asm_simp) add: insert_color_step_def Let_def rb_ops focus_def path_ptrs_def)
  done

lemma ins_flip_LR:
  assumes "is_red u" "focus (root, h) (InL RED p pr # InR u gc g # k) (Node l RED n r)"
  shows "case insert_color_step (root, h) n p of Inl s \<Rightarrow> False | Inr (s, n', p') \<Rightarrow>
    n' = fptr (InR u gc g) \<and> p' = topp k \<and> focus s k (ins_flip (InL RED p pr) (InR u gc g) (Node l RED n r))"
  using assms
  apply -
  apply (erule red_cases, hypsubst_thin, drule focusD, simp, elim conjE)
  apply (simp (no_asm_simp) add: insert_color_step_def Let_def rb_ops focus_def path_ptrs_def)
  done

lemma ins_flip_RR:
  assumes "is_red u" "focus (root, h) (InR pl RED p # InR u gc g # k) (Node l RED n r)"
  shows "case insert_color_step (root, h) n p of Inl s \<Rightarrow> False | Inr (s, n', p') \<Rightarrow>
    n' = fptr (InR u gc g) \<and> p' = topp k \<and> focus s k (ins_flip (InR pl RED p) (InR u gc g) (Node l RED n r))"
  using assms
  apply -
  apply (erule red_cases, hypsubst_thin, drule focusD, simp, elim conjE)
  apply (simp (no_asm_simp) add: insert_color_step_def Let_def rb_ops focus_def path_ptrs_def)
  done

lemma ins_rot_LL:
  assumes "\<not> is_red u" "focus (root, h) (InL RED p pr # InL gc g u # k) (Node l RED n r)"
  shows "case insert_color_step (root, h) n p of
     Inl s \<Rightarrow> focus s k (ins_rot (InL RED p pr) (InL gc g u) (Node l RED n r)) | Inr x \<Rightarrow> False"
  using assms
  apply -
  apply (erule black_cases; cases pr; hypsubst_thin; drule focusD; simp; elim conjE)
  apply (simp (no_asm_simp) add: insert_color_step_def Let_def rb_ops;
      rule rotate_focus [where c = gc]; simp (no_asm_simp) add: path_ptrs_def rb_ops)+
  done

lemma ins_rot_RL:
  assumes "\<not> is_red u" "focus (root, h) (InR pl RED p # InL gc g u # k) (Node l RED n r)"
  shows "case insert_color_step (root, h) n p of
     Inl s \<Rightarrow> focus s k (ins_rot (InR pl RED p) (InL gc g u) (Node l RED n r)) | Inr x \<Rightarrow> False"
  using assms
  apply -
  apply (erule black_cases; cases l; cases r; hypsubst_thin; drule focusD; simp; elim conjE)
  apply (simp (no_asm_simp) add: insert_color_step_def Let_def rb_ops;
      rule rotate_focus [where c = gc]; simp (no_asm_simp) add: path_ptrs_def rb_ops)+
  done

lemma ins_rot_RR:
  assumes "\<not> is_red u" "focus (root, h) (InR pl RED p # InR u gc g # k) (Node l RED n r)"
  shows "case insert_color_step (root, h) n p of
     Inl s \<Rightarrow> focus s k (ins_rot (InR pl RED p) (InR u gc g) (Node l RED n r)) | Inr x \<Rightarrow> False"
  using assms
  apply -
  apply (erule black_cases; cases pl; hypsubst_thin; drule focusD; simp; elim conjE)
  apply (simp (no_asm_simp) add: insert_color_step_def Let_def rb_ops;
      rule rotate_focus [where c = gc]; simp (no_asm_simp) add: path_ptrs_def rb_ops)+
  done

lemma ins_rot_LR:
  assumes "\<not> is_red u" "focus (root, h) (InL RED p pr # InR u gc g # k) (Node l RED n r)"
  shows "case insert_color_step (root, h) n p of
     Inl s \<Rightarrow> focus s k (ins_rot (InL RED p pr) (InR u gc g) (Node l RED n r)) | Inr x \<Rightarrow> False"
  using assms
  apply -
  apply (erule black_cases; cases l; cases r; hypsubst_thin; drule focusD; simp; elim conjE)
  apply (simp (no_asm_simp) add: insert_color_step_def Let_def rb_ops;
      rule rotate_focus [where c = gc]; simp (no_asm_simp) add: path_ptrs_def rb_ops)+
  done

lemma insert_black_stop:
  "hev_rbtree_node_is_black h p \<Longrightarrow> p \<noteq> NULL \<Longrightarrow> insert_color_step (root, h) n p = Inl (root, h)"
  by (simp add: insert_color_step_def)

lemma focus_parent_black:
  "focus (root, h) (f # k) t \<Longrightarrow> topp (f # k) \<noteq> NULL \<and>
   (hev_rbtree_node_is_black h (topp (f # k)) \<longleftrightarrow> fcol f = BLACK)"
  by (cases f) (auto simp: focus_def rb_ops)

lemma insert_loop_focus:
  assumes "focus s k t" "t = Node l RED n r" "k \<noteq> [] \<longrightarrow> fcol (last k) = BLACK"
  shows "\<exists>s'. insert_color_loop s n (topp k) = Some s' \<and> focus s' [] (ins_fix k t)"
  using assms
proof (induction k t arbitrary: s l n r rule: ins_fix.induct)
  case (1 t)
  obtain root h where s: "s = (root, h)" by fastforce
  with 1 show ?case
    by (subst insert_color_loop.simps) (auto simp: insert_color_step_def focus_def rb_ops pcw_def)
next
  case (2 f t)
  obtain root h where s: "s = (root, h)" by fastforce
  from 2 s have "insert_color_step s n (topp [f]) = Inl s"
    using focus_parent_black [of root h f "[]" t] insert_black_stop by simp
  with focus_plug [OF 2(1)] show ?case by (subst insert_color_loop.simps) simp
next
  case (3 f g k t)
  obtain root h where s: "s = (root, h)" by fastforce
  note f = 3(2) [unfolded s 3(3)] and t = 3(3)
  show ?case
  proof (cases "fcol f = BLACK")
    case True
    with f s have "insert_color_step s n (topp (f # g # k)) = Inl s"
      using focus_parent_black [of root h f "g # k"] insert_black_stop by blast
    with focus_plug [OF 3(2)] True show ?thesis by (subst insert_color_loop.simps) simp
  next
    case red: False
    show ?thesis
    proof (cases "is_red (fsib g)")
      case True
      have "case insert_color_step (root, h) n (topp (f # g # k)) of Inl s \<Rightarrow> False | Inr (s, n', p') \<Rightarrow>
          n' = fptr g \<and> p' = topp k \<and> focus s k (ins_flip f g (Node l RED n r))"
        using red f True by (cases f; cases g)
          (auto intro: ins_flip_LL ins_flip_RL ins_flip_LR ins_flip_RR simp del: ins_flip.simps)
      then obtain s1 where s1: "insert_color_step s n (topp (f # g # k)) = Inr (s1, fptr g, topp k)"
        "focus s1 k (ins_flip f g t)" using s t by (auto split: sum.splits)
      obtain l' r' where "ins_flip f g t = Node l' RED (fptr g) r'" by (cases g) auto
      moreover have "k \<noteq> [] \<longrightarrow> fcol (last k) = BLACK" using 3(4) by (auto split: if_splits)
      ultimately obtain s2 where "insert_color_loop s1 (fptr g) (topp k) = Some s2"
        "focus s2 [] (ins_fix k (ins_flip f g t))"
        using 3(1) [OF _ True s1(2)] red by auto
      with s1(1) red True show ?thesis by (subst insert_color_loop.simps) simp
    next
      case False
      have "case insert_color_step (root, h) n (topp (f # g # k)) of
          Inl s \<Rightarrow> focus s k (ins_rot f g (Node l RED n r)) | Inr x \<Rightarrow> False"
        using red f False by (cases f; cases g)
          (auto intro: ins_rot_LL ins_rot_RL ins_rot_LR ins_rot_RR simp del: ins_rot.simps)
      then obtain s1 where s1: "insert_color_step s n (topp (f # g # k)) = Inl s1"
        "focus s1 k (ins_rot f g t)" using s t by (auto split: sum.splits)
      with focus_plug [OF s1(2)] red False show ?thesis by (subst insert_color_loop.simps) simp
    qed
  qed
qed

subsection \<open>Balance\<close>

text \<open>
  \<open>rbh t\<close> is the black height of \<open>t\<close> when every path has the same number of black nodes and no
  red node has a red child; \<open>path_ok k n\<close> says that the path \<open>k\<close> is valid above a subtree of black
  height \<open>n\<close>.
\<close>

fun rbh :: "ptree \<Rightarrow> nat option" where
  "rbh Leaf = Some 0"
| "rbh (Node l c a r) =
     (case (rbh l, rbh r) of
        (Some m, Some n) \<Rightarrow>
          if m = n \<and> (c = RED \<longrightarrow> \<not> is_red l \<and> \<not> is_red r)
          then Some (if c = BLACK then Suc m else m) else None
      | _ \<Rightarrow> None)"

definition rbt_ok :: "ptree \<Rightarrow> bool" where
  "rbt_ok t \<longleftrightarrow> rbh t \<noteq> None \<and> \<not> is_red t"

fun path_ok :: "frame list \<Rightarrow> nat \<Rightarrow> bool" where
  "path_ok [] n = True"
| "path_ok (f # k) n =
     (rbh (fsib f) = Some n \<and>
      (fcol f = RED \<longrightarrow> \<not> is_red (fsib f) \<and> k \<noteq> [] \<and> fcol (hd k) = BLACK) \<and>
      path_ok k (if fcol f = BLACK then Suc n else n))"

lemma rbh_Node [simp]:
  "rbh (Node l c a r) = Some n \<longleftrightarrow>
     (\<exists>m. rbh l = Some m \<and> rbh r = Some m \<and> (c = RED \<longrightarrow> \<not> is_red l \<and> \<not> is_red r) \<and>
          n = (if c = BLACK then Suc m else m))"
  by (auto split: option.splits)

declare rbh.simps(2) [simp del]

lemma is_red_Node [simp]: "is_red (Node l c a r) \<longleftrightarrow> c = RED"
  by (cases c) auto

lemma plug_ok:
  "rbh t = Some n \<Longrightarrow> path_ok k n \<Longrightarrow> (k \<noteq> [] \<and> fcol (hd k) = RED \<longrightarrow> \<not> is_red t) \<Longrightarrow>
   (k = [] \<longrightarrow> \<not> is_red t) \<Longrightarrow> rbt_ok (plug k t)"
proof (induction k t arbitrary: n rule: plug.induct)
  case (2 c p r k t)
  then show ?case by (cases c) (fastforce simp: rbt_ok_def)+
next
  case (3 l c p k t)
  then show ?case by (cases c) (fastforce simp: rbt_ok_def)+
qed (auto simp: rbt_ok_def)

lemma plug_okD:
  "rbt_ok (plug k t) \<Longrightarrow>
   \<exists>n. rbh t = Some n \<and> path_ok k n \<and> (k \<noteq> [] \<and> fcol (hd k) = RED \<longrightarrow> \<not> is_red t) \<and> (k = [] \<longrightarrow> \<not> is_red t)"
proof (induction k t rule: plug.induct)
  case (2 c p r k t)
  then obtain n where "rbh (Node t c p r) = Some n" "path_ok k n"
    "k \<noteq> [] \<and> fcol (hd k) = RED \<longrightarrow> \<not> is_red (Node t c p r)" "k = [] \<longrightarrow> \<not> is_red (Node t c p r)" by auto
  then show ?case by (cases c) auto
next
  case (3 l c p k t)
  then obtain n where "rbh (Node l c p t) = Some n" "path_ok k n"
    "k \<noteq> [] \<and> fcol (hd k) = RED \<longrightarrow> \<not> is_red (Node l c p t)" "k = [] \<longrightarrow> \<not> is_red (Node l c p t)" by auto
  then show ?case by (cases c) auto
qed (auto simp: rbt_ok_def)

lemma path_ok_last: "path_ok k n \<Longrightarrow> k \<noteq> [] \<longrightarrow> fcol (last k) = BLACK"
proof (induction k arbitrary: n)
  case (Cons f k)
  then show ?case by (cases k) (auto split: if_splits)
qed simp

lemma rbh_paint_BLACK: "rbh t = Some n \<Longrightarrow> \<not> is_red t \<Longrightarrow> paint BLACK t = t"
  by (erule black_cases) auto

lemma rbh_paint_red: "rbh t = Some n \<Longrightarrow> is_red t \<Longrightarrow> rbh (paint BLACK t) = Some (Suc n)"
  by (erule red_cases) auto

lemma ins_fix_ok:
  "rbh t = Some n \<Longrightarrow> t = Node l RED a r \<Longrightarrow> path_ok k n \<Longrightarrow> rbt_ok (ins_fix k t)"
proof (induction k t arbitrary: n l a r rule: ins_fix.induct)
  case (1 t)
  then show ?case by (auto simp: rbt_ok_def)
next
  case (2 f t)
  with plug_ok [of t n "[f]"] show ?case by (auto split: if_splits)
next
  case (3 f g k t)
  show ?case
  proof (cases "fcol f = BLACK")
    case True
    with 3 plug_ok [of t n "f # g # k"] show ?thesis by simp
  next
    case red: False
    then have g: "fcol g = BLACK" "rbh (fsib g) = Some n" "rbh (fsib f) = Some n" "\<not> is_red (fsib f)"
      "path_ok k (Suc n)" using 3(4) by auto
    show ?thesis
    proof (cases "is_red (fsib g)")
      case True
      obtain l' r' where fl: "ins_flip f g t = Node l' RED (fptr g) r'" by (cases g) auto
      have "rbh (ins_flip f g t) = Some (Suc n)"
        using g 3(2) True red
        by (cases f; cases g) (auto simp: rbh_paint_red elim!: red_cases)
      with 3(1) [OF _ True _ fl g(5)] red True show ?thesis by simp
    next
      case False
      have "rbh (ins_rot f g t) = Some (Suc n)" "\<not> is_red (ins_rot f g t)"
        using g 3(2,3) False red
        by (cases f; cases g; auto simp: rbh_paint_BLACK)+
      with plug_ok [OF _ g(5)] red False show ?thesis by auto
    qed
  qed
qed

lemma inorder_ins_fix: "t \<noteq> Leaf \<Longrightarrow> inorder (ins_fix k t) = lefts k @ inorder t @ rights k"
proof (induction k t rule: ins_fix.induct)
  case (3 f g k t)
  have flip: "inorder (ins_flip f g t) = inorder (plug [f, g] t)" "ins_flip f g t \<noteq> Leaf"
    by (cases f; cases g; auto)+
  have rot: "inorder (ins_rot f g t) = inorder (plug [f, g] t)"
    using 3(2) by (cases f; cases g; cases t) auto
  have sp: "lefts (f # g # k) = lefts k @ lefts [f, g]" "rights (f # g # k) = rights [f, g] @ rights k"
    by (cases f; cases g; simp)+
  show ?case
    using 3(1) flip rot by (simp add: sp del: lefts.simps rights.simps plug.simps)
qed simp_all

subsection \<open>Removal on trees\<close>

text \<open>
  Rebalancing below a black sibling: \<open>Inl\<close> a finished subtree for the place of the parent, or
  \<open>Inr\<close> a subtree whose black height is still one short. The frame says on which side the short
  subtree \<open>t\<close> hangs.
\<close>

fun ers_bal :: "frame \<Rightarrow> ptree \<Rightarrow> ptree + ptree" where
  "ers_bal (InL pc p (Node sl sc s sr)) t =
     (if \<not> is_red sr \<and> \<not> is_red sl then
        (if pc = RED then Inl (Node t BLACK p (Node sl RED s sr))
         else Inr (Node t BLACK p (Node sl RED s sr)))
      else if \<not> is_red sr then
        (case sl of
           Node sll slc a slr \<Rightarrow> Inl (Node (Node t BLACK p sll) pc a (Node (paint BLACK slr) BLACK s sr))
         | Leaf \<Rightarrow> Inl Leaf)
      else Inl (Node (Node t BLACK p sl) pc s (paint BLACK sr)))"
| "ers_bal (InR (Node sl sc s sr) pc p) t =
     (if \<not> is_red sl \<and> \<not> is_red sr then
        (if pc = RED then Inl (Node (Node sl RED s sr) BLACK p t)
         else Inr (Node (Node sl RED s sr) BLACK p t))
      else if \<not> is_red sl then
        (case sr of
           Node srl src a srr \<Rightarrow> Inl (Node (Node sl BLACK s (paint BLACK srl)) pc a (Node srr BLACK p t))
         | Leaf \<Rightarrow> Inl Leaf)
      else Inl (Node (paint BLACK sl) pc s (Node sr BLACK p t)))"
| "ers_bal f t = Inl Leaf"

text \<open>A red sibling is first rotated above the parent (case 1).\<close>

fun ers_case1 :: "frame \<Rightarrow> frame list" where
  "ers_case1 (InL pc p (Node sl sc s sr)) = [InL RED p (paint BLACK sl), InL pc s sr]"
| "ers_case1 (InR (Node sl sc s sr) pc p) = [InR (paint BLACK sr) RED p, InR sl pc s]"
| "ers_case1 f = [f]"

fun ers_fix :: "frame list \<Rightarrow> ptree \<Rightarrow> ptree" where
  "ers_fix [] t = t"
| "ers_fix (f # k) t =
     (if is_red (fsib f) then
        (case ers_case1 f of
           [f1, g1] \<Rightarrow> (case ers_bal f1 t of Inl u \<Rightarrow> plug (g1 # k) u | Inr u \<Rightarrow> plug (g1 # k) u)
         | _ \<Rightarrow> Leaf)
      else case ers_bal f t of Inl u \<Rightarrow> plug k u | Inr u \<Rightarrow> ers_fix k u)"

lemma erase_flip_red_L:
  assumes "\<not> is_red sl" "\<not> is_red sr" "focus (root, h) (InL RED p (Node sl BLACK s sr) # k) t"
  shows "case erase_color_step (root, h) (rootp t) p of
      Inl s' \<Rightarrow> focus s' k (Node t BLACK p (Node sl RED s sr)) | Inr x \<Rightarrow> False"
  using assms
  apply -
  apply (erule black_cases; erule black_cases; hypsubst_thin; drule focusD; simp; elim conjE)
  apply (simp (no_asm_simp) add: erase_color_step_def Let_def rb_ops focus_def path_ptrs_def)+
  done

lemma erase_flip_black_L:
  assumes "\<not> is_red sl" "\<not> is_red sr" "focus (root, h) (InL BLACK p (Node sl BLACK s sr) # k) t"
  shows "case erase_color_step (root, h) (rootp t) p of
      Inl s' \<Rightarrow> k = [] \<and> focus s' k (Node t BLACK p (Node sl RED s sr)) 
    | Inr (s', n', p') \<Rightarrow> k \<noteq> [] \<and> p' = topp k \<and> n' = p \<and> focus s' k (Node t BLACK p (Node sl RED s sr))"
  using assms
  apply -
  apply (erule black_cases; erule black_cases; cases "k = []"; hypsubst_thin; drule focusD; simp; elim conjE)
  apply (simp (no_asm_simp) add: erase_color_step_def Let_def rb_ops focus_def path_ptrs_def)+
  done

lemma erase_inner_L:
  assumes "\<not> is_red sr" "focus (root, h) (InL pc p (Node (Node sll RED a slr) BLACK s sr) # k) t"
  shows "case erase_color_step (root, h) (rootp t) p of
      Inl s' \<Rightarrow> focus s' k (Node (Node t BLACK p sll) pc a (Node (paint BLACK slr) BLACK s sr)) 
    | Inr x \<Rightarrow> False"
  using assms
  apply -
  apply (erule black_cases; cases sll; cases slr; hypsubst_thin; drule focusD; simp; elim conjE)
  apply (simp (no_asm_simp) add: erase_color_step_def Let_def rb_ops ;
      rule rotate_focus [where c = pc]; simp (no_asm_simp) add: path_ptrs_def rb_ops)+
  done

lemma erase_outer_L:
  assumes "focus (root, h) (InL pc p (Node sl BLACK s (Node srl RED a srr)) # k) t"
  shows "case erase_color_step (root, h) (rootp t) p of
      Inl s' \<Rightarrow> focus s' k (Node (Node t BLACK p sl) pc s (Node srl BLACK a srr)) 
    | Inr x \<Rightarrow> False"
  using assms
  apply -
  apply (cases sl; hypsubst_thin; drule focusD; simp; elim conjE)
  apply (simp (no_asm_simp) add: erase_color_step_def Let_def rb_ops ;
      rule rotate_focus [where c = pc]; simp (no_asm_simp) add: path_ptrs_def rb_ops)+
  done

lemma erase_flip_red_R:
  assumes "\<not> is_red sr" "\<not> is_red sl" "focus (root, h) (InR (Node sl BLACK s sr) RED p # k) t"
  shows "case erase_color_step (root, h) (rootp t) p of
      Inl s' \<Rightarrow> focus s' k (Node (Node sl RED s sr) BLACK p t) | Inr x \<Rightarrow> False"
  using assms
  apply -
  apply (erule black_cases; erule black_cases; hypsubst_thin; drule focusD; simp; elim conjE)
  apply (simp (no_asm_simp) add: erase_color_step_def Let_def rb_ops focus_def path_ptrs_def)+
  done

lemma erase_flip_black_R:
  assumes "\<not> is_red sr" "\<not> is_red sl" "focus (root, h) (InR (Node sl BLACK s sr) BLACK p # k) t"
  shows "case erase_color_step (root, h) (rootp t) p of
      Inl s' \<Rightarrow> k = [] \<and> focus s' k (Node (Node sl RED s sr) BLACK p t)
    | Inr (s', n', p') \<Rightarrow> k \<noteq> [] \<and> p' = topp k \<and> n' = p \<and> focus s' k (Node (Node sl RED s sr) BLACK p t)"
  using assms
  apply -
  apply (erule black_cases; erule black_cases; cases "k = []"; hypsubst_thin; drule focusD; simp; elim conjE)
  apply (simp (no_asm_simp) add: erase_color_step_def Let_def rb_ops focus_def path_ptrs_def)+
  done

lemma erase_inner_R:
  assumes "\<not> is_red sl" "focus (root, h) (InR (Node sl BLACK s (Node srl RED a srr)) pc p # k) t"
  shows "case erase_color_step (root, h) (rootp t) p of
      Inl s' \<Rightarrow> focus s' k (Node (Node sl BLACK s (paint BLACK srl)) pc a (Node srr BLACK p t))
    | Inr x \<Rightarrow> False"
  using assms
  apply -
  apply (erule black_cases; cases srl; cases srr; hypsubst_thin; drule focusD; simp; elim conjE)
  apply (simp (no_asm_simp) add: erase_color_step_def Let_def rb_ops;
      rule rotate_focus [where c = pc]; simp (no_asm_simp) add: path_ptrs_def rb_ops)+
  done

lemma erase_outer_R:
  assumes "focus (root, h) (InR (Node (Node sll RED a slr) BLACK s sr) pc p # k) t"
  shows "case erase_color_step (root, h) (rootp t) p of
      Inl s' \<Rightarrow> focus s' k (Node (Node sll BLACK a slr) pc s (Node sr BLACK p t))
    | Inr x \<Rightarrow> False"
  using assms
  apply -
  apply (cases sr; hypsubst_thin; drule focusD; simp; elim conjE)
  apply (simp (no_asm_simp) add: erase_color_step_def Let_def rb_ops;
      rule rotate_focus [where c = pc]; simp (no_asm_simp) add: path_ptrs_def rb_ops)+
  done

text \<open>After case 1 the round goes on as on the rotated tree, where the sibling is black.\<close>

lemma erase_case1_L:
  assumes "node \<noteq> rb_right (h p)" "hev_rbtree_node_is_red h (rb_right (h p))"
    "hev_rbtree_rotate_set_parents (root, hev_rbtree_node_set_parent_color (set_left (set_right h p
        (rb_left (h (rb_right (h p))))) (rb_right (h p)) p) (rb_left (h (rb_right (h p)))) p BLACK)
        p (rb_right (h p)) RED = (r1, h1)"
    "rb_right (h1 p) = rb_left (h (rb_right (h p)))" "node \<noteq> rb_right (h1 p)"
    "\<not> hev_rbtree_node_is_red h1 (rb_right (h1 p))"
  shows "erase_color_step (root, h) node p = erase_color_step (r1, h1) node p"
  using assms by (simp add: erase_color_step_def Let_def)

lemma erase_case1_R:
  assumes "node = rb_right (h p)" "hev_rbtree_node_is_red h (rb_left (h p))"
    "hev_rbtree_rotate_set_parents (root, hev_rbtree_node_set_parent_color (set_right (set_left h p
        (rb_right (h (rb_left (h p))))) (rb_left (h p)) p) (rb_right (h (rb_left (h p)))) p BLACK)
        p (rb_left (h p)) RED = (r1, h1)"
    "rb_left (h1 p) = rb_right (h (rb_left (h p)))" "node = rb_right (h1 p)"
    "\<not> hev_rbtree_node_is_red h1 (rb_left (h1 p))"
  shows "erase_color_step (root, h) node p = erase_color_step (r1, h1) node p"
  using assms by (simp add: erase_color_step_def Let_def)

lemma erase_red_L:
  assumes "focus (root, h) (InL pc p (Node (Node sll BLACK a slr) RED s sr) # k) t"
  shows "\<exists>s1. erase_color_step (root, h) (rootp t) p = erase_color_step s1 (rootp t) p \<and>
    focus s1 (InL RED p (Node sll BLACK a slr) # InL pc s sr # k) t"
proof -
  note F = focusD [OF assms, simplified]
  let ?h = "hev_rbtree_node_set_parent_color (set_left (set_right h p a) s p) a p BLACK"
  obtain r1 h1 where rot: "hev_rbtree_rotate_set_parents (root, ?h) p s RED = (r1, h1)" by fastforce
  have "focus (hev_rbtree_rotate_set_parents (root, ?h) p s RED) k
      (Node (Node t RED p (Node sll BLACK a slr)) pc s sr)"
    using F
    apply -
    apply (elim conjE)
    apply (rule rotate_focus [where c = pc]; simp (no_asm_simp) add: path_ptrs_def rb_ops)
    done
  then have f1: "focus (r1, h1) (InL RED p (Node sll BLACK a slr) # InL pc s sr # k) t"
    unfolding rot by (auto simp: focus_def)
  note F1 = focusD [OF f1, simplified]
  have "erase_color_step (root, h) (rootp t) p = erase_color_step (r1, h1) (rootp t) p"
  proof (rule erase_case1_L)
    show "hev_rbtree_rotate_set_parents (root, hev_rbtree_node_set_parent_color (set_left (set_right h p
        (rb_left (h (rb_right (h p))))) (rb_right (h p)) p) (rb_left (h (rb_right (h p)))) p BLACK)
        p (rb_right (h p)) RED = (r1, h1)" using F rot by simp
  qed (use F F1 in \<open>auto simp: rb_ops\<close>)
  with f1 show ?thesis by blast
qed

lemma erase_red_R:
  assumes "focus (root, h) (InR (Node sl RED s (Node srl BLACK a srr)) pc p # k) t"
  shows "\<exists>s1. erase_color_step (root, h) (rootp t) p = erase_color_step s1 (rootp t) p \<and>
    focus s1 (InR (Node srl BLACK a srr) RED p # InR sl pc s # k) t"
proof -
  note F = focusD [OF assms, simplified]
  let ?h = "hev_rbtree_node_set_parent_color (set_right (set_left h p a) s p) a p BLACK"
  obtain r1 h1 where rot: "hev_rbtree_rotate_set_parents (root, ?h) p s RED = (r1, h1)" by fastforce
  have "focus (hev_rbtree_rotate_set_parents (root, ?h) p s RED) k
      (Node sl pc s (Node (Node srl BLACK a srr) RED p t))"
    using F
    apply -
    apply (elim conjE)
    apply (rule rotate_focus [where c = pc]; simp (no_asm_simp) add: path_ptrs_def rb_ops)
    done
  then have f1: "focus (r1, h1) (InR (Node srl BLACK a srr) RED p # InR sl pc s # k) t"
    unfolding rot by (auto simp: focus_def)
  note F1 = focusD [OF f1, simplified]
  have "erase_color_step (root, h) (rootp t) p = erase_color_step (r1, h1) (rootp t) p"
  proof (rule erase_case1_R)
    show "hev_rbtree_rotate_set_parents (root, hev_rbtree_node_set_parent_color (set_right (set_left h p
        (rb_right (h (rb_left (h p))))) (rb_left (h p)) p) (rb_right (h (rb_left (h p)))) p BLACK)
        p (rb_left (h p)) RED = (r1, h1)" using F rot by simp
  qed (use F F1 in \<open>auto simp: rb_ops\<close>)
  with f1 show ?thesis by blast
qed

lemma erase_bal_L:
  assumes f: "focus (root, h) (InL pc p sib # k) t" and sib: "\<not> is_red sib" "sib \<noteq> Leaf"
  shows "case ers_bal (InL pc p sib) t of
      Inl u \<Rightarrow> \<exists>s'. erase_color_step (root, h) (rootp t) p = Inl s' \<and> focus s' k u
    | Inr u \<Rightarrow> \<exists>s'. erase_color_step (root, h) (rootp t) p =
        (if k = [] then Inl s' else Inr (s', rootp u, topp k)) \<and> focus s' k u"
proof -
  from sib obtain sl s sr where s: "sib = Node sl BLACK s sr" by (auto elim: black_cases)
  consider "is_red sr" | "\<not> is_red sr" "is_red sl" | "\<not> is_red sr" "\<not> is_red sl" "pc = RED"
    | "\<not> is_red sr" "\<not> is_red sl" "pc = BLACK" by (cases pc) auto
  then show ?thesis
  proof cases
    case 1
    then obtain srl a srr where "sr = Node srl RED a srr" by (elim red_cases)
    with f s erase_outer_L [of root h pc p sl s srl a srr k t] show ?thesis
      by (cases "erase_color_step (root, h) (rootp t) p") auto
  next
    case 2
    from 2(2) obtain sll a slr where "sl = Node sll RED a slr" by (elim red_cases)
    with f s 2 erase_inner_L [OF 2(1), of root h pc p sll a slr s k t] show ?thesis
      by (cases "erase_color_step (root, h) (rootp t) p") auto
  next
    case 3
    with f s erase_flip_red_L [OF 3(2,1), of root h p s k t] show ?thesis
      by (cases "erase_color_step (root, h) (rootp t) p") auto
  next
    case 4
    with f s erase_flip_black_L [OF 4(2,1), of root h p s k t] show ?thesis
      by (cases "erase_color_step (root, h) (rootp t) p") (auto split: prod.splits)
  qed
qed

lemma erase_bal_R:
  assumes f: "focus (root, h) (InR sib pc p # k) t" and sib: "\<not> is_red sib" "sib \<noteq> Leaf"
  shows "case ers_bal (InR sib pc p) t of
      Inl u \<Rightarrow> \<exists>s'. erase_color_step (root, h) (rootp t) p = Inl s' \<and> focus s' k u
    | Inr u \<Rightarrow> \<exists>s'. erase_color_step (root, h) (rootp t) p =
        (if k = [] then Inl s' else Inr (s', rootp u, topp k)) \<and> focus s' k u"
proof -
  from sib obtain sl s sr where s: "sib = Node sl BLACK s sr" by (auto elim: black_cases)
  consider "is_red sl" | "\<not> is_red sl" "is_red sr" | "\<not> is_red sl" "\<not> is_red sr" "pc = RED"
    | "\<not> is_red sl" "\<not> is_red sr" "pc = BLACK" by (cases pc) auto
  then show ?thesis
  proof cases
    case 1
    then obtain sll a slr where "sl = Node sll RED a slr" by (elim red_cases)
    with f s erase_outer_R [of root h sll a slr s sr pc p k t] show ?thesis
      by (cases "erase_color_step (root, h) (rootp t) p") auto
  next
    case 2
    from 2(2) obtain srl a srr where "sr = Node srl RED a srr" by (elim red_cases)
    with f s 2 erase_inner_R [OF 2(1), of root h s srl a srr pc p k t] show ?thesis
      by (cases "erase_color_step (root, h) (rootp t) p") auto
  next
    case 3
    with f s erase_flip_red_R [OF 3(2,1), of root h s p k t] show ?thesis
      by (cases "erase_color_step (root, h) (rootp t) p") auto
  next
    case 4
    with f s erase_flip_black_R [OF 4(2,1), of root h s p k t] show ?thesis
      by (cases "erase_color_step (root, h) (rootp t) p") (auto split: prod.splits)
  qed
qed

lemma erase_bal_step:
  assumes "focus (root, h) (f # k) t" "\<not> is_red (fsib f)" "fsib f \<noteq> Leaf"
  shows "case ers_bal f t of
      Inl u \<Rightarrow> \<exists>s'. erase_color_step (root, h) (rootp t) (fptr f) = Inl s' \<and> focus s' k u
    | Inr u \<Rightarrow> \<exists>s'. erase_color_step (root, h) (rootp t) (fptr f) =
        (if k = [] then Inl s' else Inr (s', rootp u, topp k)) \<and> focus s' k u"
proof (cases f)
  case (InL pc p sib)
  with erase_bal_L [of root h pc p sib k t] assms show ?thesis unfolding InL fptr.simps by simp
next
  case (InR sib pc p)
  with erase_bal_R [of root h sib pc p k t] assms show ?thesis unfolding InR fptr.simps by simp
qed

lemma ers_bal_red: "fcol f = RED \<Longrightarrow> \<exists>u. ers_bal f t = Inl u"
  by (cases f; cases "fsib f") (auto split: ptree.split)

lemma topp_fptr: "topp (f # k) = fptr f"
  by (cases f) auto

lemma erase_loop_focus:
  assumes "focus s k t" "k \<noteq> []" "rbh t = Some n" "path_ok k (Suc n)"
  shows "\<exists>s'. erase_color_loop s (rootp t) (topp k) = Some s' \<and> focus s' [] (ers_fix k t)"
  using assms
proof (induction k t arbitrary: s n rule: ers_fix.induct)
  case (2 f k t)
  obtain root h where s: "s = (root, h)" by fastforce
  note f = 2(2) [unfolded s]
  have sib: "rbh (fsib f) = Some (Suc n)" "fsib f \<noteq> Leaf" using 2(5) by auto
  show ?case
  proof (cases "is_red (fsib f)")
    case True
    then obtain sl b sr where b: "fsib f = Node sl RED b sr" by (elim red_cases)
    with sib have kids: "\<not> is_red sl" "sl \<noteq> Leaf" "\<not> is_red sr" "sr \<noteq> Leaf" by auto
    then obtain sll a slr srl a' srr where
      kids': "sl = Node sll BLACK a slr" "sr = Node srl BLACK a' srr" by (auto elim!: black_cases)
    obtain f1 g1 where c1: "ers_case1 f = [f1, g1]" "fcol f1 = RED" "fptr f1 = fptr f"
      "\<not> is_red (fsib f1)" "fsib f1 \<noteq> Leaf" using b kids' by (cases f) auto
    have "\<exists>s1. erase_color_step (root, h) (rootp t) (fptr f) = erase_color_step s1 (rootp t) (fptr f) \<and>
        focus s1 (f1 # g1 # k) t"
      using f b kids' c1(1) erase_red_L erase_red_R by (cases f) auto
    then obtain r1 h1 where s1: "erase_color_step s (rootp t) (fptr f) = erase_color_step (r1, h1) (rootp t) (fptr f)"
      "focus (r1, h1) (f1 # g1 # k) t" using s by auto
    from ers_bal_red [OF c1(2)] obtain u where u: "ers_bal f1 t = Inl u" by auto
    with erase_bal_step [OF s1(2) c1(4,5)] obtain s2 where
      s2: "erase_color_step (r1, h1) (rootp t) (fptr f) = Inl s2" "focus s2 (g1 # k) u"
      using c1(3) by auto
    with focus_plug [OF s2(2)] s1(1) u c1(1) True show ?thesis
      unfolding topp_fptr by (subst erase_color_loop.simps) simp
  next
    case False
    note st = erase_bal_step [OF f False sib(2), folded s]
    show ?thesis
    proof (cases "ers_bal f t")
      case (Inl u)
      with st obtain s1 where s1: "erase_color_step s (rootp t) (fptr f) = Inl s1" "focus s1 k u" by auto
      with focus_plug [OF s1(2)] Inl False show ?thesis
        unfolding topp_fptr by (subst erase_color_loop.simps) simp
    next
      case (Inr u)
      with st obtain s1 where s1: "erase_color_step s (rootp t) (fptr f) =
          (if k = [] then Inl s1 else Inr (s1, rootp u, topp k))" "focus s1 k u" by auto
      have fb: "fcol f = BLACK" using ers_bal_red [of f t] Inr by (cases "fcol f") auto
      then have pk: "path_ok k (Suc (Suc n))" using 2(5) by simp
      have u: "rbh u = Some (Suc n)"
        using Inr 2(4) sib(1) False fb
        by (cases f; cases "fsib f") (auto split: if_splits ptree.splits)
      show ?thesis
      proof (cases "k = []")
        case True
        with s1 Inr False show ?thesis unfolding topp_fptr by (subst erase_color_loop.simps) simp
      next
        case k: False
        with 2(1) [OF False Inr s1(2) k u pk] s1(1) Inr False show ?thesis
          unfolding topp_fptr by (subst erase_color_loop.simps) simp
      qed
    qed
  qed
qed simp

lemma ers_bal_ok:
  assumes "rbh t = Some n" "\<not> is_red (fsib f)" "rbh (fsib f) = Some (Suc n)" "fcol f = RED \<longrightarrow> \<not> is_red t"
  shows "case ers_bal f t of
      Inl u \<Rightarrow> rbh u = Some (if fcol f = BLACK then Suc (Suc n) else Suc n) \<and> (fcol f = BLACK \<longrightarrow> \<not> is_red u)
    | Inr u \<Rightarrow> rbh u = Some (Suc n) \<and> \<not> is_red u \<and> fcol f = BLACK"
proof (cases f)
  case (InL pc p sib)
  with assms obtain sl s sr where "sib = Node sl BLACK s sr" by (auto elim: black_cases)
  with InL assms show ?thesis
    by (cases pc) (auto split: ptree.splits simp: rbh_paint_red rbh_paint_BLACK elim!: red_cases)
next
  case (InR sib pc p)
  with assms obtain sl s sr where "sib = Node sl BLACK s sr" by (auto elim: black_cases)
  with InR assms show ?thesis
    by (cases pc) (auto split: ptree.splits simp: rbh_paint_red rbh_paint_BLACK elim!: red_cases)
qed

lemma ers_fix_ok:
  "rbh t = Some n \<Longrightarrow> \<not> is_red t \<Longrightarrow> path_ok k (Suc n) \<Longrightarrow> rbt_ok (ers_fix k t)"
proof (induction k t arbitrary: n rule: ers_fix.induct)
  case (1 t)
  then show ?case by (simp add: rbt_ok_def)
next
  case (2 f k t)
  have sib: "rbh (fsib f) = Some (Suc n)" using 2(4) by simp
  show ?case
  proof (cases "is_red (fsib f)")
    case True
    then obtain sl b sr where b: "fsib f = Node sl RED b sr" by (elim red_cases)
    with sib have kids: "rbh sl = Some (Suc n)" "rbh sr = Some (Suc n)" "\<not> is_red sl" "\<not> is_red sr" by auto
    have fb: "fcol f = BLACK" "path_ok k (Suc (Suc n))" using 2(4) True by (auto split: if_splits)
    obtain f1 g1 where c1: "ers_case1 f = [f1, g1]" "fcol f1 = RED" "fcol g1 = BLACK"
      "rbh (fsib f1) = Some (Suc n)" "\<not> is_red (fsib f1)" "rbh (fsib g1) = Some (Suc n)"
      using b kids fb(1) by (cases f) (auto simp: rbh_paint_BLACK)
    from ers_bal_red [OF c1(2)] obtain u where u: "ers_bal f1 t = Inl u" by auto
    with ers_bal_ok [OF 2(2) c1(5,4)] 2(3) c1(2) have "rbh u = Some (Suc n)" by simp
    moreover have "path_ok (g1 # k) (Suc n)" using c1 fb by simp
    ultimately have "rbt_ok (plug (g1 # k) u)" using plug_ok [of u "Suc n" "g1 # k"] c1(3) by simp
    with True u c1(1) show ?thesis by simp
  next
    case False
    note b = ers_bal_ok [OF 2(2) False sib] 2(3)
    show ?thesis
    proof (cases "ers_bal f t")
      case (Inl u)
      with b 2(3) have u: "rbh u = Some (if fcol f = BLACK then Suc (Suc n) else Suc n)"
        "fcol f = BLACK \<longrightarrow> \<not> is_red u" by auto
      moreover have "path_ok k (if fcol f = BLACK then Suc (Suc n) else Suc n)" using 2(4) by simp
      ultimately have "rbt_ok (plug k u)"
        using plug_ok [OF u(1), of k] 2(4) by (cases "fcol f") auto
      with Inl False show ?thesis by simp
    next
      case (Inr u)
      with b 2(3) have u: "rbh u = Some (Suc n)" "\<not> is_red u" "fcol f = BLACK" by auto
      with 2(1) [OF False Inr] 2(4) have "rbt_ok (ers_fix k u)" by simp
      with Inr False show ?thesis by simp
    qed
  qed
qed

lemma inorder_ers_bal:
  "\<not> is_red (fsib f) \<Longrightarrow> fsib f \<noteq> Leaf \<Longrightarrow>
   inorder (case ers_bal f t of Inl u \<Rightarrow> u | Inr u \<Rightarrow> u) = inorder (plug [f] t)"
  by (cases f; cases "fsib f") (auto split: ptree.split)

lemma inorder_ers_fix:
  "path_ok k (Suc n) \<Longrightarrow> rbh t = Some n \<Longrightarrow> \<not> is_red t \<Longrightarrow> inorder (ers_fix k t) = lefts k @ inorder t @ rights k"
proof (induction k t arbitrary: n rule: ers_fix.induct)
  case (2 f k t)
  have sib: "rbh (fsib f) = Some (Suc n)" "fsib f \<noteq> Leaf" using 2(2) by auto
  have app: "lefts (g # k) = lefts k @ lefts [g]" "rights (g # k) = rights [g] @ rights k" for g
    by (cases g; simp)+
  show ?case
  proof (cases "is_red (fsib f)")
    case True
    then obtain sl b sr where b: "fsib f = Node sl RED b sr" by (elim red_cases)
    with sib have kids: "rbh sl = Some (Suc n)" "rbh sr = Some (Suc n)" "\<not> is_red sl" "\<not> is_red sr" by auto
    then have nl: "sl \<noteq> Leaf" "sr \<noteq> Leaf" by auto
    obtain f1 g1 where c1: "ers_case1 f = [f1, g1]" "fcol f1 = RED" "\<not> is_red (fsib f1)" "fsib f1 \<noteq> Leaf"
      "lefts [f1, g1] = lefts [f]" "rights [f1, g1] = rights [f]"
      using b kids nl by (cases f) (auto simp: rbh_paint_BLACK)
    from ers_bal_red [OF c1(2)] obtain u where u: "ers_bal f1 t = Inl u" by auto
    with inorder_ers_bal [OF c1(3,4), of t] have "inorder u = lefts [f1] @ inorder t @ rights [f1]" by simp
    moreover have "lefts [f1, g1] = lefts [g1] @ lefts [f1]" "rights [f1, g1] = rights [f1] @ rights [g1]"
      by (cases f1; cases g1; simp)+
    ultimately show ?thesis
      using True u c1 app [of f] app [of g1] by (simp del: lefts.simps rights.simps)
  next
    case False
    show ?thesis
    proof (cases "ers_bal f t")
      case (Inl u)
      with inorder_ers_bal [OF False sib(2), of t] app [of f] False show ?thesis
        by (simp del: lefts.simps rights.simps)
    next
      case (Inr u)
      with ers_bal_ok [OF 2(3) False sib(1)] 2(4) have u: "rbh u = Some (Suc n)" "\<not> is_red u" "fcol f = BLACK"
        by auto
      have "path_ok k (Suc (Suc n))" using 2(2) u(3) by simp
      with 2(1) [OF False Inr this u(1,2)] inorder_ers_bal [OF False sib(2), of t] Inr False app [of f]
      show ?thesis by (simp del: lefts.simps rights.simps)
    qed
  qed
qed simp

subsection \<open>Unlinking a node\<close>

text \<open>The way down to the leftmost node of a tree: the path, and the node's colour, address and right child.\<close>

fun down :: "ptree \<Rightarrow> frame list \<times> HevRBTreeColor \<times> ptr \<times> ptree" where
  "down Leaf = ([], RED, NULL, Leaf)"
| "down (Node l c a r) =
     (if l = Leaf then ([], c, a, r)
      else case down l of (kk, sc, s, ch) \<Rightarrow> (kk @ [InL c a r], sc, s, ch))"

text \<open>A stretch of a path: its lowest node points to \<open>q\<close>, its highest node has the parent \<open>par\<close>.\<close>

fun seg_at :: "rbheap \<Rightarrow> frame list \<Rightarrow> ptr \<Rightarrow> ptr \<Rightarrow> bool" where
  "seg_at h [] q par = True"
| "seg_at h (InL c p r # k) q par =
     (p \<noteq> NULL \<and> al p \<and>
      h p = \<lparr>rb_pc = pcw (if k = [] then par else topp k) c, rb_right = rootp r, rb_left = q\<rparr> \<and>
      tree_at h p r \<and> seg_at h k p par)"
| "seg_at h (InR l c p # k) q par =
     (p \<noteq> NULL \<and> al p \<and>
      h p = \<lparr>rb_pc = pcw (if k = [] then par else topp k) c, rb_right = q, rb_left = rootp l\<rparr> \<and>
      tree_at h p l \<and> seg_at h k p par)"

lemma plug_append [simp]: "plug (kk @ k) t = plug k (plug kk t)"
  by (induction kk t rule: plug.induct) auto

lemma lefts_append [simp]: "lefts (kk @ k) = lefts k @ lefts kk"
  by (induction kk rule: lefts.induct) auto

lemma rights_append [simp]: "rights (kk @ k) = rights kk @ rights k"
  by (induction kk rule: rights.induct) auto

lemma tree_at_plug:
  "tree_at h par (plug kk t) \<longleftrightarrow>
     seg_at h kk (rootp t) par \<and> tree_at h (if kk = [] then par else topp kk) t"
  by (induction kk t rule: plug.induct) (auto split: if_splits)

lemma rootp_plug: "rootp (plug kk t) = (if kk = [] then rootp t else fptr (last kk))"
  by (induction kk t rule: plug.induct) auto

lemma seg_at_cong:
  "(\<And>a. a \<in> path_ptrs kk \<Longrightarrow> h' a = h a) \<Longrightarrow> seg_at h' kk q par = seg_at h kk q par"
proof (induction kk arbitrary: q)
  case (Cons f k)
  then show ?case by (cases f) (auto simp: tree_at_cong [of _ h' h])
qed simp

lemma seg_at_upd [simp]: "a \<notin> path_ptrs kk \<Longrightarrow> seg_at (h(a := v)) kk q par = seg_at h kk q par"
  by (rule seg_at_cong) auto

text \<open>Redirecting the lowest node, and giving the highest node another parent.\<close>

lemma seg_at_hole:
  assumes "seg_at h (InL c p r # kk) q par" "p \<notin> set (inorder r)" "p \<notin> path_ptrs kk"
  shows "seg_at (set_left h p q') (InL c p r # kk) q' par"
  using assms by (simp add: set_left_def)

lemma fptr_last_in: "kk \<noteq> [] \<Longrightarrow> fptr (last kk) \<in> path_ptrs kk"
proof (induction kk)
  case (Cons f kk)
  then show ?case by (cases f; cases "kk = []") auto
qed simp

lemma seg_at_parent:
  assumes "seg_at h kk q par" "kk \<noteq> []" "distinct (lefts kk @ rights kk)" "al par" "al par'"
    "h' = hev_rbtree_node_set_parent h (fptr (last kk)) par'"
  shows "seg_at h' kk q par'"
  using assms
proof (induction kk arbitrary: q)
  case (Cons f kk)
  show ?case
  proof (cases "kk = []")
    case True
    let ?h = "h(fptr f := (h (fptr f))\<lparr>rb_pc := pcw par' (fcol f)\<rparr>)"
    have "hev_rbtree_node_set_parent h (fptr f) par' = ?h"
      using Cons.prems True by (cases f) (simp_all add: rb_ops)
    then have "h' = ?h" using Cons.prems(6) by (simp only: True last.simps simp_thms if_True)
    moreover have "fptr f \<notin> set (inorder (fsib f))" using Cons.prems(3) True by (cases f) simp_all
    then have "seg_at ?h [f] q par'" using Cons.prems(1) True by (cases f) simp_all
    ultimately show ?thesis by (simp only: True)
  next
    case False
    have d: "distinct (lefts kk @ rights kk)" "fptr f \<notin> path_ptrs kk"
      "set (inorder (fsib f)) \<inter> path_ptrs kk = {}"
      using Cons.prems(3) by (cases f; auto simp: path_ptrs_def)+
    have "fptr (last kk) \<in> path_ptrs kk" using False by (rule fptr_last_in)
    with d have ne: "fptr f \<noteq> fptr (last kk)" "fptr (last kk) \<notin> set (inorder (fsib f))" by auto
    have "seg_at h kk (fptr f) par" using Cons.prems(1) by (cases f) auto
    note IH = Cons.IH [OF this False d(1) Cons.prems(4,5)]
    have same: "h' a = h a" if "a \<noteq> fptr (last kk)" for a
      using Cons.prems(6) False that by (simp add: hev_rbtree_node_set_parent_def)
    have "tree_at h' (fptr f) (fsib f) = tree_at h (fptr f) (fsib f)"
      using ne(2) by (intro tree_at_cong same) auto
    moreover have "seg_at h' kk (fptr f) par'" using IH Cons.prems(6) False by simp
    moreover note same [OF ne(1)]
    ultimately show ?thesis using Cons.prems(1) False by (cases f) simp_all
  qed
qed simp

lemma down_plug:
  "t \<noteq> Leaf \<Longrightarrow> down t = (kk, sc, s, ch) \<Longrightarrow> t = plug kk (Node Leaf sc s ch)"
proof (induction t arbitrary: kk)
  case (Node l c a r)
  then show ?case by (auto split: if_splits prod.splits)
qed simp

lemma down_frames: "down t = (kk, sc, s, ch) \<Longrightarrow> lefts kk = [] \<and> (kk \<noteq> [] \<longrightarrow> (\<exists>c p r k. kk = InL c p r # k))"
proof (induction t arbitrary: kk)
  case (Node l c a r)
  show ?case
  proof (cases "l = Leaf")
    case False
    obtain kl where "down l = (kl, sc, s, ch)" "kk = kl @ [InL c a r]"
      using Node.prems False by (auto split: prod.splits)
    with Node.IH(1) [of kl] show ?thesis by (cases kl) auto
  qed (use Node.prems in auto)
qed simp

lemma find_successor_down:
  "t \<noteq> Leaf \<Longrightarrow> tree_at h p t \<Longrightarrow> down t = (kk, sc, s, ch) \<Longrightarrow>
   find_successor h q (rootp t) = Some (if kk = [] then q else topp kk, s)"
proof (induction t arbitrary: p q kk)
  case (Node l c a r)
  show ?case
  proof (cases "l = Leaf")
    case True
    with Node.prems show ?thesis by (subst find_successor.simps) (auto simp: Let_def)
  next
    case False
    obtain kl where kl: "down l = (kl, sc, s, ch)" "kk = kl @ [InL c a r]"
      using Node.prems False by (auto split: prod.splits)
    have "tree_at h a l" "rb_left (h a) = rootp l" "rootp l \<noteq> NULL"
      using Node.prems(2) False by (auto, cases l, auto)
    with Node.IH(1) [OF False _ kl(1)] kl(2) show ?thesis
      by (subst find_successor.simps) (cases kl, auto simp: Let_def topp_fptr)
  qed
qed simp

end
