(* ===== verification/Hev_RBTree_Erase.thy ===== *)
theory Hev_RBTree_Erase
  imports Hev_RBTree
begin

text \<open>
  Removal from the red-black tree as a whole: unlinking a node (\<^verbatim>\<open>_hev_rbtree_erase\<close>) followed
  by the rebalancing of \<open>Hev_RBTree\<close>, the traversals, and the operations a client of the tree
  performs, stated on the in-order sequence of the nodes.
\<close>

lemma change_child_upd:
  assumes "x \<noteq> parent" "hev_rbtree_change_child (root, h) old new' parent = (r', h')"
  shows "hev_rbtree_change_child (root, h(x := v)) old new' parent = (r', h'(x := v))" "h' x = h x"
  using assms by (auto simp: hev_rbtree_change_child_def set_left_def set_right_def fun_upd_twist
      split: if_splits)

lemma focus_unplug: "focus s k (plug kk t) \<Longrightarrow> focus s (kk @ k) t"
proof (induction kk arbitrary: t)
  case (Cons f kk)
  then have "focus s (kk @ k) (plug [f] t)" by (cases f) auto
  then show ?case by (cases f) (auto simp: focus_def)
qed simp

lemma tree_at_nonnull: "tree_at h p t \<Longrightarrow> NULL \<notin> set (inorder t)"
  by (induction t arbitrary: p) auto

lemma topp_notin: "focus s k t \<Longrightarrow> x \<in> set (inorder t) \<Longrightarrow> topp k \<noteq> x"
  using tree_at_nonnull [of "snd s" "topp k" t] by (cases k rule: topp.cases) (auto simp: focus_def intro!: gr0I)

lemma focus_root_in: "focus (root, h) k (Node l c a r) \<Longrightarrow> a \<notin> path_ptrs k \<and> a \<noteq> 0 \<and> al (topp k)"
  by (auto simp: focus_def path_ptrs_def)

lemma unlink_leaf:
  assumes "focus (root, h) k (Node Leaf c a Leaf)"
  shows "\<exists>s'. rbtree_erase_node (root, h) a = Some (s', if c = BLACK then topp k else NULL) \<and> focus s' k Leaf"
proof -
  note F = focusD [OF assms, simplified] and A = focus_root_in [OF assms]
  have "focus (hev_rbtree_change_child (root, h) a (rootp Leaf) (topp k)) k Leaf"
    using F A by (intro change_child_focus) auto
  moreover obtain r' h' where "hev_rbtree_change_child (root, h) a NULL (topp k) = (r', h')" by fastforce
  ultimately show ?thesis using F A by (auto simp: rbtree_erase_node_def Let_def)
qed

lemma unlink_left_leaf:
  assumes f: "focus (root, h) k (Node Leaf c a (Node rl rc b rr))"
  shows "\<exists>s'. rbtree_erase_node (root, h) a = Some (s', NULL) \<and> focus s' k (Node rl c b rr)"
proof -
  note F = focusD [OF f, simplified] and A = focus_root_in [OF f]
  let ?h = "h(b := (h b)\<lparr>rb_pc := pcw (topp k) c\<rparr>)"
  obtain r' h' where ch: "hev_rbtree_change_child (root, h) a b (topp k) = (r', h')" by fastforce
  have tb: "b \<noteq> topp k" using topp_notin [OF f, of b] by auto
  note u = change_child_upd [OF tb ch]
  have "focus (hev_rbtree_change_child (root, ?h) a (rootp (Node rl c b rr)) (topp k)) k (Node rl c b rr)"
    using F A by (intro change_child_focus) (auto simp: path_ptrs_def)
  with u(1) u(2) have "focus (r', h'(b := (h' b)\<lparr>rb_pc := pcw (topp k) c\<rparr>)) k (Node rl c b rr)" by simp
  with F A ch show ?thesis by (auto simp: rbtree_erase_node_def Let_def)
qed

lemma unlink_right_leaf:
  assumes f: "focus (root, h) k (Node (Node ll lc b lr) c a Leaf)"
  shows "\<exists>s'. rbtree_erase_node (root, h) a = Some (s', NULL) \<and> focus s' k (Node ll c b lr)"
proof -
  note F = focusD [OF f, simplified] and A = focus_root_in [OF f]
  let ?h = "h(b := (h b)\<lparr>rb_pc := pcw (topp k) c\<rparr>)"
  have "focus (hev_rbtree_change_child (root, ?h) a (rootp (Node ll c b lr)) (topp k)) k (Node ll c b lr)"
    using F A by (intro change_child_focus) (auto simp: path_ptrs_def)
  with F A show ?thesis by (auto simp: rbtree_erase_node_def Let_def)
qed

text \<open>The state in which the successor \<open>s\<close> has been cut out of the right subtree.\<close>

definition lift_successor ::
  "rbheap \<Rightarrow> ptr \<Rightarrow> (rbheap \<times> ptr \<times> ptr \<times> ptr) option" where
  "lift_successor h child =
     (if rb_left (h child) = NULL then Some (h, child, child, rb_right (h child))
      else case find_successor h child (rb_left (h child)) of
             None \<Rightarrow> None
           | Some (parent, successor) \<Rightarrow>
               (let child2 = rb_right (h successor);
                    h = set_left h parent child2;
                    h = set_right h successor child;
                    h = hev_rbtree_node_set_parent h child successor
                in Some (h, parent, successor, child2)))"

lemma lift_successor_spec:
  assumes t: "tree_at h a r" and r: "r \<noteq> Leaf" and d: "distinct (inorder r)" and a: "al a"
    and dn: "down r = (kk, sc, s, ch)"
  shows "\<exists>h'. lift_successor h (rootp r) = Some (h', if kk = [] then s else topp kk, s, rootp ch) \<and>
    (\<forall>x. x \<notin> set (inorder r) \<longrightarrow> h' x = h x) \<and> seg_at h' kk (rootp ch) s \<and>
    tree_at h' s ch \<and> s \<noteq> NULL \<and> al s \<and> rb_right (h' s) = rootp (plug kk ch) \<and>
    rb_pc (h' s) = pcw (if kk = [] then a else topp kk) sc"
proof (cases "kk = []")
  case True
  with down_plug [OF r dn] have "r = Node Leaf sc s ch" by simp
  with True t show ?thesis by (auto simp: lift_successor_def)
next
  case False
  note pl = down_plug [OF r dn]
  from down_frames [OF dn] False obtain c p pr k where kk: "kk = InL c p pr # k" "lefts kk = []" by auto
  have tt: "seg_at h kk s a" "tree_at h p (Node Leaf sc s ch)"
    using t pl kk by (auto simp: tree_at_plug)
  have ino: "inorder r = s # inorder ch @ rights kk" using pl kk(2) by simp
  have pp: "path_ptrs kk = set (rights kk)" using kk(2) by (simp add: path_ptrs_def)
  have child: "rootp r = fptr (last kk)" using pl False by (simp add: rootp_plug)
  have chin: "rootp r \<in> set (rights kk)" using fptr_last_in [OF False] pp child by simp
  have fs: "rb_left (h (rootp r)) \<noteq> NULL \<and> find_successor h (rootp r) (rb_left (h (rootp r))) = Some (p, s)"
  proof -
    from r obtain rl rc b rr where rr: "r = Node rl rc b rr" by (cases r) auto
    with dn False have "rl \<noteq> Leaf" by (auto split: if_splits)
    with dn rr obtain kl where kl: "down rl = (kl, sc, s, ch)" "kk = kl @ [InL rc b rr]"
      by (auto split: prod.splits)
    have "tree_at h b rl" "rb_left (h b) = rootp rl" using t rr by auto
    with find_successor_down [OF \<open>rl \<noteq> Leaf\<close> _ kl(1)] kl(2) kk(1) \<open>rl \<noteq> Leaf\<close> show ?thesis
      by (cases kl; cases rl) (auto simp: rr)
  qed
  let ?h1 = "set_left h p (rootp ch)"
  let ?h2 = "set_right ?h1 s (rootp r)"
  let ?h3 = "hev_rbtree_node_set_parent ?h2 (rootp r) s"
  have sne: "s \<noteq> p" "s \<noteq> rootp r" "s \<notin> set (rights kk)" "p \<in> set (rights kk)" "rootp r \<notin> set (inorder ch)"
    "p \<notin> set (inorder ch)" "p \<notin> set (inorder pr)" "p \<notin> path_ptrs k" "s \<notin> set (inorder ch)"
    "distinct (lefts kk @ rights kk)"
    using d ino kk chin by (auto simp: path_ptrs_def)
  have "seg_at ?h1 kk (rootp ch) a" using seg_at_hole [of h c p pr k s a "rootp ch"] tt(1) kk(1) sne by simp
  then have "seg_at ?h2 kk (rootp ch) a" using sne(3) pp by (simp add: set_right_def)
  then have sg: "seg_at ?h3 kk (rootp ch) s"
    by (rule seg_at_parent [OF _ False]) (use sne tt(2) a child in auto)
  have chh: "tree_at ?h3 s ch"
    using tt(2) sne(1,3,5,6,9) by (simp add: set_left_def set_right_def hev_rbtree_node_set_parent_def)
  have out: "x \<notin> set (inorder r) \<longrightarrow> ?h3 x = h x" for x
    using ino chin sne by (auto simp: set_left_def set_right_def hev_rbtree_node_set_parent_def)
  have hs: "rb_right (?h3 s) = rootp (plug kk ch)" "rb_pc (?h3 s) = pcw p sc"
    using sne(1,2) tt(2) False child
    by (simp_all add: set_left_def set_right_def hev_rbtree_node_set_parent_def rootp_plug)
  show ?thesis
    using fs tt(2) False kk(1) sg chh out hs
    by (intro exI [of _ ?h3]) (simp add: lift_successor_def Let_def)
qed

lemma erase_node_two:
  assumes "rb_left (h a) \<noteq> NULL" "rb_right (h a) \<noteq> NULL"
    "lift_successor h (rb_right (h a)) = Some (h3, par, s, ch)"
    "hev_rbtree_change_child (root, hev_rbtree_node_set_parent (set_left h3 s (rb_left (h3 a))) (rb_left (h3 a)) s)
       a s (pc_parent (rb_pc (hev_rbtree_node_set_parent (set_left h3 s (rb_left (h3 a))) (rb_left (h3 a)) s a)))
     = (root', h6)"
  shows "rbtree_erase_node (root, h) a =
    (let pc = rb_pc (hev_rbtree_node_set_parent (set_left h3 s (rb_left (h3 a))) (rb_left (h3 a)) s a);
         h7 = (if ch \<noteq> NULL then hev_rbtree_node_set_parent_color h6 ch par BLACK else h6)
     in Some ((root', h7(s := (h7 s)\<lparr>rb_pc := pc\<rparr>)),
              if ch \<noteq> NULL then NULL else if hev_rbtree_node_is_black h6 s then par else NULL))"
  using assms by (simp add: rbtree_erase_node_def lift_successor_def Let_def)

text \<open>The last two writes of the removal: the parent of the child that moved up, and the parent and colour
  of the successor. They commute with the change of the child pointer above.\<close>

definition child_parent :: "ptree \<Rightarrow> ptr \<Rightarrow> rbheap \<Rightarrow> rbheap" where
  "child_parent ch par g = (if ch = Leaf then g else g(rootp ch := (g (rootp ch))\<lparr>rb_pc := pcw par BLACK\<rparr>))"

lemma change_child_parent:
  assumes c: "hev_rbtree_change_child (root, g) a s p = (root', g')"
    and n: "s \<noteq> p" "ch \<noteq> Leaf \<Longrightarrow> rootp ch \<noteq> p" "rootp ch \<noteq> s"
  shows "(root', (child_parent ch par g')(s := (child_parent ch par g' s)\<lparr>rb_pc := v\<rparr>)) =
    hev_rbtree_change_child (root, (child_parent ch par g)(s := (child_parent ch par g s)\<lparr>rb_pc := v\<rparr>)) a s p"
proof -
  have x: "g' x = g x" if "x \<noteq> p" for x using change_child_upd(2) [OF that c] .
  show ?thesis
  proof (cases "ch = Leaf")
    case True
    then show ?thesis using change_child_upd(1) [OF n(1) c] x [OF n(1)] by (simp add: child_parent_def)
  next
    case False
    note c1 = change_child_upd(1) [OF n(2) [OF False] c, of "(g (rootp ch))\<lparr>rb_pc := pcw par BLACK\<rparr>"]
    show ?thesis
      using change_child_upd(1) [OF n(1) c1] x [OF n(1)] x [OF n(2) [OF False]] False n(3)
      by (simp add: child_parent_def)
  qed
qed

text \<open>The tree the writes build: the successor \<open>s\<close> in the place of the removed node, between its left
  subtree \<open>l\<close> and the rest of its right subtree.\<close>

lemma relinked_tree:
  assumes g: "g = h3(s := (h3 s)\<lparr>rb_left := b\<rparr>, b := \<lparr>rb_pc = pcw s lc, rb_right = rootp lr, rb_left = rootp ll\<rparr>)"
    and H: "H = (child_parent ch par g)(s := (child_parent ch par g s)\<lparr>rb_pc := pcw p c\<rparr>)"
    and l: "l = Node ll lc b lr" and par: "par = (if kk = [] then s else topp kk)"
    and t: "tree_at h3 a l" "seg_at h3 kk (rootp ch) s" "tree_at h3 s ch" "s \<noteq> NULL" "al s" "rb_right (h3 s) = rootp (plug kk ch)"
    and d: "distinct (inorder l)" "distinct (inorder ch)" "s \<notin> set (inorder l)" "s \<notin> set (inorder ch)" "s \<notin> path_ptrs kk"
      "b \<notin> path_ptrs kk" "set (inorder ch) \<inter> set (inorder l) = {}" "set (inorder ch) \<inter> path_ptrs kk = {}"
  shows "tree_at H p (Node l c s (plug kk (paint BLACK ch)))"
proof -
  have b: "b \<noteq> s" "b \<notin> set (inorder ch)" using d(3,7) l by auto
  have chs: "rootp ch \<noteq> s" using d(4) t(4) by simp
  have same: "H x = h3 x" if "x \<noteq> s" "x \<noteq> b" "x \<notin> set (inorder ch)" for x
    using that rootp_in [of ch] by (auto simp: H child_parent_def g)
  have Hs: "H s = \<lparr>rb_pc = pcw p c, rb_right = rootp (plug kk ch), rb_left = b\<rparr>"
    using chs b(1) t(6) by (cases "h3 s") (simp add: H child_parent_def g)
  have "H b = \<lparr>rb_pc = pcw s lc, rb_right = rootp lr, rb_left = rootp ll\<rparr>"
    using b rootp_in [of ch] by (auto simp: H child_parent_def g)
  moreover have "H x = h3 x" if "x \<in> set (inorder ll) \<union> set (inorder lr)" for x
    using that same [of x] d(1,3,7) l by auto
  ultimately have "tree_at H s l"
    using t(1) tree_at_cong [of ll H h3 b] tree_at_cong [of lr H h3 b] by (simp add: l)
  moreover have "H x = h3 x" if "x \<in> path_ptrs kk" for x using that same [of x] d(5,6,8) by auto
  then have "seg_at H kk (rootp ch) s" using t(2) seg_at_cong [of kk H h3 "rootp ch" s] by simp
  moreover have "tree_at H par (paint BLACK ch)"
  proof (cases ch)
    case (Node cl cc x cr)
    have "H x = \<lparr>rb_pc = pcw par BLACK, rb_right = rootp cr, rb_left = rootp cl\<rparr>"
      using t(3) Node chs b(2) by (auto simp: H child_parent_def g)
    moreover have "H y = h3 y" if "y \<in> set (inorder cl) \<union> set (inorder cr)" for y
      using that d(2,4) Node b(2) by (auto simp: H child_parent_def g)
    ultimately show ?thesis
      using t(3) Node tree_at_cong [of cl H h3 x] tree_at_cong [of cr H h3 x] by simp
  qed simp
  ultimately show ?thesis using Hs t(4,5) by (simp add: tree_at_plug par l rootp_plug)
qed

text \<open>What lifting the successor leaves of the rest of the tree.\<close>

lemma lift_frame:
  assumes f: "focus (root, h) k (Node l c a r)" and e: "\<And>x. x \<notin> set (inorder r) \<Longrightarrow> h3 x = h x"
  shows "h3 a = h a" "tree_at h3 a l" "ctx_at h3 root k a"
proof -
  note F = focusD [OF f, simplified]
  show "h3 a = h a" using e F by auto
  have "h3 x = h x" if "x \<in> set (inorder l)" for x using that e F by auto
  then show "tree_at h3 a l" using F tree_at_cong [of l h3 h a] by simp
  have "path_ptrs k \<inter> set (inorder r) = {}" using F by (auto simp: path_ptrs_def)
  then have "h3 x = h x" if "x \<in> path_ptrs k" for x using that e by auto
  then show "ctx_at h3 root k a" using F ctx_at_cong [of k h3 h root a] by simp
qed

lemma unlink_two:
  assumes f: "focus (root, h) k (Node l c a r)" and l: "l = Node ll lc b lr" and r: "r \<noteq> Leaf"
    and dn: "down r = (kk, sc, s, ch)"
  shows "\<exists>s'. rbtree_erase_node (root, h) a =
      Some (s', if ch \<noteq> Leaf then NULL else if sc = BLACK then topp (kk @ [InR l c s]) else NULL) \<and>
    focus s' (kk @ InR l c s # k) (paint BLACK ch)"
proof -
  note F = focusD [OF f, simplified] and A = focus_root_in [OF f] and pl = down_plug [OF r dn]
  have lk: "lefts kk = []" using down_frames [OF dn] by simp
  have tr: "tree_at h a r" and ha: "h a = \<lparr>rb_pc = pcw (topp k) c, rb_right = rootp r, rb_left = b\<rparr>"
    and dr: "distinct (inorder r)" and ala: "al a" and tl: "tree_at h a l"
    using F l by auto
  have ino: "inorder r = s # inorder ch @ rights kk" using pl lk by simp
  from lift_successor_spec [OF tr r dr ala dn] obtain h3 where
    h3: "lift_successor h (rootp r) = Some (h3, if kk = [] then s else topp kk, s, rootp ch)"
      "\<And>x. x \<notin> set (inorder r) \<Longrightarrow> h3 x = h x" "seg_at h3 kk (rootp ch) s" "tree_at h3 s ch"
      "s \<noteq> NULL" "al s" "rb_right (h3 s) = rootp (plug kk ch)"
      "rb_pc (h3 s) = pcw (if kk = [] then a else topp kk) sc" by blast
  note h3a = lift_frame [OF f h3(2)]
  define par where "par = (if kk = [] then s else topp kk)"
  have D: "s \<notin> set (inorder l)" "s \<noteq> a" "b \<noteq> a" "b \<noteq> s" "b \<notin> set (inorder r)" "b \<notin> path_ptrs k" "s \<notin> path_ptrs k"
    "b \<notin> path_ptrs kk" "s \<notin> path_ptrs kk" "s \<notin> set (inorder ch)" "set (inorder ch) \<inter> set (inorder l) = {}"
    "set (inorder ch) \<inter> path_ptrs kk = {}" "set (inorder ch) \<inter> path_ptrs k = {}"
    using F ino l lk by (auto simp: path_ptrs_def)
  define h5 where "h5 = hev_rbtree_node_set_parent (set_left h3 s b) b s"
  have hb: "h b = \<lparr>rb_pc = pcw a lc, rb_right = rootp lr, rb_left = rootp ll\<rparr>" using tl l by simp
  have h5: "h5 = h3(s := (h3 s)\<lparr>rb_left := b\<rparr>, b := \<lparr>rb_pc = pcw s lc, rb_right = rootp lr, rb_left = rootp ll\<rparr>)"
    using D(4) h3(2) [OF D(5)] hb h3(6) ala
    by (simp add: h5_def set_left_def hev_rbtree_node_set_parent_def hev_rbtree_node_color_def)
  have h5a: "h5 a = h a" using D(2,3) h3a(1) by (simp add: h5)
  obtain root' h6 where ch6: "hev_rbtree_change_child (root, h5) a s (topp k) = (root', h6)" by fastforce
  have tk: "topp k \<noteq> x" if "x \<in> set (inorder (Node l c a r))" for x using topp_notin [OF f that] .
  have sin: "s \<noteq> topp k" using tk [of s] ino by auto
  have chin: "rootp ch \<noteq> topp k" if "ch \<noteq> Leaf" using tk [of "rootp ch"] rootp_in [OF that] ino by auto
  have chs: "rootp ch \<noteq> s" using D(10) h3(5) by simp
  define H where "H = (child_parent ch par h5)(s := (child_parent ch par h5 s)\<lparr>rb_pc := pcw (topp k) c\<rparr>)"
  let ?S = "(root', (child_parent ch par h6)(s := (child_parent ch par h6 s)\<lparr>rb_pc := pcw (topp k) c\<rparr>))"
  have fin: "?S = hev_rbtree_change_child (root, H) a s (topp k)"
    unfolding H_def by (rule change_child_parent [OF ch6 sin chin chs])
  have "focus (hev_rbtree_change_child (root, H) a (rootp (Node l c s (plug kk (paint BLACK ch)))) (topp k)) k
      (Node l c s (plug kk (paint BLACK ch)))"
  proof (rule change_child_focus)
    have "H x = h3 x" if "x \<in> path_ptrs k" for x
      using that D(6,7,13) rootp_in [of ch] by (auto simp: H_def child_parent_def h5)
    then show "ctx_at H root k a" using h3a(3) ctx_at_cong [of k H h3 root a] by simp
    show "tree_at H (topp k) (Node l c s (plug kk (paint BLACK ch)))"
      by (rule relinked_tree [OF h5 H_def l par_def h3a(2) h3(3-7)]) (use F D dr ino in auto)
    show "distinct (lefts k @ inorder (Node l c s (plug kk (paint BLACK ch))) @ rights k)"
      using F ino lk by auto
    show "a \<notin> path_ptrs k" "a \<noteq> NULL" using A by auto
  qed
  then have fo: "focus ?S (kk @ InR l c s # k) (paint BLACK ch)"
    using focus_unplug [of _ k "kk @ [InR l c s]" "paint BLACK ch"] fin by simp
  have "rbtree_erase_node (root, h) a = Some (?S, if ch \<noteq> Leaf then NULL else if sc = BLACK then par else NULL)"
  proof -
    have par_al: "al par" using h3(3,6) by (cases kk rule: topp.cases) (auto simp: par_def)
    have cz: "rootp ch \<noteq> 0 \<longleftrightarrow> ch \<noteq> Leaf" using h3(4) by (cases ch) auto
    have cp: "(if rootp ch \<noteq> NULL then hev_rbtree_node_set_parent_color h6 (rootp ch) par BLACK else h6) = child_parent ch par h6"
      using cz par_al by (simp add: child_parent_def hev_rbtree_node_set_parent_color_def del: color_bit.simps)
    have "al (if kk = [] then a else topp kk)" using par_al ala by (auto simp: par_def)
    then have black: "hev_rbtree_node_is_black h6 s \<longleftrightarrow> sc = BLACK"
      using change_child_upd(2) [OF sin ch6] h3(8) D(4)
      by (simp add: hev_rbtree_node_is_black_def hev_rbtree_node_color_def h5)
    have e: "rb_left (h a) \<noteq> NULL" "rb_right (h a) \<noteq> NULL"
      "lift_successor h (rb_right (h a)) = Some (h3, par, s, rootp ch)"
      using ha h3(1) tl l rootp_neq r tr by (cases r; auto simp: par_def)+
    show ?thesis
      using erase_node_two [OF e, of root root' h6] ch6 ha h3a(1) h5a A cp black cz
      by (simp add: h5_def Let_def)
  qed
  moreover have "topp (kk @ [InR l c s]) = par" by (cases kk rule: topp.cases) (auto simp: par_def)
  ultimately show ?thesis using fo by auto
qed

subsection \<open>Removal and insertion as a whole\<close>

lemma path_ok_relabel: "path_ok (kk @ InR l c a # k) m = path_ok (kk @ InR l c b # k) m"
proof (induction kk arbitrary: m)
  case (Cons f kk)
  then show ?case by (cases kk) auto
qed simp

definition rb_index :: "rbstate \<Rightarrow> ptr list \<Rightarrow> bool" where
  "rb_index s xs \<longleftrightarrow> (\<exists>t. rbt_rep s t \<and> rbt_ok t \<and> inorder t = xs)"

lemma rb_indexI: "focus s [] t \<Longrightarrow> rbt_ok t \<Longrightarrow> inorder t = xs \<Longrightarrow> rb_index s xs"
  by (auto simp: rb_index_def rbt_rep_def)

lemma erase_done:
  assumes "rbtree_erase_node s a = Some (s', NULL)" "focus s' k t" "rbt_ok (plug k t)"
  shows "\<exists>s''. hev_rbtree_erase s a = Some s'' \<and> rb_index s'' (lefts k @ inorder t @ rights k)"
  using assms rb_indexI [OF focus_plug [OF assms(2)] assms(3)] by (simp add: hev_rbtree_erase_def)

lemma erase_rebalance:
  assumes "rbtree_erase_node s a = Some (s', topp k)" "focus s' k Leaf" "k \<noteq> []" "path_ok k 1"
  shows "\<exists>s''. hev_rbtree_erase s a = Some s'' \<and> rb_index s'' (lefts k @ rights k)"
proof -
  have ok: "rbh Leaf = Some 0" "\<not> is_red Leaf" "path_ok k (Suc 0)" using assms(4) by simp_all
  from erase_loop_focus [OF assms(2,3) ok(1,3)] obtain s'' where
    s'': "erase_color_loop s' NULL (topp k) = Some s''" "focus s'' [] (ers_fix k Leaf)" by auto
  moreover have "topp k \<noteq> NULL" using assms(2,3) by (auto simp: focus_def)
  ultimately show ?thesis
    using assms(1) rb_indexI [OF s''(2) ers_fix_ok [OF ok] inorder_ers_fix [OF ok(3,1,2)]]
    by (simp add: hev_rbtree_erase_def)
qed

lemma erase_two_children:
  assumes f: "focus (root, h) k (Node l c a r)" and l: "l = Node ll lc b lr" and r: "r \<noteq> Leaf"
    and ok: "rbt_ok (plug k (Node l c a r))"
  shows "\<exists>s''. hev_rbtree_erase (root, h) a = Some s'' \<and>
    rb_index s'' (lefts k @ inorder l @ inorder r @ rights k)"
proof -
  obtain kk sc s ch where dn: "down r = (kk, sc, s, ch)" by (metis prod_cases4)
  note pl = down_plug [OF r dn]
  have lk: "lefts kk = []" using down_frames [OF dn] by simp
  let ?K = "kk @ InR l c s # k"
  from ok have "rbt_ok (plug (kk @ InR l c a # k) (Node Leaf sc s ch))" using pl by simp
  from plug_okD [OF this] obtain m where
    m: "rbh (Node Leaf sc s ch) = Some m" "path_ok ?K m"
      "fcol (hd (kk @ InR l c a # k)) = RED \<longrightarrow> \<not> is_red (Node Leaf sc s ch)"
    using path_ok_relabel [of kk l c a k _ s] by blast
  have hd: "fcol (hd ?K) = fcol (hd (kk @ InR l c a # k))" by (cases kk) auto
  have ino: "lefts ?K @ inorder ch @ rights ?K = lefts k @ inorder l @ inorder r @ rights k"
    using pl lk by simp
  from unlink_two [OF f l r dn] obtain s' where
    s': "rbtree_erase_node (root, h) a =
      Some (s', if ch \<noteq> Leaf then NULL else if sc = BLACK then topp (kk @ [InR l c s]) else NULL)"
      "focus s' ?K (paint BLACK ch)" by blast
  have tK: "topp (kk @ [InR l c s]) = topp ?K" by (cases kk rule: topp.cases) auto
  show ?thesis
  proof (cases "ch = Leaf \<and> sc = BLACK")
    case True
    then have e: "lefts ?K @ rights ?K = lefts k @ inorder l @ inorder r @ rights k" using ino by simp
    show ?thesis using erase_rebalance [of "(root, h)" a s' ?K, unfolded e] s' m tK True by simp
  next
    case False
    have "rbh (paint BLACK ch) = Some m \<and> \<not> is_red (paint BLACK ch)"
      using m(1) False by (cases ch) (auto split: if_splits)
    then have "rbt_ok (plug ?K (paint BLACK ch))" using plug_ok [of "paint BLACK ch" m ?K] m(2) by simp
    moreover have e: "lefts ?K @ inorder (paint BLACK ch) @ rights ?K = lefts k @ inorder l @ inorder r @ rights k"
      using ino by simp
    ultimately show ?thesis
      using erase_done [of "(root, h)" a s' ?K "paint BLACK ch", unfolded e] s' False by auto
  qed
qed

lemma erase_index:
  assumes "rb_index s xs" "a \<in> set xs"
  shows "\<exists>s'. hev_rbtree_erase s a = Some s' \<and> rb_index s' (remove1 a xs)"
proof -
  obtain root h where s: "s = (root, h)" by fastforce
  from assms obtain t where t: "focus s [] t" "rbt_ok t" "inorder t = xs"
    by (auto simp: rb_index_def rbt_rep_def)
  from focus_node [OF t(1)] assms(2) t(3) obtain k l c r where
    f: "focus (root, h) k (Node l c a r)" and pl: "plug k (Node l c a r) = t"
    using s by fastforce
  have "xs = (lefts k @ inorder l) @ a # (inorder r @ rights k)" using pl t(3) by auto
  moreover have "a \<notin> set (lefts k @ inorder l)" using f by (auto simp: focus_def)
  ultimately have rm: "remove1 a xs = lefts k @ inorder l @ inorder r @ rights k"
    using remove1_mid [of a "lefts k @ inorder l" "inorder r @ rights k"] by simp
  have ok: "rbt_ok (plug k (Node l c a r))" using t(2) pl by simp
  from plug_okD [OF this] obtain n where n: "rbh (Node l c a r) = Some n" "path_ok k n"
    "k \<noteq> [] \<and> fcol (hd k) = RED \<longrightarrow> c = BLACK" "k = [] \<longrightarrow> c = BLACK" by auto
  have "\<exists>s'. hev_rbtree_erase (root, h) a = Some s' \<and> rb_index s' (lefts k @ inorder l @ inorder r @ rights k)"
  proof (cases l)
    case l: Leaf
    show ?thesis
    proof (cases r)
      case r: Leaf
      from unlink_leaf [of root h k c a] f l r obtain s' where
        s': "rbtree_erase_node (root, h) a = Some (s', if c = BLACK then topp k else NULL)" "focus s' k Leaf"
        by blast
      have "rbt_ok (plug k Leaf)" if "c = RED \<or> k = []"
        using that n l r plug_ok [of Leaf 0 k] by auto
      then show ?thesis
        using erase_done [of "(root, h)" a s' k Leaf] erase_rebalance [of "(root, h)" a s' k] s' n l r
        by (cases c; cases "k = []") auto
    next
      case (Node rl rc b rr)
      from unlink_left_leaf [of root h k c a rl rc b rr] f l Node obtain s' where
        s': "rbtree_erase_node (root, h) a = Some (s', NULL)" "focus s' k (Node rl c b rr)" by blast
      have "rbh (Node rl c b rr) = Some n" "c = BLACK" using n(1) l Node by (cases c; cases rc; auto)+
      with erase_done [OF s'] plug_ok [of "Node rl c b rr" n k] n l Node show ?thesis by simp
    qed
  next
    case l: (Node ll lc b lr)
    show ?thesis
    proof (cases r)
      case r: Leaf
      from unlink_right_leaf [of root h k ll lc b lr c a] f l r obtain s' where
        s': "rbtree_erase_node (root, h) a = Some (s', NULL)" "focus s' k (Node ll c b lr)" by blast
      have "rbh (Node ll c b lr) = Some n" "c = BLACK" using n(1) l r by (cases c; cases lc; auto)+
      with erase_done [OF s'] plug_ok [of "Node ll c b lr" n k] n l r show ?thesis by simp
    next
      case (Node rl rc d rr)
      then show ?thesis using erase_two_children [OF f l _ ok] by simp
    qed
  qed
  then show ?thesis using s rm by simp
qed

end
