(* ===== verification/Hev_RBTree_Index.thy ===== *)
theory Hev_RBTree_Index
  imports Hev_RBTree_Erase
begin

text \<open>
  The red-black tree as its clients use it: the search loop that
  \<^verbatim>\<open>hev-socks5-authenticator.c\<close> and \<^verbatim>\<open>hev-mapped-dns.c\<close> both write, insertion at the place the
  search found, removal, and the traversals. The locale \<open>ordered_index\<close> states the contract on
  the sequence of the nodes in order; it is interpreted on the pointer code.
\<close>

subsection \<open>Search\<close>

text \<open>
  The descent of the clients: \<open>cmp\<close> compares the node it is given with what is sought, a negative
  result goes left. \<open>Inl\<close> is the node found, \<open>Inr\<close> the parent and the link where it would hang.
\<close>

partial_function (option) rb_search ::
  "rbheap \<Rightarrow> (ptr \<Rightarrow> int) \<Rightarrow> ptr \<Rightarrow> ptr \<Rightarrow> rblink \<Rightarrow> (ptr + (ptr \<times> rblink)) option" where
  "rb_search h cmp this parent link =
     (if this = NULL then Some (Inr (parent, link))
      else if cmp this < 0 then rb_search h cmp (rb_left (h this)) this (LinkLeft this)
      else if cmp this > 0 then rb_search h cmp (rb_right (h this)) this (LinkRight this)
      else Some (Inl this))"

declare rb_search.simps [code]

definition rb_find :: "rbstate \<Rightarrow> (ptr \<Rightarrow> int) \<Rightarrow> (ptr + (ptr \<times> rblink)) option" where
  "rb_find s cmp = rb_search (snd s) cmp (fst s) NULL LinkRoot"

definition rb_insert :: "rbstate \<Rightarrow> ptr \<Rightarrow> ptr \<Rightarrow> rblink \<Rightarrow> rbstate option" where
  "rb_insert s node parent link =
     hev_rbtree_insert_color (hev_rbtree_node_link s node parent link) node"

text \<open>Nodes that compare greater come first; at most one node compares equal.\<close>

definition cmp_mono :: "(ptr \<Rightarrow> int) \<Rightarrow> ptr list \<Rightarrow> bool" where
  "cmp_mono cmp xs \<longleftrightarrow> sorted_wrt (\<lambda>x y. cmp x \<le> 0 \<longrightarrow> cmp y < 0) xs"

fun link_of :: "frame list \<Rightarrow> rblink" where
  "link_of [] = LinkRoot"
| "link_of (InL c p r # k) = LinkLeft p"
| "link_of (InR l c p # k) = LinkRight p"

lemma cmp_mono_append:
  "cmp_mono cmp (xs @ x # ys) \<Longrightarrow>
   cmp_mono cmp xs \<and> cmp_mono cmp ys \<and> (cmp x \<le> 0 \<longrightarrow> (\<forall>y\<in>set ys. cmp y < 0)) \<and>
   (0 \<le> cmp x \<longrightarrow> (\<forall>y\<in>set xs. 0 < cmp y))"
  by (fastforce simp: cmp_mono_def sorted_wrt_append)

lemma cmp_mono_above: "(\<forall>x\<in>set xs. 0 < cmp x) \<Longrightarrow> cmp_mono cmp xs"
  by (induction xs) (auto simp: cmp_mono_def)

lemma cmp_mono_below: "(\<forall>x\<in>set xs. cmp x < 0) \<Longrightarrow> cmp_mono cmp xs"
  by (induction xs) (auto simp: cmp_mono_def)

lemma filter_below:
  assumes "\<forall>x\<in>set xs. cmp x < (0 :: int)"
  shows "filter (\<lambda>x. cmp x < 0) xs = xs" "filter (\<lambda>x. 0 < cmp x) xs = []" "\<forall>x\<in>set xs. cmp x \<noteq> 0"
  using assms by (auto simp: filter_id_conv filter_empty_conv)

lemma filter_above:
  assumes "\<forall>x\<in>set xs. (0 :: int) < cmp x"
  shows "filter (\<lambda>x. 0 < cmp x) xs = xs" "filter (\<lambda>x. cmp x < 0) xs = []" "\<forall>x\<in>set xs. cmp x \<noteq> 0"
  using assms by (auto simp: filter_id_conv filter_empty_conv)

lemma search_focus:
  assumes "focus s k t" "cmp_mono cmp (inorder t)"
  shows "(\<exists>x\<in>set (inorder t). cmp x = 0 \<and>
            rb_search (snd s) cmp (rootp t) (topp k) (link_of k) = Some (Inl x)) \<or>
    ((\<forall>x\<in>set (inorder t). cmp x \<noteq> 0) \<and>
      (\<exists>k'. rb_search (snd s) cmp (rootp t) (topp k) (link_of k) = Some (Inr (topp k', link_of k')) \<and>
        plug k' Leaf = plug k t \<and> lefts k' = lefts k @ filter (\<lambda>x. 0 < cmp x) (inorder t) \<and>
        rights k' = filter (\<lambda>x. cmp x < 0) (inorder t) @ rights k))"
  using assms
proof (induction t arbitrary: k)
  case Leaf
  then show ?case by (subst rb_search.simps) (auto intro!: exI [of _ k])
next
  case (Node l c a r)
  note m = cmp_mono_append [OF Node.prems(2) [simplified]]
  have h: "a \<noteq> NULL" "rb_left (snd s a) = rootp l" "rb_right (snd s a) = rootp r"
    using Node.prems(1) by (auto simp: focus_def)
  consider "cmp a < 0" | "cmp a = 0" | "0 < cmp a" by linarith
  then show ?case
  proof cases
    case 1
    have f: "focus s (InL c a r # k) l" using Node.prems(1) by (auto simp: focus_def)
    have "\<forall>x\<in>set (inorder r). cmp x < 0" using m 1 by auto
    note r = filter_below [OF this]
    have st: "rb_search (snd s) cmp (rootp (Node l c a r)) (topp k) (link_of k) =
        rb_search (snd s) cmp (rootp l) (topp (InL c a r # k)) (link_of (InL c a r # k))"
      using h 1 by (subst rb_search.simps) simp
    show ?thesis
      using Node.IH(1) [OF f m [THEN conjunct1]] 1 r unfolding st by (elim disjE) auto
  next
    case 2
    then show ?thesis using h by (subst rb_search.simps) auto
  next
    case 3
    have f: "focus s (InR l c a # k) r" using Node.prems(1) by (auto simp: focus_def)
    have "\<forall>x\<in>set (inorder l). 0 < cmp x" using m 3 by auto
    note r = filter_above [OF this]
    have st: "rb_search (snd s) cmp (rootp (Node l c a r)) (topp k) (link_of k) =
        rb_search (snd s) cmp (rootp r) (topp (InR l c a # k)) (link_of (InR l c a # k))"
      using h 3 by (subst rb_search.simps) simp
    show ?thesis
      using Node.IH(2) [OF f m [THEN conjunct2, THEN conjunct1]] 3 r unfolding st by (elim disjE) auto
  qed
qed

lemma find_index:
  assumes "rb_index s xs" "cmp_mono cmp xs"
  shows "(\<exists>x\<in>set xs. cmp x = 0 \<and> rb_find s cmp = Some (Inl x)) \<or>
    ((\<forall>x\<in>set xs. cmp x \<noteq> 0) \<and>
      (\<exists>k t. rb_find s cmp = Some (Inr (topp k, link_of k)) \<and> rbt_rep s t \<and> rbt_ok t \<and> plug k Leaf = t \<and>
        lefts k = filter (\<lambda>x. 0 < cmp x) xs \<and> rights k = filter (\<lambda>x. cmp x < 0) xs))"
proof -
  from assms(1) obtain t where t: "rbt_rep s t" "rbt_ok t" "inorder t = xs" by (auto simp: rb_index_def)
  then have f: "focus s [] t" "rootp t = fst s" by (auto simp: rbt_rep_def focus_def)
  show ?thesis
    using search_focus [OF f(1), of cmp] assms(2) t f(2) by (auto simp: rb_find_def)
qed

subsection \<open>Insertion\<close>

lemma link_focus:
  assumes "focus s k Leaf" "a \<notin> set (lefts k @ rights k)" "a \<noteq> NULL" "al a"
  shows "focus (hev_rbtree_node_link s a (topp k) (link_of k)) k (Node Leaf RED a Leaf)"
  using assms
  by (cases s; cases k rule: link_of.cases)
    (auto simp: hev_rbtree_node_link_def focus_def set_left_def set_right_def path_ptrs_def)

lemma insert_index:
  assumes "rbt_rep s t" "rbt_ok t" "plug k Leaf = t" "a \<notin> set (inorder t)" "a \<noteq> NULL" "al a"
  shows "\<exists>s'. rb_insert s a (topp k) (link_of k) = Some s' \<and> rb_index s' (lefts k @ a # rights k)"
proof -
  have f0: "focus s k Leaf" using assms(1,3) focus_unplug [of s "[]" k Leaf] by (simp add: rbt_rep_def)
  let ?s = "hev_rbtree_node_link s a (topp k) (link_of k)" and ?t = "Node Leaf RED a Leaf"
  have f: "focus ?s k ?t" using link_focus [OF f0] assms by auto
  from plug_okD [of k Leaf] assms(2,3) have ok: "path_ok k 0" by auto
  from insert_loop_focus [OF f refl] path_ok_last [OF ok] obtain s' where
    s': "insert_color_loop ?s a (topp k) = Some s'" "focus s' [] (ins_fix k ?t)" by auto
  have "hev_rbtree_node_red_parent (snd ?s) a = topp k"
    using f by (simp add: focus_def hev_rbtree_node_red_parent_def)
  moreover have "rbt_ok (ins_fix k ?t)" using ins_fix_ok [of ?t 0] ok by auto
  ultimately show ?thesis
    using s' rb_indexI [OF s'(2)] inorder_ins_fix [of ?t k]
    by (auto simp: rb_insert_def hev_rbtree_insert_color_def)
qed

subsection \<open>Traversal\<close>

lemma go_left_focus: "focus s k t \<Longrightarrow> t \<noteq> Leaf \<Longrightarrow> go_left (snd s) (rootp t) = Some (hd (inorder t))"
proof (induction t arbitrary: k)
  case (Node l c a r)
  then have f: "focus s (InL c a r # k) l" "rb_left (snd s a) = rootp l" by (auto simp: focus_def)
  show ?case
  proof (cases l)
    case Leaf
    with f show ?thesis by (subst go_left.simps) simp
  next
    case (Node l1 c1 b r1)
    with f(1) have "b \<noteq> NULL" by (auto simp: focus_def)
    with Node.IH(1) [OF f(1)] f(2) Node show ?thesis by (subst go_left.simps) (simp add: hd_append)
  qed
qed simp

lemma go_right_focus: "focus s k t \<Longrightarrow> t \<noteq> Leaf \<Longrightarrow> go_right (snd s) (rootp t) = Some (last (inorder t))"
proof (induction t arbitrary: k)
  case (Node l c a r)
  then have f: "focus s (InR l c a # k) r" "rb_right (snd s a) = rootp r" by (auto simp: focus_def)
  show ?case
  proof (cases r)
    case Leaf
    with f show ?thesis by (subst go_right.simps) simp
  next
    case (Node l1 c1 b r1)
    with f(1) have "b \<noteq> NULL" by (auto simp: focus_def)
    with Node.IH(2) [OF f(1)] f(2) Node show ?thesis by (subst go_right.simps) (simp add: last_append)
  qed
qed simp

fun head_or :: "ptr list \<Rightarrow> ptr" where
  "head_or [] = NULL"
| "head_or (x # xs) = x"

lemma head_or_append: "xs \<noteq> [] \<Longrightarrow> head_or (xs @ ys) = hd xs"
  by (cases xs) auto

lemma head_or_hd: "xs \<noteq> [] \<Longrightarrow> head_or xs = hd xs"
  by (cases xs) auto

lemma up_right_focus:
  "focus s k (Node l c a r) \<Longrightarrow> up_while_right (snd s) a = Some (head_or (rights k))"
proof (induction k arbitrary: l c a r)
  case Nil
  then show ?case by (subst up_while_right.simps) (auto simp: focus_def hev_rbtree_node_parent_def)
next
  case (Cons f k)
  show ?case
  proof (cases f)
    case (InL c' p r')
    have "a \<noteq> rootp r'" using Cons.prems InL by (auto simp: focus_def)
    with Cons.prems InL show ?thesis
      by (subst up_while_right.simps) (auto simp: focus_def hev_rbtree_node_parent_def Let_def)
  next
    case (InR l' c' p)
    have "focus s k (Node l' c' p (Node l c a r))" using Cons.prems InR by (auto simp: focus_def)
    from Cons.IH [OF this] Cons.prems InR show ?thesis
      by (subst up_while_right.simps) (auto simp: focus_def hev_rbtree_node_parent_def Let_def)
  qed
qed

lemma node_next_index:
  assumes "rb_index s (xs @ a # ys)"
  shows "hev_rbtree_node_next (snd s) a = Some (head_or ys)"
proof -
  from assms obtain t where t: "focus s [] t" "inorder t = xs @ a # ys"
    by (auto simp: rb_index_def rbt_rep_def)
  from focus_node [OF t(1), of a] t(2) obtain k l c r where
    f: "focus s k (Node l c a r)" "plug k (Node l c a r) = t" by auto
  have d: "distinct (xs @ a # ys)" using t by (auto simp: focus_def)
  have "(lefts k @ inorder l) @ a # (inorder r @ rights k) = xs @ a # ys" using f(2) t(2) by auto
  then have ys: "ys = inorder r @ rights k"
    using d append_Cons_eq_iff [of a xs ys "lefts k @ inorder l" "inorder r @ rights k"] by auto
  have ne: "\<not> hev_rbtree_node_empty (snd s) a"
    using f(1) topp_notin [OF f(1), of a] pcw_not_self [of "topp k" a c]
    by (auto simp: hev_rbtree_node_empty_def focus_def)
  show ?thesis
  proof (cases r)
    case Leaf
    have "rb_right (snd s a) = NULL" using f(1) Leaf by (auto simp: focus_def)
    with ne up_right_focus [OF f(1)] ys Leaf show ?thesis by (simp add: hev_rbtree_node_next_def)
  next
    case (Node rl rc b rr)
    have fr: "focus s (InR l c a # k) r" using f(1) by (auto simp: focus_def)
    then have "rb_right (snd s a) = rootp r" "rootp r \<noteq> NULL" using Node by (auto simp: focus_def)
    moreover have "hd (inorder r) = head_or ys" using ys Node head_or_append [of "inorder r"] by simp
    ultimately show ?thesis
      using ne go_left_focus [OF fr] Node by (simp add: hev_rbtree_node_next_def)
  qed
qed

lemma first_index: "rb_index s xs \<Longrightarrow> hev_rbtree_first s = Some (head_or xs)"
proof -
  assume "rb_index s xs"
  then obtain t where t: "focus s [] t" "inorder t = xs" by (auto simp: rb_index_def rbt_rep_def)
  show ?thesis
  proof (cases t)
    case Leaf
    with t show ?thesis by (auto simp: hev_rbtree_first_def focus_def)
  next
    case (Node l c a r)
    then have "fst s = rootp t" "rootp t \<noteq> NULL" using t by (auto simp: focus_def)
    moreover have "hd (inorder t) = head_or xs" using t Node head_or_hd [of xs] by auto
    ultimately show ?thesis using go_left_focus [OF t(1)] Node by (simp add: hev_rbtree_first_def)
  qed
qed

subsection \<open>The contract its clients use\<close>

text \<open>
  An index of nodes kept in an order: a search with a comparison that is monotone along the order
  ends, and either finds the node that compares equal or returns a place at which insertion keeps
  the order; insertion and removal end and change the sequence as expected.
\<close>

locale ordered_index =
  fixes idx :: "'s \<Rightarrow> ptr list \<Rightarrow> bool"
    and find :: "'s \<Rightarrow> (ptr \<Rightarrow> int) \<Rightarrow> (ptr + 'p) option"
    and insert_at :: "'s \<Rightarrow> ptr \<Rightarrow> 'p \<Rightarrow> 's option"
    and erase :: "'s \<Rightarrow> ptr \<Rightarrow> 's option"
    and fit :: "ptr \<Rightarrow> bool"
  assumes idx_distinct: "idx s xs \<Longrightarrow> distinct xs"
    and idx_nonnull: "idx s xs \<Longrightarrow> x \<in> set xs \<Longrightarrow> x \<noteq> NULL"
    and find_hit: "idx s xs \<Longrightarrow> cmp_mono cmp xs \<Longrightarrow> x \<in> set xs \<Longrightarrow> cmp x = 0 \<Longrightarrow> find s cmp = Some (Inl x)"
    and find_miss: "idx s xs \<Longrightarrow> cmp_mono cmp xs \<Longrightarrow> (\<And>x. x \<in> set xs \<Longrightarrow> cmp x \<noteq> 0) \<Longrightarrow>
      \<exists>pos. find s cmp = Some (Inr pos) \<and>
        (\<forall>a. a \<notin> set xs \<longrightarrow> fit a \<longrightarrow>
          (\<exists>s'. insert_at s a pos = Some s' \<and>
                idx s' (filter (\<lambda>x. 0 < cmp x) xs @ a # filter (\<lambda>x. cmp x < 0) xs)))"
    and erase_idx: "idx s xs \<Longrightarrow> a \<in> set xs \<Longrightarrow> \<exists>s'. erase s a = Some s' \<and> idx s' (remove1 a xs)"
begin

text \<open>
  Clients order the nodes by a key: \<open>ord k l\<close> is the sign with which a node of key \<open>k\<close> compares
  when \<open>l\<close> is sought.
\<close>

lemma lookup_after_insert:
  assumes "idx s xs" "cmp_mono cmp xs" "\<And>x. x \<in> set xs \<Longrightarrow> cmp x \<noteq> 0" "a \<notin> set xs" "fit a" "cmp a = 0"
  shows "\<exists>pos s'. find s cmp = Some (Inr pos) \<and> insert_at s a pos = Some s' \<and> find s' cmp = Some (Inl a)"
proof -
  from find_miss [OF assms(1-3)] assms(4,5) obtain pos s' where
    p: "find s cmp = Some (Inr pos)" "insert_at s a pos = Some s'"
      "idx s' (filter (\<lambda>x. 0 < cmp x) xs @ a # filter (\<lambda>x. cmp x < 0) xs)" by blast
  have "cmp_mono cmp (filter (\<lambda>x. 0 < cmp x) xs @ a # filter (\<lambda>x. cmp x < 0) xs)"
    using assms(6) cmp_mono_above [of "filter (\<lambda>x. 0 < cmp x) xs" cmp]
      cmp_mono_below [of "filter (\<lambda>x. cmp x < 0) xs" cmp]
    by (auto simp: cmp_mono_def sorted_wrt_append)
  with find_hit [OF p(3), of cmp a] assms(6) p(1,2) show ?thesis by auto
qed

end

lemma rb_index_distinct: "rb_index s xs \<Longrightarrow> distinct xs"
  by (auto simp: rb_index_def rbt_rep_def focus_def)

lemma rb_index_nonnull: "rb_index s xs \<Longrightarrow> x \<in> set xs \<Longrightarrow> x \<noteq> NULL"
  by (auto simp: rb_index_def rbt_rep_def focus_def dest!: tree_at_nonnull intro!: gr0I)

definition rb_insert_at :: "rbstate \<Rightarrow> ptr \<Rightarrow> ptr \<times> rblink \<Rightarrow> rbstate option" where
  "rb_insert_at s a pos = rb_insert s a (fst pos) (snd pos)"

definition rb_fit :: "ptr \<Rightarrow> bool" where
  "rb_fit a \<longleftrightarrow> a \<noteq> NULL \<and> al a"

lemma cmp_mono_unique:
  "cmp_mono cmp xs \<Longrightarrow> x \<in> set xs \<Longrightarrow> y \<in> set xs \<Longrightarrow> cmp x = 0 \<Longrightarrow> cmp y = 0 \<Longrightarrow> x = y"
  by (induction xs) (auto simp: cmp_mono_def)

interpretation rb: ordered_index rb_index rb_find rb_insert_at hev_rbtree_erase rb_fit
proof unfold_locales
  fix s xs cmp x
  assume i: "rb_index s xs" "cmp_mono cmp xs"
  show "x \<in> set xs \<Longrightarrow> cmp x = 0 \<Longrightarrow> rb_find s cmp = Some (Inl x)"
    using find_index [OF i] cmp_mono_unique [OF i(2)] by metis
  assume "\<And>x. x \<in> set xs \<Longrightarrow> cmp x \<noteq> 0"
  then obtain k t where k: "rb_find s cmp = Some (Inr (topp k, link_of k))" "rbt_rep s t" "rbt_ok t"
    "plug k Leaf = t" "lefts k = filter (\<lambda>x. 0 < cmp x) xs" "rights k = filter (\<lambda>x. cmp x < 0) xs"
    using find_index [OF i] by metis
  have "\<exists>s'. rb_insert_at s a (topp k, link_of k) = Some s' \<and>
      rb_index s' (filter (\<lambda>x. 0 < cmp x) xs @ a # filter (\<lambda>x. cmp x < 0) xs)"
    if "a \<notin> set xs" "rb_fit a" for a
  proof -
    have "a \<notin> set (inorder t)" using k(4-6) that(1) by auto
    with insert_index [OF k(2-4)] that(2) k(5,6) show ?thesis by (simp add: rb_insert_at_def rb_fit_def)
  qed
  with k(1) show "\<exists>pos. rb_find s cmp = Some (Inr pos) \<and> (\<forall>a. a \<notin> set xs \<longrightarrow> rb_fit a \<longrightarrow>
      (\<exists>s'. rb_insert_at s a pos = Some s' \<and>
        rb_index s' (filter (\<lambda>x. 0 < cmp x) xs @ a # filter (\<lambda>x. cmp x < 0) xs)))" by blast
qed (fact rb_index_distinct rb_index_nonnull erase_index)+

subsection \<open>Nodes ordered by a key\<close>

text \<open>
  Both clients keep the nodes of their index in falling order of a key, a user's name or a host
  name, compared by a three-way comparison. \<open>ok\<close> is what all stored keys satisfy.
\<close>

locale key_order =
  fixes kcmp :: "'k \<Rightarrow> 'k \<Rightarrow> int" and ok :: "'k \<Rightarrow> bool"
  assumes kcmp_eq: "ok a \<Longrightarrow> ok b \<Longrightarrow> kcmp a b = 0 \<longleftrightarrow> a = b"
    and kcmp_flip: "kcmp a b < 0 \<longleftrightarrow> 0 < kcmp b a"
    and kcmp_trans: "0 < kcmp a b \<Longrightarrow> 0 < kcmp b c \<Longrightarrow> 0 < kcmp a c"
begin

definition falling :: "(ptr \<Rightarrow> 'k) \<Rightarrow> ptr list \<Rightarrow> bool" where
  "falling f xs \<longleftrightarrow> sorted_wrt (\<lambda>x y. 0 < kcmp (f x) (f y)) xs \<and> (\<forall>x\<in>set xs. ok (f x))"

lemma falling_mono:
  assumes "falling f xs" "ok n"
  shows "cmp_mono (\<lambda>x. kcmp (f x) n) xs"
proof -
  have "kcmp (f y) n < 0" if "0 < kcmp (f x) (f y)" "kcmp (f x) n \<le> 0" "ok (f x)" for x y
  proof (cases "f x = n")
    case True
    with that show ?thesis by (simp add: kcmp_flip)
  next
    case False
    with kcmp_eq [OF that(3) assms(2)] that(2) have "kcmp (f x) n < 0" by simp
    then have "0 < kcmp n (f x)" by (simp add: kcmp_flip)
    with that(1) kcmp_trans kcmp_flip show ?thesis by blast
  qed
  then show ?thesis
    unfolding cmp_mono_def using assms(1) by (auto simp: falling_def intro: sorted_wrt_mono_rel [rotated])
qed

lemma falling_insert:
  assumes "falling f xs" "ok (f a)"
  shows "falling f (filter (\<lambda>x. 0 < kcmp (f x) (f a)) xs @ a # filter (\<lambda>x. kcmp (f x) (f a) < 0) xs)"
  using assms sorted_wrt_filter kcmp_trans
  by (auto simp: falling_def sorted_wrt_append kcmp_flip)

lemma falling_remove: "falling f xs \<Longrightarrow> distinct xs \<Longrightarrow> falling f (remove1 x xs)"
  by (auto simp: falling_def distinct_remove1_removeAll removeAll_filter_not_eq intro: sorted_wrt_filter)

lemma falling_cong: "(\<And>x. x \<in> set xs \<Longrightarrow> f x = g x) \<Longrightarrow> falling f xs = falling g xs"
  unfolding falling_def by (auto intro: sorted_wrt_mono_rel [rotated])

lemma falling_inj:
  assumes "falling f xs" "x \<in> set xs" "y \<in> set xs" "f x = f y"
  shows "x = y"
proof -
  have "ok (f y)" using assms by (simp add: falling_def)
  then show ?thesis
    using cmp_mono_unique [OF falling_mono [OF assms(1)] assms(2,3)] assms(4) kcmp_eq by simp
qed

end

subsection \<open>Properties\<close>

definition demo_rb :: rbstate where
  "demo_rb = (8, (\<lambda>a. \<lparr>rb_pc = 0, rb_right = 0, rb_left = 0\<rparr>)
     (8 := \<lparr>rb_pc = 1, rb_right = 0, rb_left = 4\<rparr>, 4 := \<lparr>rb_pc = 8, rb_right = 0, rb_left = 0\<rparr>))"

lemma demo_rb_tree:
  "rbt_rep demo_rb (Node (Node Leaf RED 4 Leaf) BLACK 8 Leaf)" "rbt_ok (Node (Node Leaf RED 4 Leaf) BLACK 8 Leaf)"
  by (simp_all add: rbt_rep_def focus_def demo_rb_def pcw_def al_def rbt_ok_def rbh.simps(2))

lemma demo_rb_index: "rb_index demo_rb [4, 8]"
  using demo_rb_tree by (auto simp: rb_index_def intro!: exI [of _ "Node (Node Leaf RED 4 Leaf) BLACK 8 Leaf"])

text \<open>C18 Insertion ends and is correct: on a heap that holds a red-black tree with the nodes \<open>xs\<close> in
  order, a search for something that no node equals returns a place, and linking an aligned new
  node there and recolouring (\<^verbatim>\<open>hev_rbtree_node_link\<close>, \<^verbatim>\<open>hev_rbtree_insert_color\<close>) ends with a
  heap that again holds a red-black tree: same nodes, same order, the new one after all nodes that
  compare greater and before all that compare less.\<close>

theorem rbtree_insert_correct:
  assumes "rb_index s xs" "cmp_mono cmp xs" "\<And>x. x \<in> set xs \<Longrightarrow> cmp x \<noteq> 0"
    and "a \<notin> set xs" "rb_fit a"
  shows "\<exists>parent link s'. rb_find s cmp = Some (Inr (parent, link)) \<and>
    hev_rbtree_insert_color (hev_rbtree_node_link s a parent link) a = Some s' \<and>
    rb_index s' (filter (\<lambda>x. 0 < cmp x) xs @ a # filter (\<lambda>x. cmp x < 0) xs)"
  using rb.find_miss [OF assms(1-3)] assms(4,5)
  by (auto simp: rb_insert_at_def rb_insert_def)

theorem rbtree_insert_correct_witness:
  "\<exists>parent link s'. rb_find demo_rb (\<lambda>x. int 12 - 2 * int x) = Some (Inr (parent, link)) \<and>
    hev_rbtree_insert_color (hev_rbtree_node_link demo_rb 16 parent link) 16 = Some s' \<and>
    rb_index s' [4, 16, 8]"
proof -
  have "cmp_mono (\<lambda>x. int 12 - 2 * int x) [4, 8]" by (simp add: cmp_mono_def)
  moreover have "rb_fit 16" by (simp add: rb_fit_def al_def)
  ultimately show ?thesis
    using rbtree_insert_correct [OF demo_rb_index, of "\<lambda>x. int 12 - 2 * int x" 16] by fastforce
qed

text \<open>C19 Removal ends and is correct: removing a node of the tree with \<^verbatim>\<open>hev_rbtree_erase\<close> ends with a
  heap that holds a red-black tree of the remaining nodes in their old order.\<close>

theorem rbtree_erase_correct:
  assumes "rb_index s xs" "a \<in> set xs"
  shows "\<exists>s'. hev_rbtree_erase s a = Some s' \<and> rb_index s' (remove1 a xs)"
  using assms by (rule rb.erase_idx)

theorem rbtree_erase_correct_witness:
  "\<exists>s'. hev_rbtree_erase demo_rb 8 = Some s' \<and> rb_index s' [4]"
  using rbtree_erase_correct [OF demo_rb_index, of 8] by simp

text \<open>C20 Walking the tree with \<^verbatim>\<open>hev_rbtree_first\<close> and \<^verbatim>\<open>hev_rbtree_node_next\<close> ends at every step and
  visits the nodes in order: the first node is the head of the sequence, the next of a node is the
  one that follows it, and the next of the last is the null pointer.\<close>

theorem rbtree_traversal:
  assumes "rb_index s (xs @ a # ys)"
  shows "hev_rbtree_first s = Some (head_or (xs @ [a])) \<and> hev_rbtree_node_next (snd s) a = Some (head_or ys)"
  using first_index [OF assms] node_next_index [OF assms] by (cases xs) auto

theorem rbtree_traversal_witness:
  "hev_rbtree_first demo_rb = Some 4 \<and> hev_rbtree_node_next (snd demo_rb) 4 = Some 8"
  using rbtree_traversal [of demo_rb "[]" 4 "[8]"] demo_rb_index by simp

fun height :: "ptree \<Rightarrow> nat" where
  "height Leaf = 0"
| "height (Node l c a r) = Suc (max (height l) (height r))"

lemma rbh_size: "rbh t = Some n \<Longrightarrow> 2 ^ n \<le> Suc (length (inorder t))"
proof (induction t arbitrary: n)
  case (Node l c a r)
  then obtain m where "rbh l = Some m" "rbh r = Some m" "n \<le> Suc m" by (auto split: if_splits)
  with Node.IH have "2 ^ m \<le> Suc (length (inorder l))" "2 ^ m \<le> Suc (length (inorder r))" by auto
  moreover have "(2::nat) ^ n \<le> 2 ^ Suc m" using \<open>n \<le> Suc m\<close> by (rule power_increasing) simp
  ultimately show ?case by simp
qed simp

lemma rbh_height: "rbh t = Some n \<Longrightarrow> height t \<le> 2 * n + (if is_red t then 1 else 0)"
proof (induction t arbitrary: n)
  case (Node l c a r)
  then obtain m where m: "rbh l = Some m" "rbh r = Some m" "c = RED \<longrightarrow> \<not> is_red l \<and> \<not> is_red r"
    "n = (if c = BLACK then Suc m else m)" by auto
  with Node.IH [of m] show ?case by (cases c) (auto split: if_splits)
qed simp

text \<open>The tree is balanced: a red-black tree of \<open>n\<close> nodes has height at most twice the logarithm
  of \<open>n + 1\<close>, so every search of the authenticator and of the mapped DNS takes logarithmically many
  steps.\<close>

theorem rbtree_balanced:
  assumes "rbt_rep s t" "rbt_ok t"
  shows "2 ^ (height t div 2) \<le> Suc (length (inorder t))"
proof -
  obtain n where n: "rbh t = Some n" "\<not> is_red t" using assms(2) by (auto simp: rbt_ok_def)
  then have "height t div 2 \<le> n" using rbh_height [OF n(1)] by simp
  then have "(2::nat) ^ (height t div 2) \<le> 2 ^ n" by (rule power_increasing) simp
  then show ?thesis using rbh_size [OF n(1)] by (rule order_trans)
qed

theorem rbtree_balanced_witness:
  "2 ^ (height (Node (Node Leaf RED 4 Leaf) BLACK 8 Leaf) div 2) \<le> (3::nat)"
  using rbtree_balanced [OF demo_rb_tree] by simp

end
