(* ===== verification/Socks5_Auth.thy ===== *)
theory Socks5_Auth
  imports Hev_RBTree_Index
begin

text \<open>
  Users and the authenticator of the SOCKS5 server: \<^verbatim>\<open>core/src/hev-socks5-user.c\<close> and
  \<^verbatim>\<open>core/src/hev-socks5-authenticator.c\<close>, with the reference counts of
  \<^verbatim>\<open>hev-object-atomic.c\<close>. A user is named by the address of its tree node. The lemmas show that
  the authenticator is a finite map from names to users.
\<close>

subsection \<open>Users\<close>

record HevSocks5User =
  u_name :: "u8 list"
  u_pass :: "u8 list"
  u_refs :: nat
  u_freed :: bool

text \<open>The sign of \<^verbatim>\<open>memcmp\<close> is that of the first difference.\<close>

fun memcmp :: "u8 list \<Rightarrow> u8 list \<Rightarrow> int" where
  "memcmp (a # as) (b # bs) = (if a = b then memcmp as bs else int (unat a) - int (unat b))"
| "memcmp _ _ = 0"

text \<open>\<^verbatim>\<open>hev_socks5_user_construct\<close>: the lengths are those of the stored byte strings.\<close>

definition hev_socks5_user_construct :: "u8 list \<Rightarrow> nat \<Rightarrow> u8 list \<Rightarrow> nat \<Rightarrow> HevSocks5User" where
  "hev_socks5_user_construct name name_len pass pass_len =
     \<lparr>u_name = take name_len name, u_pass = take pass_len pass, u_refs = 1, u_freed = False\<rparr>"

definition hev_socks5_user_new ::
  "bool \<Rightarrow> u8 list \<Rightarrow> nat \<Rightarrow> u8 list \<Rightarrow> nat \<Rightarrow> HevSocks5User option" where
  "hev_socks5_user_new calloc_ok name name_len pass pass_len =
     (if \<not> calloc_ok then None else Some (hev_socks5_user_construct name name_len pass pass_len))"

definition hev_socks5_user_checker :: "HevSocks5User \<Rightarrow> u8 list \<Rightarrow> nat \<Rightarrow> int" where
  "hev_socks5_user_checker self pass pass_len =
     (if length (u_pass self) \<noteq> pass_len then -1
      else if memcmp (u_pass self) (take pass_len pass) \<noteq> 0 then -1
      else 0)"

definition hev_socks5_user_check :: "HevSocks5User \<Rightarrow> u8 list \<Rightarrow> nat \<Rightarrow> int" where
  "hev_socks5_user_check self pass pass_len = hev_socks5_user_checker self pass pass_len"

definition hev_socks5_user_destruct :: "HevSocks5User \<Rightarrow> HevSocks5User" where
  "hev_socks5_user_destruct self = self\<lparr>u_freed := True\<rparr>"

text \<open>\<^verbatim>\<open>_hev_object_atomic_ref\<close> on a user.\<close>

definition user_ref :: "HevSocks5User \<Rightarrow> HevSocks5User" where
  "user_ref u = u\<lparr>u_refs := u_refs u + 1\<rparr>"

definition user_unref :: "HevSocks5User \<Rightarrow> HevSocks5User" where
  "user_unref u =
     (let rc = u_refs u;
          u = u\<lparr>u_refs := u_refs u - 1\<rparr>
      in if rc > 1 then u else hev_socks5_user_destruct u)"

subsection \<open>The authenticator\<close>

record HevSocks5Authenticator =
  a_tree :: rbstate
  a_users :: "ptr \<Rightarrow> HevSocks5User"
  a_refs :: nat

definition hev_socks5_authenticator_construct ::
  "rbheap \<Rightarrow> (ptr \<Rightarrow> HevSocks5User) \<Rightarrow> HevSocks5Authenticator" where
  "hev_socks5_authenticator_construct h users = \<lparr>a_tree = (NULL, h), a_users = users, a_refs = 1\<rparr>"

text \<open>The comparison of a node with a name, as each of the loops writes it.\<close>

definition name_cmp :: "u8 list \<Rightarrow> u8 list \<Rightarrow> int" where
  "name_cmp this_name name =
     (if length this_name < length name then -1
      else if length this_name > length name then 1
      else memcmp this_name name)"

definition hev_socks5_authenticator_add ::
  "HevSocks5Authenticator \<Rightarrow> ptr \<Rightarrow> (int \<times> HevSocks5Authenticator) option" where
  "hev_socks5_authenticator_add self user =
     (case rb_find (a_tree self) (\<lambda>this. name_cmp (u_name (a_users self this)) (u_name (a_users self user))) of
        None \<Rightarrow> None
      | Some (Inl this) \<Rightarrow> Some (-1, self)
      | Some (Inr (parent, link)) \<Rightarrow>
          (case hev_rbtree_insert_color (hev_rbtree_node_link (a_tree self) user parent link) user of
             None \<Rightarrow> None
           | Some t \<Rightarrow> Some (0, self\<lparr>a_tree := t\<rparr>)))"

definition hev_socks5_authenticator_del ::
  "HevSocks5Authenticator \<Rightarrow> u8 list \<Rightarrow> (int \<times> HevSocks5Authenticator) option" where
  "hev_socks5_authenticator_del self name =
     (case rb_find (a_tree self) (\<lambda>this. name_cmp (u_name (a_users self this)) name) of
        None \<Rightarrow> None
      | Some (Inr _) \<Rightarrow> Some (-1, self)
      | Some (Inl this) \<Rightarrow>
          (case hev_rbtree_erase (a_tree self) this of
             None \<Rightarrow> None
           | Some t \<Rightarrow>
               Some (0, self\<lparr>a_tree := t, a_users := (a_users self)(this := user_unref (a_users self this))\<rparr>)))"

text \<open>\<open>Some NULL\<close> is the null result of \<^verbatim>\<open>hev_socks5_authenticator_get\<close>.\<close>

definition hev_socks5_authenticator_get :: "HevSocks5Authenticator \<Rightarrow> u8 list \<Rightarrow> ptr option" where
  "hev_socks5_authenticator_get self name =
     (case rb_find (a_tree self) (\<lambda>this. name_cmp (u_name (a_users self this)) name) of
        None \<Rightarrow> None
      | Some (Inr _) \<Rightarrow> Some NULL
      | Some (Inl this) \<Rightarrow> Some this)"

definition clear_step :: "HevSocks5Authenticator \<Rightarrow> ptr \<Rightarrow> HevSocks5Authenticator option" where
  "clear_step self n =
     (case hev_rbtree_erase (a_tree self) n of
        None \<Rightarrow> None
      | Some t \<Rightarrow> Some (self\<lparr>a_tree := t, a_users := (a_users self)(n := user_unref (a_users self n))\<rparr>))"

partial_function (option) hev_socks5_authenticator_clear ::
  "HevSocks5Authenticator \<Rightarrow> HevSocks5Authenticator option" where
  "hev_socks5_authenticator_clear self =
     Option.bind (hev_rbtree_first (a_tree self))
       (\<lambda>n. if n = NULL then Some self
            else Option.bind (clear_step self n) hev_socks5_authenticator_clear)"

definition auth_ref :: "HevSocks5Authenticator \<Rightarrow> HevSocks5Authenticator" where
  "auth_ref self = self\<lparr>a_refs := a_refs self + 1\<rparr>"

text \<open>Dropping the last reference runs \<^verbatim>\<open>hev_socks5_authenticator_destruct\<close>, which clears the tree.\<close>

definition auth_unref :: "HevSocks5Authenticator \<Rightarrow> HevSocks5Authenticator option" where
  "auth_unref self =
     (let rc = a_refs self;
          self = self\<lparr>a_refs := a_refs self - 1\<rparr>
      in if rc > 1 then Some self else hev_socks5_authenticator_clear self)"

subsection \<open>The order of names\<close>

lemma memcmp_refl [simp]: "memcmp xs xs = 0"
  by (induction xs) auto

lemma memcmp_eq_0: "length xs = length ys \<Longrightarrow> memcmp xs ys = 0 \<longleftrightarrow> xs = ys"
proof (induction xs ys rule: list_induct2)
  case (Cons x xs y ys)
  then show ?case by (auto simp: word_unat_eq_iff)
qed simp

lemma memcmp_flip: "memcmp xs ys < 0 \<longleftrightarrow> 0 < memcmp ys xs"
  by (induction xs ys rule: memcmp.induct) auto

lemma memcmp_trans:
  "length xs = length ys \<Longrightarrow> length ys = length zs \<Longrightarrow> 0 < memcmp xs ys \<Longrightarrow> 0 < memcmp ys zs \<Longrightarrow>
   0 < memcmp xs zs"
proof (induction xs ys zs rule: list_induct3)
  case (Cons x xs y ys z zs)
  then show ?case by (auto split: if_splits)
qed simp

lemma name_cmp_eq_0 [simp]: "name_cmp a b = 0 \<longleftrightarrow> a = b"
  by (auto simp: name_cmp_def memcmp_eq_0)

lemma name_cmp_flip: "name_cmp a b < 0 \<longleftrightarrow> 0 < name_cmp b a"
  by (auto simp: name_cmp_def memcmp_flip)

lemma name_cmp_trans: "0 < name_cmp a b \<Longrightarrow> 0 < name_cmp b c \<Longrightarrow> 0 < name_cmp a c"
  by (auto simp: name_cmp_def split: if_splits intro: memcmp_trans [of a b c])

subsection \<open>The authenticator is a finite map\<close>

text \<open>The tree lists the users with falling names.\<close>

definition auth_inv :: "HevSocks5Authenticator \<Rightarrow> ptr list \<Rightarrow> bool" where
  "auth_inv self xs \<longleftrightarrow>
     rb_index (a_tree self) xs \<and>
     sorted_wrt (\<lambda>x y. 0 < name_cmp (u_name (a_users self x)) (u_name (a_users self y))) xs"

interpretation names: key_order name_cmp "\<lambda>_. True"
  by unfold_locales (simp_all add: name_cmp_flip, metis name_cmp_trans)

lemma auth_falling:
  "auth_inv self xs \<longleftrightarrow> rb_index (a_tree self) xs \<and> names.falling (\<lambda>x. u_name (a_users self x)) xs"
  by (simp add: auth_inv_def names.falling_def)

lemma auth_cmp_mono:
  "sorted_wrt (\<lambda>x y. 0 < name_cmp (f x) (f y)) xs \<Longrightarrow> cmp_mono (\<lambda>x. name_cmp (f x) n) xs"
  by (rule names.falling_mono) (simp_all add: names.falling_def)

lemma auth_names_distinct:
  "auth_inv self xs \<Longrightarrow> x \<in> set xs \<Longrightarrow> y \<in> set xs \<Longrightarrow> u_name (a_users self x) = u_name (a_users self y) \<Longrightarrow> x = y"
  unfolding auth_falling by (blast dest: names.falling_inj)

lemma auth_get_hit:
  assumes "auth_inv self xs" "x \<in> set xs"
  shows "hev_socks5_authenticator_get self (u_name (a_users self x)) = Some x"
  using assms rb.find_hit [of "a_tree self" xs _ x]
  by (simp add: hev_socks5_authenticator_get_def auth_inv_def auth_cmp_mono)

lemma auth_get_miss:
  assumes "auth_inv self xs" "\<forall>x\<in>set xs. u_name (a_users self x) \<noteq> n"
  shows "hev_socks5_authenticator_get self n = Some NULL"
proof -
  have "\<exists>pos. rb_find (a_tree self) (\<lambda>x. name_cmp (u_name (a_users self x)) n) = Some (Inr pos)"
    using rb.find_miss [of "a_tree self" xs "\<lambda>x. name_cmp (u_name (a_users self x)) n"] assms
    by (auto simp: auth_inv_def auth_cmp_mono)
  then show ?thesis by (auto simp: hev_socks5_authenticator_get_def)
qed

lemma auth_add_new:
  assumes inv: "auth_inv self xs" and u: "u \<notin> set xs" "rb_fit u"
    and n: "\<forall>x\<in>set xs. u_name (a_users self x) \<noteq> u_name (a_users self u)"
  shows "\<exists>self' xs'. hev_socks5_authenticator_add self u = Some (0, self') \<and> auth_inv self' xs' \<and>
    set xs' = insert u (set xs) \<and> a_users self' = a_users self"
proof -
  let ?f = "\<lambda>x. u_name (a_users self x)"
  let ?cmp = "\<lambda>x. name_cmp (?f x) (?f u)"
  let ?ys = "filter (\<lambda>x. 0 < ?cmp x) xs @ u # filter (\<lambda>x. ?cmp x < 0) xs"
  have i: "rb_index (a_tree self) xs" "cmp_mono ?cmp xs" "\<And>x. x \<in> set xs \<Longrightarrow> ?cmp x \<noteq> 0"
    using inv n by (auto simp: auth_inv_def auth_cmp_mono)
  from rb.find_miss [OF i] u obtain parent link t where
    t: "rb_find (a_tree self) ?cmp = Some (Inr (parent, link))"
      "hev_rbtree_insert_color (hev_rbtree_node_link (a_tree self) u parent link) u = Some t"
      "rb_index t ?ys"
    by (auto simp: rb_insert_at_def rb_insert_def)
  have "hev_socks5_authenticator_add self u = Some (0, self\<lparr>a_tree := t\<rparr>)"
    using t by (simp add: hev_socks5_authenticator_add_def)
  moreover have "auth_inv (self\<lparr>a_tree := t\<rparr>) ?ys"
    using t(3) names.falling_insert [of ?f xs u] inv by (simp add: auth_falling)
  moreover have "0 < ?cmp x \<or> ?cmp x < 0" if "x \<in> set xs" for x using i(3) [OF that] by linarith
  then have "set ?ys = insert u (set xs)" by auto
  ultimately show ?thesis by (intro exI [of _ "self\<lparr>a_tree := t\<rparr>"] exI [of _ ?ys]) simp
qed

lemma auth_add_dup:
  assumes inv: "auth_inv self xs" and x: "x \<in> set xs" "u_name (a_users self x) = u_name (a_users self u)"
  shows "hev_socks5_authenticator_add self u = Some (-1, self)"
  using rb.find_hit [of "a_tree self" xs _ x] assms
  by (simp add: hev_socks5_authenticator_add_def auth_inv_def auth_cmp_mono)

lemma user_unref_name [simp]: "u_name (user_unref u) = u_name u" "u_pass (user_unref u) = u_pass u"
  by (simp_all add: user_unref_def hev_socks5_user_destruct_def Let_def)

lemma auth_remove:
  assumes inv: "auth_inv self xs" and x: "x \<in> set xs"
  shows "\<exists>t. hev_rbtree_erase (a_tree self) x = Some t \<and>
    auth_inv (self\<lparr>a_tree := t, a_users := (a_users self)(x := user_unref (a_users self x))\<rparr>) (remove1 x xs)"
proof -
  from rb.erase_idx [of "a_tree self" xs x] inv x obtain t where
    t: "hev_rbtree_erase (a_tree self) x = Some t" "rb_index t (remove1 x xs)" by (auto simp: auth_inv_def)
  have "(\<lambda>y. u_name (((a_users self)(x := user_unref (a_users self x))) y)) = (\<lambda>y. u_name (a_users self y))"
    by (rule ext) simp
  moreover have "names.falling (\<lambda>y. u_name (a_users self y)) (remove1 x xs)"
    using inv by (auto simp: auth_falling intro: names.falling_remove dest: rb_index_distinct)
  ultimately show ?thesis using t by (auto simp: auth_falling simp del: fun_upd_apply)
qed

lemma auth_clear_ends:
  "auth_inv self xs \<Longrightarrow> \<exists>self'. hev_socks5_authenticator_clear self = Some self' \<and> auth_inv self' [] \<and>
     (\<forall>p. a_users self' p = (if p \<in> set xs then user_unref (a_users self p) else a_users self p))"
proof (induction xs arbitrary: self)
  case Nil
  then have "hev_rbtree_first (a_tree self) = Some NULL" using first_index by (auto simp: auth_inv_def)
  with Nil show ?case by (subst hev_socks5_authenticator_clear.simps) auto
next
  case (Cons x xs)
  let ?self = "\<lambda>t. self\<lparr>a_tree := t, a_users := (a_users self)(x := user_unref (a_users self x))\<rparr>"
  from auth_remove [OF Cons.prems, of x] obtain t where
    t: "hev_rbtree_erase (a_tree self) x = Some t" "auth_inv (?self t) xs" by auto
  have x: "hev_rbtree_first (a_tree self) = Some x" "x \<noteq> NULL" "x \<notin> set xs"
    using first_index [of "a_tree self" "x # xs"] rb_index_nonnull [of "a_tree self" "x # xs" x]
      rb_index_distinct [of "a_tree self" "x # xs"] Cons.prems
    by (auto simp: auth_inv_def)
  from Cons.IH [OF t(2)] t(1) x show ?case
    by (subst hev_socks5_authenticator_clear.simps) (auto simp: clear_step_def)
qed

lemma user_check_iff: "0 \<le> hev_socks5_user_check u pass (length pass) \<longleftrightarrow> u_pass u = pass"
  by (auto simp: hev_socks5_user_check_def hev_socks5_user_checker_def memcmp_eq_0)

subsection \<open>Properties\<close>

text \<open>C21 Adding a user whose name is new makes exactly that name resolve to it and leaves every other
  lookup as it was; adding a user whose name is taken is refused and changes nothing. Both end.\<close>

theorem auth_add_correct:
  assumes "auth_inv self xs" "u \<notin> set xs" "rb_fit u"
  shows "if \<exists>x\<in>set xs. u_name (a_users self x) = u_name (a_users self u)
    then hev_socks5_authenticator_add self u = Some (-1, self)
    else \<exists>self' xs'. hev_socks5_authenticator_add self u = Some (0, self') \<and> auth_inv self' xs' \<and>
      (\<forall>n. hev_socks5_authenticator_get self' n =
        (if n = u_name (a_users self u) then Some u else hev_socks5_authenticator_get self n))"
proof (cases "\<exists>x\<in>set xs. u_name (a_users self x) = u_name (a_users self u)")
  case True
  with auth_add_dup [OF assms(1)] show ?thesis by auto
next
  case False
  then obtain self' xs' where a: "hev_socks5_authenticator_add self u = Some (0, self')"
    "auth_inv self' xs'" "set xs' = insert u (set xs)" "a_users self' = a_users self"
    using auth_add_new [OF assms] by blast
  have "hev_socks5_authenticator_get self' n =
      (if n = u_name (a_users self u) then Some u else hev_socks5_authenticator_get self n)" for n
  proof (cases "\<exists>x\<in>set xs. u_name (a_users self x) = n")
    case True
    then obtain x where x: "x \<in> set xs" "u_name (a_users self x) = n" by auto
    with auth_get_hit [OF a(2), of x] auth_get_hit [OF assms(1) x(1)] a(3,4) False show ?thesis by auto
  next
    case none: False
    show ?thesis
    proof (cases "n = u_name (a_users self u)")
      case True
      with auth_get_hit [OF a(2), of u] a(3,4) show ?thesis by simp
    next
      case False
      with none auth_get_miss [OF assms(1), of n] auth_get_miss [OF a(2), of n] a(3,4)
      show ?thesis by auto
    qed
  qed
  with a False show ?thesis by auto
qed

definition demo_user :: "u8 list \<Rightarrow> HevSocks5User" where
  "demo_user n = hev_socks5_user_construct n (length n) [1, 2] 2"

definition demo_auth :: HevSocks5Authenticator where
  "demo_auth = \<lparr>a_tree = demo_rb, a_users = (\<lambda>p. demo_user (if p = 4 then [98] else if p = 8 then [97] else [99])),
     a_refs = 1\<rparr>"

lemma demo_auth_inv: "auth_inv demo_auth [4, 8]"
  using demo_rb_index
  by (simp add: auth_inv_def demo_auth_def demo_user_def hev_socks5_user_construct_def name_cmp_def)

theorem auth_add_correct_witness:
  "\<exists>self'. hev_socks5_authenticator_add demo_auth 16 = Some (0, self') \<and>
     hev_socks5_authenticator_get self' [99] = Some 16"
proof -
  have "rb_fit 16" by (simp add: rb_fit_def al_def)
  with auth_add_correct [OF demo_auth_inv, of 16] show ?thesis
    by (auto simp: demo_auth_def demo_user_def hev_socks5_user_construct_def)
qed

text \<open>Deleting a name ends; it removes exactly that user, drops one reference to it, and reports
  failure without any change when the name is unknown.\<close>

theorem auth_del_correct:
  assumes "auth_inv self xs"
  shows "if \<exists>x\<in>set xs. u_name (a_users self x) = name
    then \<exists>self' xs' x. x \<in> set xs \<and> u_name (a_users self x) = name \<and>
      hev_socks5_authenticator_del self name = Some (0, self') \<and> auth_inv self' xs' \<and>
      hev_socks5_authenticator_get self' name = Some NULL \<and>
      (\<forall>y\<in>set xs. y \<noteq> x \<longrightarrow> hev_socks5_authenticator_get self' (u_name (a_users self y)) = Some y) \<and>
      a_users self' x = user_unref (a_users self x)
    else hev_socks5_authenticator_del self name = Some (-1, self)"
proof (cases "\<exists>x\<in>set xs. u_name (a_users self x) = name")
  case True
  then obtain x where x: "x \<in> set xs" "u_name (a_users self x) = name" by auto
  have fd: "rb_find (a_tree self) (\<lambda>this. name_cmp (u_name (a_users self this)) name) = Some (Inl x)"
    using rb.find_hit [of "a_tree self" xs _ x] assms x by (simp add: auth_inv_def auth_cmp_mono)
  let ?self = "\<lambda>t. self\<lparr>a_tree := t, a_users := (a_users self)(x := user_unref (a_users self x))\<rparr>"
  from auth_remove [OF assms x(1)] obtain t where
    t: "hev_rbtree_erase (a_tree self) x = Some t" "auth_inv (?self t) (remove1 x xs)" by auto
  have d: "distinct xs" using assms by (auto simp: auth_inv_def dest: rb_index_distinct)
  have nm: "u_name (a_users (?self t) y) = u_name (a_users self y)" for y by simp
  have "hev_socks5_authenticator_del self name = Some (0, ?self t)"
    using fd t(1) by (simp add: hev_socks5_authenticator_del_def)
  moreover have "hev_socks5_authenticator_get (?self t) name = Some NULL"
    using auth_get_miss [OF t(2), of name] auth_names_distinct [OF assms _ x(1)] d x(2) by (auto simp: nm)
  moreover have "hev_socks5_authenticator_get (?self t) (u_name (a_users self y)) = Some y"
    if "y \<in> set xs" "y \<noteq> x" for y using auth_get_hit [OF t(2), of y] that d by simp
  moreover have "a_users (?self t) x = user_unref (a_users self x)" by simp
  ultimately show ?thesis using True x t(2) by auto
next
  case False
  then have "\<exists>pos. rb_find (a_tree self) (\<lambda>this. name_cmp (u_name (a_users self this)) name) = Some (Inr pos)"
    using rb.find_miss [of "a_tree self" xs "\<lambda>x. name_cmp (u_name (a_users self x)) name"] assms
    by (auto simp: auth_inv_def auth_cmp_mono)
  with False show ?thesis by (auto simp: hev_socks5_authenticator_del_def)
qed

theorem auth_del_correct_witness:
  "\<exists>self'. hev_socks5_authenticator_del demo_auth [97] = Some (0, self') \<and>
     hev_socks5_authenticator_get self' [97] = Some NULL"
  using auth_del_correct [OF demo_auth_inv, of "[97]"]
  by (auto simp: demo_auth_def demo_user_def hev_socks5_user_construct_def split: if_splits)

end
