(* ===== verification/Socks5_Server.thy ===== *)
theory Socks5_Server
  imports Socks5_Client Socks5_Auth
begin

text \<open>
  The SOCKS5 server of \<^verbatim>\<open>core/src/hev-socks5-server.c\<close>: method negotiation, user/password
  authentication, request parsing, the three commands and the reply. The union of the object's
  last field is a datatype; the authenticator is threaded through the calls that change its
  reference counts. \<open>None\<close> stands for a search loop of the authenticator that does not end.
\<close>

datatype srv_obj = ObjNone | ObjAuth | ObjUser ptr

record HevSocks5Server = HevSocks5 +
  fds0 :: int
  fds1 :: int
  s_obj :: srv_obj

text \<open>
  The answers of the operating system to the calls of one request: the two sockets, the socket
  options, \<^verbatim>\<open>getsockname\<close> on the control connection and on the bound socket, \<^verbatim>\<open>bind\<close>, and the
  uninitialised stack variables.
\<close>

record srv_env =
  v_sock0 :: net_env
  v_sock1 :: net_env
  v_reuse :: int
  v_name_tcp :: "sockaddr_in6 option"
  v_bind :: int
  v_name_udp :: "sockaddr_in6 option"
  v_addr :: sockaddr_in6
  v_mem :: "u8 list"

definition server0 :: HevSocks5Server where
  "server0 =
     \<lparr>fd = 0, timeout = 0, udp_associated = False, s_type = HEV_SOCKS5_TYPE_NONE, addr_family = 0,
      rxq = [], txq = [], sent = [], eagain = False, closed = [], fds0 = 0, fds1 = 0, s_obj = ObjNone\<rparr>"

definition hev_socks5_server_construct ::
  "'a HevSocks5Server_scheme \<Rightarrow> int \<Rightarrow> int \<times> 'a HevSocks5Server_scheme" where
  "hev_socks5_server_construct self sock =
     (let (res, self) = hev_socks5_construct self HEV_SOCKS5_TYPE_NONE
      in if res < 0 then (res, self)
         else (0, self\<lparr>fd := sock, fds0 := -1, fds1 := -1\<rparr>))"

definition hev_socks5_server_new :: "bool \<Rightarrow> int \<Rightarrow> HevSocks5Server option" where
  "hev_socks5_server_new malloc_ok sock =
     (if \<not> malloc_ok then None
      else let (res, self) = hev_socks5_server_construct server0 sock
           in if res < 0 then None else Some self)"

text \<open>\<^verbatim>\<open>hev_socks5_server_set_auth\<close> with the authenticator \<open>A\<close>; \<open>old\<close> is one set before.\<close>

definition hev_socks5_server_set_auth ::
  "'a HevSocks5Server_scheme \<Rightarrow> HevSocks5Authenticator \<Rightarrow> HevSocks5Authenticator option \<Rightarrow>
   ('a HevSocks5Server_scheme \<times> HevSocks5Authenticator \<times> HevSocks5Authenticator option) option" where
  "hev_socks5_server_set_auth self A old =
     (if s_obj self \<noteq> ObjNone then
        (case old of
           None \<Rightarrow> None
         | Some B \<Rightarrow> (case auth_unref B of
                        None \<Rightarrow> None
                      | Some B \<Rightarrow> Some (self\<lparr>s_obj := ObjAuth\<rparr>, auth_ref A, Some B)))
      else Some (self\<lparr>s_obj := ObjAuth\<rparr>, auth_ref A, old))"

subsection \<open>Authentication\<close>

definition hev_socks5_server_read_auth_method ::
  "'a HevSocks5Server_scheme \<Rightarrow> int \<times> 'a HevSocks5Server_scheme" where
  "hev_socks5_server_read_auth_method self =
     (let (res, auth, self) = hev_task_io_socket_recv task_io_yielder True False 2 self
      in if res \<noteq> 2 then (-1, self)
         else if auth ! 0 \<noteq> HEV_SOCKS5_VERSION_5 then (-1, self)
         else let method_len = unat (auth ! 1);
                  (res, methods, self) = hev_task_io_socket_recv task_io_yielder True False method_len self
              in if res \<noteq> int method_len then (-1, self)
                 else let method = (if s_obj self \<noteq> ObjNone then HEV_SOCKS5_AUTH_METHOD_USER
                                    else HEV_SOCKS5_AUTH_METHOD_NONE)
                      in (if method \<in> set methods then int (unat method) else -1, self))"

definition hev_socks5_server_write_auth_method ::
  "'a HevSocks5Server_scheme \<Rightarrow> int \<Rightarrow> int \<times> 'a HevSocks5Server_scheme" where
  "hev_socks5_server_write_auth_method self auth_method =
     (let (res, self) = hev_task_io_socket_send task_io_yielder True False
                          [HEV_SOCKS5_VERSION_5, of_int auth_method] self
      in if res \<le> 0 then (-1, self) else (0, self))"

definition hev_socks5_server_read_auth_user ::
  "'a HevSocks5Server_scheme \<Rightarrow> HevSocks5Authenticator \<Rightarrow>
   (int \<times> 'a HevSocks5Server_scheme \<times> HevSocks5Authenticator) option" where
  "hev_socks5_server_read_auth_user self A =
     (let (res, head, self) = hev_task_io_socket_recv task_io_yielder True False 2 self
      in if res \<noteq> 2 then Some (-1, self, A)
         else if head ! 0 \<noteq> 1 then Some (-1, self, A)
         else let nlen = unat (head ! 1)
         in if nlen = 0 then Some (-1, self, A)
         else let (res, name, self) = hev_task_io_socket_recv task_io_yielder True False (nlen + 1) self
         in if res \<noteq> int (nlen + 1) then Some (-1, self, A)
         else let plen = unat (name ! nlen)
         in if plen = 0 then Some (-1, self, A)
         else let (res, pass, self) = hev_task_io_socket_recv task_io_yielder True False plen self
         in if res \<noteq> int plen then Some (-1, self, A)
         else case hev_socks5_authenticator_get A (take nlen name) of
                None \<Rightarrow> None
              | Some user \<Rightarrow>
                  if user = NULL then Some (-1, self, A)
                  else if hev_socks5_user_check (a_users A user) pass plen < 0 then Some (-1, self, A)
                  else (case auth_unref (A\<lparr>a_users := (a_users A)(user := user_ref (a_users A user))\<rparr>) of
                          None \<Rightarrow> None
                        | Some A \<Rightarrow> Some (0, self\<lparr>s_obj := ObjUser user\<rparr>, A)))"

definition hev_socks5_server_write_auth_user ::
  "'a HevSocks5Server_scheme \<Rightarrow> int \<Rightarrow> int \<times> 'a HevSocks5Server_scheme" where
  "hev_socks5_server_write_auth_user self auth_res =
     (let (res, self) = hev_task_io_socket_send task_io_yielder True False [1, of_int auth_res] self
      in if res \<le> 0 then (-1, self) else (0, self))"

definition hev_socks5_server_auth ::
  "'a HevSocks5Server_scheme \<Rightarrow> HevSocks5Authenticator \<Rightarrow>
   (int \<times> 'a HevSocks5Server_scheme \<times> HevSocks5Authenticator) option" where
  "hev_socks5_server_auth self A =
     (let (method, self) = hev_socks5_server_read_auth_method self;
          (res, self) = hev_socks5_server_write_auth_method self method
      in if res < 0 then Some (-1, self, A)
         else if method = 0 then Some (0, self, A)
         else if method = 2 then
           (case hev_socks5_server_read_auth_user self A of
              None \<Rightarrow> None
            | Some (res, self, A) \<Rightarrow>
                (let (res2, self) = hev_socks5_server_write_auth_user self res
                 in if res < 0 \<or> res2 < 0 then Some (-1, self, A) else Some (0, self, A)))
         else Some (-1, self, A))"

subsection \<open>Requests\<close>

text \<open>\<^verbatim>\<open>hev_socks5_server_read_request\<close>: its result, \<^verbatim>\<open>cmd\<close> (\<open>None\<close> if not assigned), \<^verbatim>\<open>rep\<close>, \<^verbatim>\<open>addr\<close>.\<close>

definition hev_socks5_server_read_request ::
  "resolver \<Rightarrow> 'a HevSocks5Server_scheme \<Rightarrow> u8 \<Rightarrow> sockaddr_in6 \<Rightarrow>
   int \<times> u8 option \<times> u8 \<times> sockaddr_in6 \<times> 'a HevSocks5Server_scheme" where
  "hev_socks5_server_read_request R self rep addr =
     (let (res, req, self) = hev_task_io_socket_recv task_io_yielder True False 5 self
      in if res \<noteq> 5 then (-1, None, rep, addr, self)
         else if req ! 0 \<noteq> HEV_SOCKS5_VERSION_5 then (0, None, HEV_SOCKS5_RES_REP_FAIL, addr, self)
         else if req ! 3 \<noteq> HEV_SOCKS5_ADDR_TYPE_IPV4 \<and> req ! 3 \<noteq> HEV_SOCKS5_ADDR_TYPE_IPV6 \<and>
                 req ! 3 \<noteq> HEV_SOCKS5_ADDR_TYPE_NAME
           then (0, None, HEV_SOCKS5_RES_REP_ADDR, addr, self)
         else let addrlen = (if req ! 3 = HEV_SOCKS5_ADDR_TYPE_IPV4 then 5
                             else if req ! 3 = HEV_SOCKS5_ADDR_TYPE_IPV6 then 17
                             else 2 + unat (req ! 4));
                  (res, bs, self) = hev_task_io_socket_recv task_io_yielder True False addrlen self
              in if res \<noteq> int addrlen then (0, None, HEV_SOCKS5_RES_REP_ADDR, addr, self)
                 else let (res, addr, family) =
                            hev_socks5_addr_into_sockaddr6 R (drop 3 req @ bs) addr
                              (hev_socks5_get_addr_family self)
                      in if res < 0 then (0, None, HEV_SOCKS5_RES_REP_ADDR, addr, self)
                         else (0, Some (req ! 1), rep, addr, hev_socks5_set_addr_family self family))"

definition hev_socks5_server_write_response ::
  "u8 list \<Rightarrow> 'a HevSocks5Server_scheme \<Rightarrow> u8 \<Rightarrow> sockaddr_in6 \<Rightarrow> int \<times> 'a HevSocks5Server_scheme" where
  "hev_socks5_server_write_response mem self rep addr =
     (let (ret, raddr) = hev_socks5_addr_from_sockaddr6 mem addr;
          (ret, self) = hev_task_io_socket_send task_io_yielder True False
                          ([HEV_SOCKS5_VERSION_5, rep, 0] @ take (nat ret) raddr) self
      in if ret \<le> 0 then (-1, self) else (0, self))"

definition hev_socks5_server_connect ::
  "HevSocks5Misc \<Rightarrow> srv_env \<Rightarrow> 'a HevSocks5Server_scheme \<Rightarrow> sockaddr_in6 \<Rightarrow> int \<times> 'a HevSocks5Server_scheme" where
  "hev_socks5_server_connect G V self addr =
     (let (s, cl) = hev_socks5_socket (v_sock0 V);
          self = self\<lparr>closed := closed self @ cl\<rparr>
      in if s < 0 then (-1, self)
         else if hev_socks5_bind self s < 0 then (-1, self\<lparr>closed := closed self @ [s]\<rparr>)
         else let self = hev_socks5_set_timeout self (connect_timeout G);
                  (res, _, self) = hev_task_io_socket_connect task_io_yielder (e_conn (v_sock0 V)) self
              in if res < 0 then (-1, self\<lparr>closed := closed self @ [s]\<rparr>)
                 else (0, (hev_socks5_set_timeout self (tcp_timeout G))\<lparr>fds0 := s\<rparr>))"

definition hev_socks5_server_udp_bind ::
  "srv_env \<Rightarrow> sockaddr_in6 \<Rightarrow> int \<times> sockaddr_in6" where
  "hev_socks5_server_udp_bind V src =
     (case v_name_tcp V of
        None \<Rightarrow> (-1, src)
      | Some name \<Rightarrow>
          (let src = name\<lparr>sin6_port := 0\<rparr>
           in if v_bind V < 0 then (-1, src)
              else case v_name_udp V of None \<Rightarrow> (-1, src) | Some name \<Rightarrow> (0, name)))"

text \<open>\<^verbatim>\<open>hev_socks5_server_bind\<close>; \<open>None\<close> is the call with a null address.\<close>

definition hev_socks5_server_bind ::
  "srv_env \<Rightarrow> 'a HevSocks5Server_scheme \<Rightarrow> sockaddr_in6 option \<Rightarrow>
   int \<times> sockaddr_in6 option \<times> 'a HevSocks5Server_scheme" where
  "hev_socks5_server_bind V self addr =
     (let (s, cl) = hev_socks5_socket (v_sock0 V);
          self = self\<lparr>closed := closed self @ cl\<rparr>
      in if s < 0 then (-1, addr, self)
         else let self = self\<lparr>fds0 := s\<rparr>
         in case addr of
              None \<Rightarrow> (0, None, self)
            | Some a \<Rightarrow>
                (let (s, cl) = hev_socks5_socket (v_sock1 V);
                     self = self\<lparr>closed := closed self @ cl\<rparr>
                 in if s < 0 then (-1, addr, self)
                    else if v_reuse V < 0 then (-1, addr, self\<lparr>closed := closed self @ [s]\<rparr>)
                    else let (res, a) = hev_socks5_server_udp_bind V a
                         in if res < 0 then (-1, Some a, self\<lparr>closed := closed self @ [s]\<rparr>)
                            else (0, Some a, self\<lparr>fds1 := s\<rparr>)))"

text \<open>The \<^verbatim>\<open>switch\<close> over the command, run when the request was read without an error.\<close>

definition server_dispatch ::
  "HevSocks5Misc \<Rightarrow> srv_env \<Rightarrow> 'a HevSocks5Server_scheme \<Rightarrow> u8 option \<Rightarrow> u8 \<Rightarrow> sockaddr_in6 \<Rightarrow>
   u8 \<times> sockaddr_in6 \<times> 'a HevSocks5Server_scheme" where
  "server_dispatch G V self cmd rep addr =
     (if cmd = Some HEV_SOCKS5_REQ_CMD_CONNECT then
        (let (res, self) = hev_socks5_server_connect G V self addr
         in (if res < 0 then HEV_SOCKS5_RES_REP_HOST else rep, addr,
             self\<lparr>s_type := HEV_SOCKS5_TYPE_TCP\<rparr>))
      else if cmd = Some HEV_SOCKS5_REQ_CMD_UDP_ASC then
        (let (res, addr', self) = hev_socks5_server_bind V self (Some addr)
         in (if res < 0 then HEV_SOCKS5_RES_REP_FAIL else rep, the addr',
             self\<lparr>s_type := HEV_SOCKS5_TYPE_UDP_IN_UDP\<rparr>))
      else if cmd = Some HEV_SOCKS5_REQ_CMD_FWD_UDP then
        (let (res, _, self) = hev_socks5_server_bind V self None
         in (if res < 0 then HEV_SOCKS5_RES_REP_FAIL else rep, addr,
             self\<lparr>s_type := HEV_SOCKS5_TYPE_UDP_IN_TCP\<rparr>))
      else (HEV_SOCKS5_RES_REP_IMPL, addr, self))"

definition hev_socks5_server_handshake ::
  "HevSocks5Misc \<Rightarrow> resolver \<Rightarrow> srv_env \<Rightarrow> 'a HevSocks5Server_scheme \<Rightarrow> HevSocks5Authenticator \<Rightarrow>
   (int \<times> 'a HevSocks5Server_scheme \<times> HevSocks5Authenticator) option" where
  "hev_socks5_server_handshake G R V self A =
     (let self = hev_socks5_set_timeout self (tcp_timeout G)
      in case hev_socks5_server_auth self A of
           None \<Rightarrow> None
         | Some (res, self, A) \<Rightarrow>
             if res < 0 then Some (-1, self, A)
             else let (res, cmd, rep, addr, self) =
                        hev_socks5_server_read_request R self HEV_SOCKS5_RES_REP_SUCC (v_addr V)
             in if res < 0 then Some (-1, self, A)
             else let (rep, addr, self) =
                        (if rep = HEV_SOCKS5_RES_REP_SUCC then server_dispatch G V self cmd rep addr
                         else (rep, addr, self));
                      (res, self) = hev_socks5_server_write_response (v_mem V) self rep addr
             in Some (if res < 0 \<or> rep \<noteq> HEV_SOCKS5_RES_REP_SUCC then -1 else 0, self, A))"

datatype splice = TcpSplice int | UdpSplice int

text \<open>\<^verbatim>\<open>hev_socks5_server_service\<close>: which splice loop is entered, with which descriptor.\<close>

definition hev_socks5_server_service ::
  "HevSocks5Misc \<Rightarrow> 'a HevSocks5Server_scheme \<Rightarrow> int \<times> splice option \<times> 'a HevSocks5Server_scheme" where
  "hev_socks5_server_service G self =
     (case s_type self of
        HEV_SOCKS5_TYPE_TCP \<Rightarrow> (0, Some (TcpSplice (fds0 self)), self)
      | HEV_SOCKS5_TYPE_UDP_IN_UDP \<Rightarrow>
          (0, Some (UdpSplice (fds0 self)), hev_socks5_set_timeout self (udp_timeout G))
      | HEV_SOCKS5_TYPE_UDP_IN_TCP \<Rightarrow>
          (0, Some (UdpSplice (fds0 self)), hev_socks5_set_timeout self (udp_timeout G))
      | _ \<Rightarrow> (-1, None, self))"

definition hev_socks5_server_run ::
  "HevSocks5Misc \<Rightarrow> resolver \<Rightarrow> srv_env \<Rightarrow> 'a HevSocks5Server_scheme \<Rightarrow> HevSocks5Authenticator \<Rightarrow>
   (int \<times> splice option \<times> 'a HevSocks5Server_scheme \<times> HevSocks5Authenticator) option" where
  "hev_socks5_server_run G R V self A =
     (case hev_socks5_server_handshake G R V self A of
        None \<Rightarrow> None
      | Some (res, self, A) \<Rightarrow>
          if res < 0 then Some (-1, None, self, A)
          else let (res, sp, self) = hev_socks5_server_service G self
               in Some (if res < 0 then -1 else 0, sp, self, A))"

definition hev_socks5_server_get_fd :: "'a HevSocks5Server_scheme \<Rightarrow> int" where
  "hev_socks5_server_get_fd self =
     (case s_type self of
        HEV_SOCKS5_TYPE_UDP_IN_TCP \<Rightarrow> fd self
      | HEV_SOCKS5_TYPE_UDP_IN_UDP \<Rightarrow> fds1 self
      | _ \<Rightarrow> -1)"

text \<open>\<^verbatim>\<open>hev_socks5_server_destruct\<close>; the reference it drops is the user's or the authenticator's.\<close>

definition hev_socks5_server_destruct ::
  "'a HevSocks5Server_scheme \<Rightarrow> HevSocks5Authenticator \<Rightarrow>
   ('a HevSocks5Server_scheme \<times> HevSocks5Authenticator) option" where
  "hev_socks5_server_destruct self A =
     (let self = (if fds0 self \<ge> 0 then self\<lparr>closed := closed self @ [fds0 self]\<rparr> else self);
          self = (if fds1 self \<ge> 0 then self\<lparr>closed := closed self @ [fds1 self]\<rparr> else self);
          A = (case s_obj self of
                 ObjNone \<Rightarrow> Some A
               | ObjUser u \<Rightarrow> Some (A\<lparr>a_users := (a_users A)(u := user_unref (a_users A u))\<rparr>)
               | ObjAuth \<Rightarrow> auth_unref A)
      in case A of None \<Rightarrow> None | Some A \<Rightarrow> Some (hev_socks5_destruct self, A))"

subsection \<open>What a successful authentication has read\<close>

lemma more_obj:
  fixes a b :: "'a HevSocks5Server_scheme"
  shows "HevSocks5.more a = HevSocks5.more b \<Longrightarrow> s_obj a = s_obj b"
  by (cases a; cases b) simp

lemma server_read_method:
  assumes "hev_socks5_server_read_auth_method self = (m, self')"
  shows "HevSocks5.more self' = HevSocks5.more self" "s_type self' = s_type self" "m = -1 \<or> 0 \<le> m"
    "0 \<le> m \<Longrightarrow> \<exists>ms. rx_data (rxq self) = [5, of_nat (length ms)] @ ms @ rx_data (rxq self') \<and>
      m = (if s_obj self \<noteq> ObjNone then 2 else 0) \<and> of_int m \<in> set ms"
proof -
  obtain r h s1 where h: "hev_task_io_socket_recv task_io_yielder True False 2 self = (r, h, s1)"
    by (metis prod_cases3)
  obtain r2 ms s2 where b: "hev_task_io_socket_recv task_io_yielder True False (unat (h ! 1)) s1 = (r2, ms, s2)"
    by (metis prod_cases3)
  note k1 = recv_keeps [OF h] and k2 = recv_keeps [OF b]
  have "self' = s1 \<or> self' = s2" "m = -1 \<or> 0 \<le> m"
    using assms h b by (auto simp: hev_socks5_server_read_auth_method_def Let_def split: if_splits)
  then show "HevSocks5.more self' = HevSocks5.more self" "s_type self' = s_type self" "m = -1 \<or> 0 \<le> m"
    using k1 k2 by auto
  assume "0 \<le> m"
  then have g: "r = int 2" "h ! 0 = 5" "r2 = int (unat (h ! 1))" "self' = s2"
    "m = (if s_obj s2 \<noteq> ObjNone then 2 else 0)" "of_int m \<in> set ms"
    using assms h b by (auto simp: hev_socks5_server_read_auth_method_def Let_def split: if_splits)
  have l: "length h = 2" "length ms = unat (h ! 1)"
    using recv_length [of task_io_yielder False 2 self h s1]
      recv_length [of task_io_yielder False "unat (h ! 1)" s1 ms s2] h b g by auto
  then have hd: "h = [5, of_nat (length ms)]" using two_bytes [of h] g(2) by simp
  have "s_obj s2 = s_obj self" using more_obj [of s2 self] k1(4) k2(4) by simp
  then have "rx_data (rxq self) = [5, of_nat (length ms)] @ ms @ rx_data (rxq self') \<and>
      m = (if s_obj self \<noteq> ObjNone then 2 else 0) \<and> of_int m \<in> set ms"
    using k1(5) k2(5) g(4-6) hd by simp
  then show "\<exists>ms. rx_data (rxq self) = [5, of_nat (length ms)] @ ms @ rx_data (rxq self') \<and>
      m = (if s_obj self \<noteq> ObjNone then 2 else 0) \<and> of_int m \<in> set ms" by blast
qed

lemma server_write_method:
  assumes "hev_socks5_server_write_auth_method self m = (r, self')"
  shows "rxq self' = rxq self" "HevSocks5.more self' = HevSocks5.more self" "s_type self' = s_type self"
  using assms by (auto simp: hev_socks5_server_write_auth_method_def split: prod.splits if_splits
      dest: send_keeps)

lemma server_write_user:
  assumes "hev_socks5_server_write_auth_user self m = (r, self')"
  shows "rxq self' = rxq self" "HevSocks5.more self' = HevSocks5.more self" "s_type self' = s_type self"
  using assms by (auto simp: hev_socks5_server_write_auth_user_def split: prod.splits if_splits
      dest: send_keeps)

text \<open>The authenticator only ever returns a user of that name.\<close>

lemma auth_get_sound:
  assumes "auth_inv A xs" "hev_socks5_authenticator_get A n = Some x" "x \<noteq> NULL"
  shows "x \<in> set xs \<and> u_name (a_users A x) = n"
proof (cases "\<exists>y\<in>set xs. u_name (a_users A y) = n")
  case True
  with auth_get_hit [OF assms(1)] assms(2) show ?thesis by auto
next
  case False
  with auth_get_miss [OF assms(1), of n] assms(2,3) show ?thesis by auto
qed

lemma server_read_user:
  assumes "hev_socks5_server_read_auth_user self A = Some (0, self', A')" "auth_inv A xs"
  shows "\<exists>name pass x. rx_data (rxq self) =
      [1, of_nat (length name)] @ name @ [of_nat (length pass)] @ pass @ rx_data (rxq self') \<and>
    x \<in> set xs \<and> u_name (a_users A x) = name \<and> u_pass (a_users A x) = pass \<and> s_obj self' = ObjUser x"
proof -
  obtain r h s1 where h: "hev_task_io_socket_recv task_io_yielder True False 2 self = (r, h, s1)"
    by (metis prod_cases3)
  define nl where "nl = unat (h ! 1)"
  obtain r2 nm s2 where b: "hev_task_io_socket_recv task_io_yielder True False (nl + 1) s1 = (r2, nm, s2)"
    by (metis prod_cases3)
  define pl where "pl = unat (nm ! nl)"
  obtain r3 pw s3 where c: "hev_task_io_socket_recv task_io_yielder True False pl s2 = (r3, pw, s3)"
    by (metis prod_cases3)
  note k = recv_keeps(5) [OF h] recv_keeps(5) [OF b] recv_keeps(5) [OF c]
  have g: "r = int 2" "h ! 0 = 1" "r2 = int (nl + 1)" "r3 = int pl"
    and "\<exists>x. hev_socks5_authenticator_get A (take nl nm) = Some x \<and> x \<noteq> NULL \<and>
      0 \<le> hev_socks5_user_check (a_users A x) pw pl \<and> self' = s3\<lparr>s_obj := ObjUser x\<rparr>"
    using assms(1) h b c
    by (auto simp: hev_socks5_server_read_auth_user_def Let_def nl_def pl_def not_less
        split: if_splits option.splits)
  then obtain x where x: "hev_socks5_authenticator_get A (take nl nm) = Some x" "x \<noteq> NULL"
    "0 \<le> hev_socks5_user_check (a_users A x) pw pl" "self' = s3\<lparr>s_obj := ObjUser x\<rparr>" by blast
  have l: "length h = 2" "length nm = nl + 1" "length pw = pl"
    using recv_length [of task_io_yielder False 2 self h s1]
      recv_length [of task_io_yielder False "nl + 1" s1 nm s2]
      recv_length [of task_io_yielder False pl s2 pw s3] h b c g by auto
  have hd: "h = [1, of_nat nl]" using two_bytes [OF l(1)] g(2) by (simp add: nl_def)
  have nm: "nm = take nl nm @ [of_nat pl]"
    using l(2) by (simp add: pl_def take_Suc_conv_app_nth [symmetric])
  have "u_pass (a_users A x) = pw" using x(3) l(3) user_check_iff [of _ pw] by simp
  moreover have "rx_data (rxq self) = [1, of_nat (length (take nl nm))] @ take nl nm @
      [of_nat (length pw)] @ pw @ rx_data (rxq self')"
    using k hd l x(4) by (simp, subst nm, simp)
  ultimately show ?thesis using auth_get_sound [OF assms(2) x(1,2)] x(4) by fastforce
qed

text \<open>With an authenticator set, only method USER is acceptable, and it needs valid credentials.\<close>

lemma server_auth_sound:
  assumes "hev_socks5_server_auth self A = Some (r, self', A')" "0 \<le> r" "auth_inv A xs" "s_obj self = ObjAuth"
  shows "\<exists>ms name pass x. rx_data (rxq self) = [5, of_nat (length ms)] @ ms @
      [1, of_nat (length name)] @ name @ [of_nat (length pass)] @ pass @ rx_data (rxq self') \<and>
    2 \<in> set ms \<and> x \<in> set xs \<and> u_name (a_users A x) = name \<and> u_pass (a_users A x) = pass \<and>
    s_obj self' = ObjUser x"
proof -
  obtain m s1 where m: "hev_socks5_server_read_auth_method self = (m, s1)" by (metis prod.exhaust)
  obtain w s2 where w: "hev_socks5_server_write_auth_method s1 m = (w, s2)" by (metis prod.exhaust)
  note k = server_read_method [OF m] and kw = server_write_method [OF w]
  have "m = 2"
    using assms(1,2,4) m w k(3,4) by (auto simp: hev_socks5_server_auth_def Let_def split: if_splits)
  with assms(1,2) m w obtain r3 s3 A3 w4 where
    u: "hev_socks5_server_read_auth_user s2 A = Some (r3, s3, A3)" and
    v: "hev_socks5_server_write_auth_user s3 r3 = (w4, self')" and r3: "0 \<le> r3"
    by (auto simp: hev_socks5_server_auth_def Let_def split: if_splits option.splits prod.splits)
  have "r3 = 0" using u r3
    by (auto simp: hev_socks5_server_read_auth_user_def Let_def split: if_splits option.splits prod.splits)
  then obtain name pass x where x: "rx_data (rxq s2) =
      [1, of_nat (length name)] @ name @ [of_nat (length pass)] @ pass @ rx_data (rxq s3)"
    "x \<in> set xs" "u_name (a_users A x) = name" "u_pass (a_users A x) = pass" "s_obj s3 = ObjUser x"
    using server_read_user [OF _ assms(3)] u by blast
  moreover from k(4) \<open>m = 2\<close> assms(4) obtain ms where
    ms: "rx_data (rxq self) = [5, of_nat (length ms)] @ ms @ rx_data (rxq s1)" "2 \<in> set ms" by auto
  moreover note kw(1) server_write_user(1) [OF v] more_obj [OF server_write_user(2) [OF v]]
  ultimately show ?thesis by (intro exI [of _ ms] exI [of _ name] exI [of _ pass] exI [of _ x]) simp
qed

lemma server_read_request_obj:
  assumes "hev_socks5_server_read_request R self rep addr = (r, cmd, rep', addr', self')"
  shows "s_obj self' = s_obj self"
proof -
  obtain n h s1 where h: "hev_task_io_socket_recv task_io_yielder True False 5 self = (n, h, s1)"
    by (metis prod_cases3)
  let ?l = "if h ! 3 = 1 then 5 else if h ! 3 = 4 then 17 else 2 + unat (h ! 4)"
  obtain n2 b s2 where b: "hev_task_io_socket_recv task_io_yielder True False ?l s1 = (n2, b, s2)"
    by (metis prod_cases3)
  have "s_obj s1 = s_obj self" "s_obj s2 = s_obj s1"
    using recv_keeps(4) [OF h] recv_keeps(4) [OF b] more_obj [of s1 self] more_obj [of s2 s1] by auto
  moreover have "self' = s1 \<or> self' = s2 \<or> (\<exists>f. self' = hev_socks5_set_addr_family s2 f)"
    using assms h b
    by (simp add: hev_socks5_server_read_request_def Let_def split: if_splits prod.splits) auto
  ultimately show ?thesis by (auto simp: hev_socks5_set_addr_family_def)
qed

lemma connect_more:
  "hev_task_io_socket_connect task_io_yielder q self = (r, q', self') \<Longrightarrow>
   HevSocks5.more self' = HevSocks5.more self \<and> sent self' = sent self \<and> rxq self' = rxq self \<and>
   txq self' = txq self \<and> closed self' = closed self \<and> s_type self' = s_type self \<and> fd self' = fd self"
proof (induction q arbitrary: self)
  case (Cons a q)
  show ?case
  proof (cases a)
    case (CxInProgress w)
    obtain k s1 where y: "hev_socks5_task_io_yielder HEV_TASK_WAITIO w self = (k, s1)" by (metis prod.exhaust)
    then have "frz s1 = frz self" using yieldsD yields_yielders(1) by blast
    then show ?thesis using Cons CxInProgress y frz_fields [of s1 self] by (auto split: if_splits)
  qed (use Cons in auto)
qed simp

lemma server_connect_obj:
  "hev_socks5_server_connect G V self addr = (r, self') \<Longrightarrow> s_obj self' = s_obj self"
  using connect_more more_obj
  by (auto simp: hev_socks5_server_connect_def Let_def hev_socks5_set_timeout_def split: if_splits prod.splits)
     (fastforce dest!: connect_more more_obj)+

lemma server_bind_obj:
  "hev_socks5_server_bind V self addr = (r, addr', self') \<Longrightarrow> s_obj self' = s_obj self"
  by (auto simp: hev_socks5_server_bind_def Let_def split: if_splits prod.splits option.splits)

lemma server_write_response_obj:
  "hev_socks5_server_write_response mem self rep addr = (r, self') \<Longrightarrow> s_obj self' = s_obj self"
  by (auto simp: hev_socks5_server_write_response_def split: if_splits prod.splits
      dest!: send_keeps(4) more_obj)

lemma server_dispatch_obj:
  "server_dispatch G V self cmd rep addr = (rep', addr', self') \<Longrightarrow> s_obj self' = s_obj self"
  by (auto simp: server_dispatch_def Let_def split: if_splits prod.splits
      dest: server_connect_obj server_bind_obj)

lemma server_handshake_auth:
  assumes "hev_socks5_server_handshake G R V self A = Some (0, self', A')"
  obtains s1 r where "hev_socks5_server_auth (hev_socks5_set_timeout self (tcp_timeout G)) A = Some (r, s1, A')"
    "0 \<le> r" "s_obj self' = s_obj s1"
proof -
  obtain r s1 where a: "hev_socks5_server_auth (hev_socks5_set_timeout self (tcp_timeout G)) A = Some (r, s1, A')"
    "0 \<le> r"
    using assms by (auto simp: hev_socks5_server_handshake_def Let_def split: if_splits option.splits prod.splits)
  obtain r2 cmd rep addr s2 where
    q: "hev_socks5_server_read_request R s1 0 (v_addr V) = (r2, cmd, rep, addr, s2)" by (metis prod_cases5)
  obtain rep3 addr3 s3 where
    d: "(if rep = 0 then server_dispatch G V s2 cmd rep addr else (rep, addr, s2)) = (rep3, addr3, s3)"
    by (metis prod_cases3)
  have "s_obj s3 = s_obj s2" using d server_dispatch_obj by (auto split: if_splits)
  moreover obtain r4 s4 where w: "hev_socks5_server_write_response (v_mem V) s3 rep3 addr3 = (r4, s4)"
    by (metis prod.exhaust)
  moreover have "self' = s4"
    using assms a q d w by (auto simp: hev_socks5_server_handshake_def Let_def split: if_splits)
  ultimately have "s_obj self' = s_obj s1"
    using server_write_response_obj [OF w] server_read_request_obj [OF q] by simp
  with a that show thesis by blast
qed

subsection \<open>Running against a live client\<close>

lemma server_read_method_moves:
  assumes "conn_live self" "rx_data (rxq self) = [5, of_nat (length ms)] @ ms @ rest" "2 \<in> set ms"
    "length ms < 256" "s_obj self \<noteq> ObjNone"
  shows "\<exists>self'. hev_socks5_server_read_auth_method self = (2, self') \<and>
    moves self [] ([5, of_nat (length ms)] @ ms) self' \<and> HevSocks5.more self' = HevSocks5.more self"
proof -
  have l: "unat (of_nat (length ms) :: u8) = length ms" "ms \<noteq> []" using assms(3,4) by (auto simp: unat_of_nat)
  obtain s1 where s1: "hev_task_io_socket_recv task_io_yielder True False 2 self =
      (int 2, [5, of_nat (length ms)], s1)"
    "moves self [] [5, of_nat (length ms)] s1" "HevSocks5.more s1 = HevSocks5.more self"
    using recv_moves [OF assms(1,2), of 2] by auto
  then have "conn_live s1" "rx_data (rxq s1) = ms @ rest" using assms(2) by (auto simp: moves_def)
  from recv_moves [OF this l(2) refl] obtain s2 where
    s2: "hev_task_io_socket_recv task_io_yielder True False (length ms) s1 = (int (length ms), ms, s2)"
      "moves s1 [] ms s2" "HevSocks5.more s2 = HevSocks5.more s1" by auto
  have "s_obj s2 \<noteq> ObjNone" using more_obj [of s2 self] s1(3) s2(3) assms(5) by simp
  with s1(1) s2(1) l assms(3) have "hev_socks5_server_read_auth_method self = (2, s2)"
    by (simp add: hev_socks5_server_read_auth_method_def)
  with moves_trans [OF s1(2) s2(2)] s1(3) s2(3) show ?thesis by auto
qed

lemma server_write_moves:
  assumes "conn_live self"
  shows "\<exists>self'. hev_socks5_server_write_auth_method self 2 = (0, self') \<and>
      moves self [5, 2] [] self' \<and> HevSocks5.more self' = HevSocks5.more self"
    "\<exists>self'. hev_socks5_server_write_auth_user self 0 = (0, self') \<and>
      moves self [1, 0] [] self' \<and> HevSocks5.more self' = HevSocks5.more self"
  using send_moves [OF assms, of "[5, 2]"] send_moves [OF assms, of "[1, 0]"]
  by (auto simp: hev_socks5_server_write_auth_method_def hev_socks5_server_write_auth_user_def)

lemma server_read_user_moves:
  assumes l: "conn_live self" and d: "rx_data (rxq self) =
      [1, of_nat (length n)] @ n @ [of_nat (length p)] @ p @ rest"
    and n: "n \<noteq> []" "length n < 256" and p: "p \<noteq> []" "length p < 256"
    and A: "auth_inv A xs" "1 < a_refs A" "x \<in> set xs" "u_name (a_users A x) = n" "u_pass (a_users A x) = p"
  shows "\<exists>self' A'. hev_socks5_server_read_auth_user self A = Some (0, self', A') \<and>
    moves self [] ([1, of_nat (length n)] @ n @ [of_nat (length p)] @ p) self' \<and> s_obj self' = ObjUser x"
proof -
  have un: "unat (of_nat (length n) :: u8) = length n" "unat (of_nat (length p) :: u8) = length p"
    using n p by (auto simp: unat_of_nat)
  obtain s1 where s1: "hev_task_io_socket_recv task_io_yielder True False 2 self = (int 2, [1, of_nat (length n)], s1)"
    "moves self [] [1, of_nat (length n)] s1" using recv_moves [OF l d, of 2] by auto
  have l1: "conn_live s1" "rx_data (rxq s1) = (n @ [of_nat (length p)]) @ p @ rest"
    using s1(2) d by (auto simp: moves_def)
  obtain s2 where s2: "hev_task_io_socket_recv task_io_yielder True False (length n + 1) s1 =
      (int (length n + 1), n @ [of_nat (length p)], s2)" "moves s1 [] (n @ [of_nat (length p)]) s2"
    using recv_moves [OF l1, of "length n + 1"] by auto
  have l2: "conn_live s2" "rx_data (rxq s2) = p @ rest" using s2(2) l1 by (auto simp: moves_def)
  obtain s3 where s3: "hev_task_io_socket_recv task_io_yielder True False (length p) s2 = (int (length p), p, s3)"
    "moves s2 [] p s3" using recv_moves [OF l2 p(1) refl] by auto
  let ?A = "A\<lparr>a_users := (a_users A)(x := user_ref (a_users A x))\<rparr>"
  have "auth_unref ?A = Some (?A\<lparr>a_refs := a_refs A - 1\<rparr>)" using A(2) by (simp add: auth_unref_def)
  moreover have "hev_socks5_authenticator_get A n = Some x" "x \<noteq> NULL"
    "\<not> hev_socks5_user_check (a_users A x) p (length p) < 0"
    using auth_get_hit [OF A(1,3)] A user_check_iff [of "a_users A x" p]
    by (auto simp: auth_inv_def dest: rb_index_nonnull)
  ultimately have "hev_socks5_server_read_auth_user self A =
      Some (0, s3\<lparr>s_obj := ObjUser x\<rparr>, ?A\<lparr>a_refs := a_refs A - 1\<rparr>)"
    using s1(1) s2(1) s3(1) un n p by (simp add: hev_socks5_server_read_auth_user_def)
  moreover have "moves self [] ([1, of_nat (length n)] @ n @ [of_nat (length p)] @ p) (s3\<lparr>s_obj := ObjUser x\<rparr>)"
    using moves_trans [OF moves_trans [OF s1(2) s2(2)] s3(2)] by (simp add: moves_def conn_live_def)
  ultimately show ?thesis by auto
qed

lemma server_auth_moves:
  assumes l: "conn_live self" and ms: "2 \<in> set ms" "length ms < 256" and d: "rx_data (rxq self) =
      [5, of_nat (length ms)] @ ms @ ([1, of_nat (length n)] @ n @ [of_nat (length p)] @ p) @ rest"
    and n: "n \<noteq> []" "length n < 256" and p: "p \<noteq> []" "length p < 256" and o: "s_obj self = ObjAuth"
    and A: "auth_inv A xs" "1 < a_refs A" "x \<in> set xs" "u_name (a_users A x) = n" "u_pass (a_users A x) = p"
  shows "\<exists>self' A'. hev_socks5_server_auth self A = Some (0, self', A') \<and> conn_live self' \<and>
    sent self' = sent self @ [5, 2, 1, 0] \<and> rx_data (rxq self') = rest \<and> s_obj self' = ObjUser x"
proof -
  obtain s1 where s1: "hev_socks5_server_read_auth_method self = (2, s1)"
    "moves self [] ([5, of_nat (length ms)] @ ms) s1" "HevSocks5.more s1 = HevSocks5.more self"
    using server_read_method_moves [OF l _ ms] d o by auto
  then have l1: "conn_live s1" by (simp add: moves_def)
  obtain s2 where s2: "hev_socks5_server_write_auth_method s1 2 = (0, s2)" "moves s1 [5, 2] [] s2"
    using server_write_moves(1) [OF l1] by auto
  have l2: "conn_live s2" "rx_data (rxq s2) =
      [1, of_nat (length n)] @ n @ [of_nat (length p)] @ p @ rest"
    using s1(2) s2(2) d by (auto simp: moves_def)
  from server_read_user_moves [OF l2 n p A] obtain s3 A' where
    s3: "hev_socks5_server_read_auth_user s2 A = Some (0, s3, A')"
      "moves s2 [] ([1, of_nat (length n)] @ n @ [of_nat (length p)] @ p) s3" "s_obj s3 = ObjUser x" by auto
  then have l3: "conn_live s3" by (simp add: moves_def)
  obtain s4 where s4: "hev_socks5_server_write_auth_user s3 0 = (0, s4)" "moves s3 [1, 0] [] s4"
    "HevSocks5.more s4 = HevSocks5.more s3"
    using server_write_moves(2) [OF l3] by auto
  have "hev_socks5_server_auth self A = Some (0, s4, A')"
    using s1(1) s2(1) s3(1) s4(1) by (simp add: hev_socks5_server_auth_def)
  with s1(2) s2(2) s3(2,3) s4(2) more_obj [OF s4(3)] l2(2) show ?thesis by (auto simp: moves_def)
qed

text \<open>An IPv4 or IPv6 address as it travels in a request.\<close>

definition is_ip_wire :: "u8 list \<Rightarrow> bool" where
  "is_ip_wire w \<longleftrightarrow> (\<exists>bs. w = 1 # bs \<and> length bs = 6 \<or> w = 4 # bs \<and> length bs = 18)"

lemma is_reply_ip: "is_reply ([5, 0, 0] @ w) \<longleftrightarrow> is_ip_wire w"
  by (auto simp: is_reply_def is_ip_wire_def)

lemma into_sockaddr6_ip:
  assumes "is_ip_wire w" "length (sin6_addr sa) = 16"
  shows "\<exists>sa' f. hev_socks5_addr_into_sockaddr6 R w sa fam = (0, sa', f) \<and> length (sin6_addr sa') = 16"
proof -
  obtain a bs where w: "w = a # bs" "a = 1 \<and> length bs = 6 \<or> a = 4 \<and> length bs = 18"
    using assms(1) by (auto simp: is_ip_wire_def)
  then have "length (a_ipv4_addr w) = 4" "a = 4 \<Longrightarrow> length (a_ipv6_addr w) = 16"
    by (auto simp: a_ipv4_addr_def a_ipv6_addr_def mem_read_def)
  with w assms(2) show ?thesis
    by (auto simp: hev_socks5_addr_into_sockaddr6_def a_atype_def hev_socks5_ipv4_into_sockaddr6_def
        hev_socks5_ipv6_into_sockaddr6_def Let_def)
qed

lemma server_read_request_moves:
  assumes l: "conn_live self" and d: "rx_data (rxq self) = [5, c, rsv] @ w @ rest" and w: "is_ip_wire w"
    and sa: "length (sin6_addr addr) = 16"
  shows "\<exists>self' addr'. hev_socks5_server_read_request R self rep addr = (0, Some c, rep, addr', self') \<and>
    length (sin6_addr addr') = 16 \<and> conn_live self' \<and> sent self' = sent self \<and> rx_data (rxq self') = rest"
proof -
  obtain a b bs where ab: "w = a # b # bs" "a = 1 \<and> length bs = 5 \<or> a = 4 \<and> length bs = 17"
    using w unfolding is_ip_wire_def by (auto simp: length_Suc_conv eval_nat_numeral)
  have dd: "rx_data (rxq self) = [5, c, rsv, a, b] @ bs @ rest" using d ab by simp
  obtain s1 where s1: "hev_task_io_socket_recv task_io_yielder True False 5 self = (int 5, [5, c, rsv, a, b], s1)"
    "moves self [] [5, c, rsv, a, b] s1" using recv_moves [OF l dd, of 5] by auto
  have l1: "conn_live s1" "rx_data (rxq s1) = bs @ rest" "bs \<noteq> []" using s1(2) dd ab by (auto simp: moves_def)
  obtain s2 where s2: "hev_task_io_socket_recv task_io_yielder True False (length bs) s1 = (int (length bs), bs, s2)"
    "moves s1 [] bs s2" using recv_moves [OF l1 refl] by auto
  obtain sa' f where f: "hev_socks5_addr_into_sockaddr6 R w addr (hev_socks5_get_addr_family s2) = (0, sa', f)"
    "length (sin6_addr sa') = 16" using into_sockaddr6_ip [OF w sa] by blast
  have "hev_socks5_server_read_request R self rep addr =
      (0, Some c, rep, sa', hev_socks5_set_addr_family s2 f)"
    using ab(2) s1(1) s2(1) f(1) ab(1)
    by (elim disjE conjE) (simp_all add: hev_socks5_server_read_request_def)
  with f(2) s1(2) s2(2) l1 show ?thesis by (auto simp: hev_socks5_set_addr_family_def moves_def conn_live_def)
qed

lemma server_write_response_moves:
  assumes "conn_live self" "length mem = 260" "length (sin6_addr addr) = 16"
  shows "\<exists>self' w. hev_socks5_server_write_response mem self rep addr = (0, self') \<and> is_ip_wire w \<and>
    moves self ([5, rep, 0] @ w) [] self' \<and> HevSocks5.more self' = HevSocks5.more self"
proof -
  obtain n a where a: "hev_socks5_addr_from_sockaddr6 mem addr = (n, a)" by (metis prod.exhaust)
  have w: "is_ip_wire (take (nat n) a)"
  proof (cases "in6_is_addr_v4mapped (sin6_addr addr)")
    case True
    from from_sockaddr6_v4 [OF assms(2,3) True] a have "n = 7" "length a = 260" "a ! 0 = 1"
      by (simp_all add: a_atype_def)
    then show ?thesis by (cases a) (auto simp: is_ip_wire_def)
  next
    case False
    from from_sockaddr6_v6 [OF assms(2,3) False] a have "n = 19" "length a = 260" "a ! 0 = 4"
      by (simp_all add: a_atype_def)
    then show ?thesis by (cases a) (auto simp: is_ip_wire_def)
  qed
  obtain s1 where "hev_task_io_socket_send task_io_yielder True False ([5, rep, 0] @ take (nat n) a) self =
      (int (length ([5, rep, 0] @ take (nat n) a)), s1)" "moves self ([5, rep, 0] @ take (nat n) a) [] s1"
    "HevSocks5.more s1 = HevSocks5.more self"
    using send_moves [OF assms(1), of "[5, rep, 0] @ take (nat n) a"] by auto
  with a w show ?thesis
    by (auto simp: hev_socks5_server_write_response_def intro!: exI [of _ s1] exI [of _ "take (nat n) a"])
qed

text \<open>A connection attempt that succeeds, possibly after waiting.\<close>

fun cx_live :: "cx list \<Rightarrow> bool" where
  "cx_live (CxInProgress w # q) = (wait_live w \<and> cx_live q)"
| "cx_live (CxFail # q) = False"
| "cx_live _ = True"

lemma connect_live:
  "cx_live q \<Longrightarrow> \<exists>q'. hev_task_io_socket_connect task_io_yielder q self = (0, q', self)"
  by (induction q rule: cx_live.induct) auto

definition sock_ok :: "net_env \<Rightarrow> bool" where
  "sock_ok E \<longleftrightarrow> 0 \<le> e_socket E \<and> 0 \<le> e_v6only E \<and> cx_live (e_conn E)"

lemma server_connect_live:
  assumes "sock_ok (v_sock0 V)"
  shows "hev_socks5_server_connect G V self addr =
    (0, self\<lparr>timeout := tcp_timeout G, fds0 := e_socket (v_sock0 V)\<rparr>)"
proof -
  have "hev_socks5_socket (v_sock0 V) = (e_socket (v_sock0 V), [])"
    using assms by (simp add: hev_socks5_socket_def sock_ok_def)
  moreover obtain q' where "hev_task_io_socket_connect task_io_yielder (e_conn (v_sock0 V))
      (self\<lparr>closed := closed self, timeout := connect_timeout G\<rparr>) =
      (0, q', self\<lparr>closed := closed self, timeout := connect_timeout G\<rparr>)"
    using connect_live assms by (auto simp: sock_ok_def)
  ultimately show ?thesis using assms
    by (simp add: hev_socks5_server_connect_def hev_socks5_bind_def hev_socks5_set_timeout_def sock_ok_def)
qed

lemma server_handshake_live:
  assumes l: "conn_live self" and ms: "2 \<in> set ms" "length ms < 256" and d: "rx_data (rxq self) =
      [5, of_nat (length ms)] @ ms @ ([1, of_nat (length n)] @ n @ [of_nat (length p)] @ p) @ [5, 1, rsv] @ w @ rest"
    and n: "n \<noteq> []" "length n < 256" and p: "p \<noteq> []" "length p < 256" and o: "s_obj self = ObjAuth"
    and A: "auth_inv A xs" "1 < a_refs A" "x \<in> set xs" "u_name (a_users A x) = n" "u_pass (a_users A x) = p"
    and w: "is_ip_wire w" and V: "sock_ok (v_sock0 V)" "length (v_mem V) = 260" "length (sin6_addr (v_addr V)) = 16"
  shows "\<exists>self' A' rep. hev_socks5_server_handshake G R V self A = Some (0, self', A') \<and>
    sent self' = sent self @ [5, 2, 1, 0] @ rep \<and> is_reply rep \<and> rx_data (rxq self') = rest \<and>
    fds0 self' = e_socket (v_sock0 V) \<and> s_type self' = HEV_SOCKS5_TYPE_TCP"
proof -
  let ?s = "self\<lparr>timeout := tcp_timeout G\<rparr>"
  have "conn_live ?s" "rx_data (rxq ?s) = [5, of_nat (length ms)] @ ms @
      ([1, of_nat (length n)] @ n @ [of_nat (length p)] @ p) @ [5, 1, rsv] @ w @ rest" "s_obj ?s = ObjAuth"
    using l d o by (simp_all add: conn_live_def)
  from server_auth_moves [OF this(1) ms this(2) n p this(3) A] obtain s1 A' where
    s1: "hev_socks5_server_auth ?s A = Some (0, s1, A')" "conn_live s1" "sent s1 = sent self @ [5, 2, 1, 0]"
      "rx_data (rxq s1) = [5, 1, rsv] @ w @ rest" by auto
  from server_read_request_moves [OF s1(2,4) w V(3)] obtain s2 addr where
    s2: "hev_socks5_server_read_request R s1 0 (v_addr V) = (0, Some 1, 0, addr, s2)"
      "length (sin6_addr addr) = 16" "conn_live s2" "sent s2 = sent s1" "rx_data (rxq s2) = rest" by blast
  let ?s3 = "s2\<lparr>timeout := tcp_timeout G, fds0 := e_socket (v_sock0 V), s_type := HEV_SOCKS5_TYPE_TCP\<rparr>"
  have dd: "server_dispatch G V s2 (Some 1) 0 addr = (0, addr, ?s3)"
    by (simp add: server_dispatch_def server_connect_live [OF V(1)])
  have "conn_live ?s3" using s2(3) by (simp add: conn_live_def)
  from server_write_response_moves [OF this V(2) s2(2), of 0] obtain s4 w' where
    s4: "hev_socks5_server_write_response (v_mem V) ?s3 0 addr = (0, s4)" "is_ip_wire w'"
      "moves ?s3 ([5, 0, 0] @ w') [] s4" "HevSocks5.more s4 = HevSocks5.more ?s3" by auto
  have "hev_socks5_server_handshake G R V self A = Some (0, s4, A')"
    using s1(1) s2(1) dd s4(1) by (simp add: hev_socks5_server_handshake_def hev_socks5_set_timeout_def)
  moreover have "fds0 s4 = fds0 ?s3" using s4(4) by (cases s4; cases s2) simp
  ultimately show ?thesis
    using s4(3) s1(3) s2(4,5) is_reply_ip [of w'] s4(2) by (auto simp: moves_def)
qed

subsection \<open>Properties\<close>

text \<open>C5 A server with an authenticator completes no handshake without valid credentials: whenever
  \<^verbatim>\<open>hev_socks5_server_handshake\<close> returns 0, the client has offered method USER and sent the name
  and the password of a user of the authenticator, and the session belongs to that user.\<close>

theorem server_requires_credentials:
  assumes "auth_inv A xs" "s_obj self = ObjAuth"
    and "hev_socks5_server_handshake G R V self A = Some (0, self', A')"
  shows "\<exists>ms name pass x rest. rx_data (rxq self) = [5, of_nat (length ms)] @ ms @
      [1, of_nat (length name)] @ name @ [of_nat (length pass)] @ pass @ rest \<and>
    2 \<in> set ms \<and> x \<in> set xs \<and> u_name (a_users A x) = name \<and> u_pass (a_users A x) = pass \<and>
    s_obj self' = ObjUser x"
  using assms(3)
proof (rule server_handshake_auth)
  fix s1 r
  assume a: "hev_socks5_server_auth (hev_socks5_set_timeout self (tcp_timeout G)) A = Some (r, s1, A')"
    "0 \<le> r" "s_obj self' = s_obj s1"
  show ?thesis
    using server_auth_sound [OF a(1,2) assms(1)] assms(2) a(3)
    by (simp add: hev_socks5_set_timeout_def) blast
qed

definition demo_server :: HevSocks5Server where
  "demo_server = server0\<lparr>s_obj := ObjAuth, fd := 9, rxq := [RxData ([5, 1, 2, 1, 1, 97, 2, 1, 2] @
     [5, 1, 0, 1, 10, 0, 0, 1, 0, 80])]\<rparr>"

definition demo_srv_env :: srv_env where
  "demo_srv_env = \<lparr>v_sock0 = \<lparr>e_socket = 7, e_v6only = 0, e_conn = [], e_rx = [], e_tx = [], e_saddr = demo_sa\<rparr>,
     v_sock1 = \<lparr>e_socket = 8, e_v6only = 0, e_conn = [], e_rx = [], e_tx = [], e_saddr = demo_sa\<rparr>,
     v_reuse = 0, v_name_tcp = None, v_bind = 0, v_name_udp = None, v_addr = demo_sa, v_mem = replicate 260 0\<rparr>"

lemma demo_auth2_inv: "auth_inv (demo_auth\<lparr>a_refs := 2\<rparr>) [4, 8]"
  using demo_auth_inv by (simp add: auth_inv_def)

lemma demo_server_run:
  "\<exists>self' A' rep. hev_socks5_server_handshake hev_socks5_misc_init demo_resolver demo_srv_env demo_server
     (demo_auth\<lparr>a_refs := 2\<rparr>) = Some (0, self', A') \<and> sent self' = [5, 2, 1, 0] @ rep \<and> is_reply rep"
  using server_handshake_live [of demo_server "[2]" "[97]" "[1, 2]" 0 "[1, 10, 0, 0, 1, 0, 80]" "[]"
      "demo_auth\<lparr>a_refs := 2\<rparr>" "[4, 8]" 8 demo_srv_env hev_socks5_misc_init demo_resolver] demo_auth2_inv
  by (fastforce simp: demo_server_def server0_def conn_live_def demo_auth_def demo_user_def is_ip_wire_def
      hev_socks5_user_construct_def demo_srv_env_def sock_ok_def demo_sa_def)

theorem server_requires_credentials_witness:
  "\<exists>self' A' x. hev_socks5_server_handshake hev_socks5_misc_init demo_resolver demo_srv_env demo_server
     (demo_auth\<lparr>a_refs := 2\<rparr>) = Some (0, self', A') \<and> x \<in> {4, 8} \<and> s_obj self' = ObjUser x"
proof -
  obtain self' A' where r: "hev_socks5_server_handshake hev_socks5_misc_init demo_resolver demo_srv_env demo_server
     (demo_auth\<lparr>a_refs := 2\<rparr>) = Some (0, self', A')" using demo_server_run by auto
  from server_requires_credentials [OF demo_auth2_inv _ r] obtain x where
    "x \<in> set [4, 8]" "s_obj self' = ObjUser x" by (auto simp: demo_server_def)
  with r show ?thesis by auto
qed

text \<open>C6 Client and server understand each other: over live connections, a client with the name and
  password of one of the server's users, asking for an IPv4 or IPv6 destination that accepts the
  connection, and the server of the same library both finish their handshakes with 0, in either
  client mode; each has received exactly what the other has sent.\<close>

theorem client_server_interop:
  assumes "conn_live c" "s_type c = HEV_SOCKS5_TYPE_TCP" "tcp_addr c = Some addr" "is_ip_wire (addr_wire addr)"
    and "auth_user c = Some n" "auth_pass c = Some p" "sent c = []"
    and "n \<noteq> []" "length n < 256" "p \<noteq> []" "length p < 256"
    and "conn_live s" "s_obj s = ObjAuth" "sent s = []"
    and "auth_inv A xs" "1 < a_refs A" "x \<in> set xs" "u_name (a_users A x) = n" "u_pass (a_users A x) = p"
    and "sock_ok (v_sock0 V)" "length (v_mem V) = 260" "length (sin6_addr (v_addr V)) = 16"
    and "rx_data (rxq s) = methods_wire c @ creds_wire c @ [5, 1, 0] @ addr_wire addr"
    and "\<And>s' A'. hev_socks5_server_handshake G R V s A = Some (0, s', A') \<Longrightarrow> rx_data (rxq c) = sent s'"
  shows "\<exists>c' s' A'. hev_socks5_server_handshake G R V s A = Some (0, s', A') \<and>
    hev_socks5_client_handshake H hev_socks5_client_tcp_class pipeline c = Some (0, c') \<and>
    sent c' = rx_data (rxq s) \<and> rx_data (rxq s') = [] \<and> rx_data (rxq c') = []"
proof -
  have d: "rx_data (rxq s) = [5, of_nat (length [2 :: u8])] @ [2] @
      ([1, of_nat (length n)] @ n @ [of_nat (length p)] @ p) @ [5, 1, 0] @ addr_wire addr @ []"
    using assms(5,6,9,11,23) by (simp add: methods_wire_def creds_wire_def)
  from server_handshake_live [where G = G and R = R, OF assms(12) _ _ d assms(8-11,13,15-19,4,20-22)] assms(14)
  obtain s' A' rep where s': "hev_socks5_server_handshake G R V s A = Some (0, s', A')"
    "sent s' = [5, 2, 1, 0] @ rep" "is_reply rep" "rx_data (rxq s') = []" by auto
  have c: "rx_data (rxq c) = [5, 2] @ [1, 0] @ rep @ []" using assms(24) [OF s'(1)] s'(2) by simp
  have len: "0 \<le> hev_socks5_addr_len addr"
    using assms(4) by (auto simp: is_ip_wire_def addr_wire_def not_less [symmetric])
  obtain c' where "hev_socks5_client_handshake H hev_socks5_client_tcp_class pipeline c = Some (0, c')"
    "rx_data (rxq c') = []" "sent c' = methods_wire c @ creds_wire c @ [5, 1, 0] @ addr_wire addr"
    using tcp_handshake_live [OF assms(1,2) c _ s'(3) assms(3) len] assms(7) by fastforce
  with s'(1,4) assms(23) show ?thesis by auto
qed

definition demo_client :: HevSocks5ClientTCP where
  "demo_client = client_tcp0\<lparr>s_type := HEV_SOCKS5_TYPE_TCP, tcp_addr := Some [1, 10, 0, 0, 1, 0, 80],
     auth_user := Some [97], auth_pass := Some [1, 2],
     rxq := [RxData [5, 2, 1, 0, 5, 0, 0, 1, 10, 0, 0, 1, 0, 80]]\<rparr>"

lemma demo_server_answer:
  "map_option (\<lambda>(r, s, A). (r, sent s)) (hev_socks5_server_handshake hev_socks5_misc_init demo_resolver
     demo_srv_env demo_server (demo_auth\<lparr>a_refs := 2\<rparr>)) = Some (0, [5, 2, 1, 0, 5, 0, 0, 1, 10, 0, 0, 1, 0, 80])"
  by code_simp

theorem client_server_interop_witness:
  "\<exists>c' s' A'. hev_socks5_server_handshake hev_socks5_misc_init demo_resolver demo_srv_env demo_server
      (demo_auth\<lparr>a_refs := 2\<rparr>) = Some (0, s', A') \<and>
    hev_socks5_client_handshake hev_socks5_misc_init hev_socks5_client_tcp_class True demo_client = Some (0, c') \<and>
    sent c' = [5, 1, 2, 1, 1, 97, 2, 1, 2, 5, 1, 0, 1, 10, 0, 0, 1, 0, 80]"
  using client_server_interop [of demo_client "[1, 10, 0, 0, 1, 0, 80]" "[97]" "[1, 2]" demo_server
      "demo_auth\<lparr>a_refs := 2\<rparr>" "[4, 8]" 8 demo_srv_env hev_socks5_misc_init demo_resolver hev_socks5_misc_init True]
    demo_auth2_inv demo_server_answer
  by (fastforce simp: demo_server_def server0_def conn_live_def demo_auth_def demo_user_def is_ip_wire_def
      hev_socks5_user_construct_def demo_srv_env_def sock_ok_def demo_sa_def demo_client_def client_tcp0_def
      addr_wire_def hev_socks5_addr_len_def a_atype_def methods_wire_def creds_wire_def)

end
