(* ===== verification/Mapped_DNS.thy ===== *)
theory Mapped_DNS
  imports Hev_List Hev_RBTree_Index Socks5_Addr
begin

text \<open>
  The mapped DNS of \<^verbatim>\<open>src/hev-mapped-dns.c\<close>: every host name asked for gets an address of a private
  network, and the tunnel later turns that address back into the name. Names are found by a
  red-black tree, addresses by an array of records, and a list in order of last use names the
  record that is given up when the array is full. A node is named by its address.

  \<open>None\<close> as the result of an operation stands for undefined behaviour: a read or write outside an
  array or a loop over a broken structure.
\<close>

record HevMappedDNS =
  md_tree :: rbstate
  md_list :: lstate
  md_name :: "ptr \<Rightarrow> u8 list"
  md_idx :: "ptr \<Rightarrow> int"
  md_records :: "ptr list"
  md_use :: int
  md_max :: int
  md_net :: u32
  md_mask :: u32
  md_freed :: "ptr list"

text \<open>\<^verbatim>\<open>strcmp\<close> on strings given without their terminator.\<close>

fun strcmp :: "u8 list \<Rightarrow> u8 list \<Rightarrow> int" where
  "strcmp [] [] = 0"
| "strcmp [] (b # bs) = - int (unat b)"
| "strcmp (a # as) [] = int (unat a)"
| "strcmp (a # as) (b # bs) = (if a = b then strcmp as bs else int (unat a) - int (unat b))"

definition hev_mapped_dns_construct ::
  "HevMappedDNS \<Rightarrow> u32 \<Rightarrow> u32 \<Rightarrow> int \<Rightarrow> int \<times> HevMappedDNS" where
  "hev_mapped_dns_construct self net msk mx =
     (if mx > sint (NOT msk) then (-1, self)
      else (0, self\<lparr>md_max := mx, md_net := net, md_mask := msk\<rparr>))"

text \<open>\<^verbatim>\<open>hev_malloc0\<close> gives an empty tree, an empty list and \<^verbatim>\<open>max\<close> null records; \<open>None\<close> without memory.\<close>

definition hev_mapped_dns_new ::
  "bool \<Rightarrow> rbheap \<Rightarrow> lheap \<Rightarrow> u32 \<Rightarrow> u32 \<Rightarrow> int \<Rightarrow> HevMappedDNS option" where
  "hev_mapped_dns_new malloc_ok th lh net msk mx =
     (if \<not> malloc_ok then None
      else let (res, self) = hev_mapped_dns_construct
                 \<lparr>md_tree = (NULL, th), md_list = empty_list lh, md_name = (\<lambda>_. []), md_idx = (\<lambda>_. 0),
                  md_records = replicate (nat mx) NULL, md_use = 0, md_max = 0, md_net = 0, md_mask = 0,
                  md_freed = []\<rparr> net msk mx
           in if res < 0 then None else Some self)"

text \<open>\<^verbatim>\<open>hev_mapped_dns_node_alloc\<close>: \<open>node\<close> is the result of \<^verbatim>\<open>hev_malloc0\<close>.\<close>

definition hev_mapped_dns_node_alloc :: "HevMappedDNS \<Rightarrow> ptr \<Rightarrow> u8 list \<Rightarrow> HevMappedDNS" where
  "hev_mapped_dns_node_alloc self node name =
     self\<lparr>md_name := (md_name self)(node := name), md_idx := (md_idx self)(node := 0)\<rparr>"

definition hev_mapped_dns_node_free :: "HevMappedDNS \<Rightarrow> ptr \<Rightarrow> HevMappedDNS" where
  "hev_mapped_dns_node_free self node = self\<lparr>md_freed := md_freed self @ [node]\<rparr>"

text \<open>The move of a node to the tail of the list, and the store of a node into its record.\<close>

definition mdns_touch :: "HevMappedDNS \<Rightarrow> ptr \<Rightarrow> HevMappedDNS" where
  "mdns_touch self node =
     self\<lparr>md_list := hev_list_add_tail (hev_list_del (md_list self) node) node\<rparr>"

definition mdns_store :: "HevMappedDNS \<Rightarrow> ptr \<Rightarrow> int \<Rightarrow> (int \<times> HevMappedDNS) option" where
  "mdns_store self node idx =
     (if 0 \<le> idx \<and> nat idx < length (md_records self)
      then Some (idx, self\<lparr>md_records := (md_records self)[nat idx := node],
                          md_idx := (md_idx self)(node := idx)\<rparr>)
      else None)"

text \<open>\<^verbatim>\<open>hev_mapped_dns_find\<close>; \<open>new\<close> is what \<^verbatim>\<open>hev_malloc0\<close> returns if it is called.\<close>

definition hev_mapped_dns_find :: "HevMappedDNS \<Rightarrow> ptr \<Rightarrow> u8 list \<Rightarrow> (int \<times> HevMappedDNS) option" where
  "hev_mapped_dns_find self new name =
     (let idx = md_use self
      in case rb_find (md_tree self) (\<lambda>node. strcmp (md_name self node) name) of
           None \<Rightarrow> None
         | Some (Inl node) \<Rightarrow> Some (md_idx self node, mdns_touch self node)
         | Some (Inr (parent, link)) \<Rightarrow>
             if new = NULL then Some (-1, self)
             else let self = hev_mapped_dns_node_alloc self new name
             in case hev_rbtree_insert_color (hev_rbtree_node_link (md_tree self) new parent link) new of
                  None \<Rightarrow> None
                | Some t \<Rightarrow>
                    (let self = self\<lparr>md_tree := t, md_list := hev_list_add_tail (md_list self) new\<rparr>
                     in if md_use self < md_max self
                        then mdns_store (self\<lparr>md_use := md_use self + 1\<rparr>) new idx
                        else let nf = hev_list_first (md_list self); idx = md_idx self nf
                             in case hev_rbtree_erase (md_tree self) nf of
                                  None \<Rightarrow> None
                                | Some t \<Rightarrow>
                                    mdns_store (hev_mapped_dns_node_free
                                      (self\<lparr>md_tree := t, md_list := hev_list_del (md_list self) nf\<rparr>) nf) new idx))"

text \<open>\<^verbatim>\<open>hev_mapped_dns_lookup\<close>; the inner \<open>None\<close> is the null result.\<close>

definition hev_mapped_dns_lookup :: "HevMappedDNS \<Rightarrow> u32 \<Rightarrow> (u8 list option \<times> HevMappedDNS) option" where
  "hev_mapped_dns_lookup self ip =
     (let idx = sint (ip AND NOT (md_mask self))
      in if idx \<ge> md_max self then Some (None, self)
         else if idx < 0 \<or> nat idx \<ge> length (md_records self) then None
         else let node = md_records self ! nat idx
              in if node = NULL then Some (None, self)
                 else Some (Some (md_name self node), mdns_touch self node))"

definition hev_mapped_dns_destruct :: "HevMappedDNS \<Rightarrow> HevMappedDNS" where
  "hev_mapped_dns_destruct self =
     fold (\<lambda>t self. hev_mapped_dns_node_free self t)
       (hev_list_walk (Suc (length (md_records self))) (md_list self) (hev_list_first (md_list self))) self"

subsection \<open>Answering a query\<close>

definition read_u16 :: "u8 list \<Rightarrow> nat \<Rightarrow> u16" where
  "read_u16 m p = mk16 (m ! p) (m ! (p + 1))"

definition write_u16 :: "u8 list \<Rightarrow> nat \<Rightarrow> u16 \<Rightarrow> u8 list" where
  "write_u16 m p v = m[p := ucast (drop_bit 8 v), p + 1 := ucast v]"

definition write_u32 :: "u8 list \<Rightarrow> nat \<Rightarrow> u32 \<Rightarrow> u8 list" where
  "write_u32 m p v = m[p := ucast (drop_bit 24 v), p + 1 := ucast (drop_bit 16 v),
                       p + 2 := ucast (drop_bit 8 v), p + 3 := ucast v]"

text \<open>
  The loop over the labels of a name: it replaces each length byte by a dot. The result is the
  buffer and the offset of the terminating zero (\<open>None\<close>: the handler returns -1).
\<close>

function dns_labels :: "nat \<Rightarrow> u8 list \<Rightarrow> nat \<Rightarrow> (u8 list \<times> nat option) option" where
  "dns_labels qlen rb off =
     (if length rb \<le> off then None
      else if rb ! off = 0 then Some (rb, Some off)
      else let poff = off; off = off + 1 + unat (rb ! off)
           in if qlen \<le> off then Some (rb, None)
              else dns_labels qlen (rb[poff := 46]) off)"
  by pat_completeness auto
termination
  by (relation "measure (\<lambda>(qlen, rb, off). qlen - off)") auto

declare dns_labels.simps [simp del]

text \<open>
  The loop over \<^verbatim>\<open>n\<close> questions; \<open>ips\<close> lists the answers so far with the offsets of their names.
  \<open>malloc\<close> is the allocator: the address it returns depends on the nodes in use.
\<close>

fun dns_questions ::
  "(HevMappedDNS \<Rightarrow> ptr) \<Rightarrow> nat \<Rightarrow> HevMappedDNS \<Rightarrow> nat \<Rightarrow> u8 list \<Rightarrow> nat \<Rightarrow> (nat \<times> u32) list \<Rightarrow>
   (HevMappedDNS \<times> u8 list \<times> (nat \<times> (nat \<times> u32) list) option) option" where
  "dns_questions malloc 0 self qlen rb off ips = Some (self, rb, Some (off, ips))"
| "dns_questions malloc (Suc n) self qlen rb off ips =
     (let ipo = off
      in case dns_labels qlen rb off of
           None \<Rightarrow> None
         | Some (rb, None) \<Rightarrow> Some (self, rb, None)
         | Some (rb, Some off) \<Rightarrow>
             (let off = off + 1
              in if off + 3 \<ge> qlen then Some (self, rb, None)
                 else if length rb \<le> off + 3 then None
                 else if read_u16 rb off = 1 \<and> read_u16 rb (off + 2) = 1 then
                   (case hev_mapped_dns_find self (malloc self) (c_string (drop (ipo + 1) rb)) of
                      None \<Rightarrow> None
                    | Some (idx, self) \<Rightarrow>
                        dns_questions malloc n self qlen rb (off + 4)
                          (if idx \<ge> 0 then ips @ [(ipo, md_net self OR of_int idx)] else ips))
                 else dns_questions malloc n self qlen rb (off + 4) ips))"

text \<open>The loop over the answers, into the response of \<^verbatim>\<open>slen\<close> bytes.\<close>

fun dns_answers :: "nat \<Rightarrow> (nat \<times> u32) list \<Rightarrow> u8 list \<Rightarrow> nat \<Rightarrow> u8 list \<times> nat option" where
  "dns_answers slen [] sb off = (sb, Some off)"
| "dns_answers slen ((ipo, ip) # ips) sb off =
     (if off + 15 \<ge> slen then (sb, None)
      else let sb = sb[off := 0xc0, off + 1 := of_nat ipo];
               sb = write_u16 sb (off + 2) 1;
               sb = write_u16 sb (off + 4) 1;
               sb = write_u32 sb (off + 6) 1;
               sb = write_u16 sb (off + 10) 4;
               sb = write_u32 sb (off + 12) ip
           in dns_answers slen ips sb (off + 16))"

text \<open>
  \<^verbatim>\<open>hev_mapped_dns_handle\<close> on the memory \<open>req\<close> of the request, whose first \<open>qlen\<close> bytes are the
  query, and the memory \<open>res\<close> of the response with \<open>slen\<close> usable bytes. The header fields are
  read and written as halfwords in memory order.
\<close>

definition hev_mapped_dns_handle ::
  "(HevMappedDNS \<Rightarrow> ptr) \<Rightarrow> HevMappedDNS \<Rightarrow> u8 list \<Rightarrow> nat \<Rightarrow> u8 list \<Rightarrow> nat \<Rightarrow>
   (int \<times> u8 list \<times> HevMappedDNS) option" where
  "hev_mapped_dns_handle malloc self req qlen res slen =
     (if slen < qlen then Some (-1, res, self)
      else if length req < max 12 qlen \<or> length res < max 12 slen then None
      else let sb = mem_write res 0 (take qlen req);
               qd = ntohs (of_le16 (mem_read req 4 2));
               rb = mem_write req 4 (le16 qd);
               fl = ntohs (of_le16 (mem_read sb 2 2));
               sb = mem_write sb 2 (le16 fl);
               sb = mem_write sb 8 (le16 0);
               sb = mem_write sb 6 (le16 0);
               sb = mem_write sb 10 (le16 0)
           in if unat qd > 32 then Some (-1, sb, self)
              else case dns_questions malloc (unat qd) self qlen rb 12 [] of
                     None \<Rightarrow> None
                   | Some (self, rb, None) \<Rightarrow> Some (-1, sb, self)
                   | Some (self, rb, Some (off, ips)) \<Rightarrow>
                       (case dns_answers slen ips sb off of
                          (sb, None) \<Rightarrow> Some (-1, sb, self)
                        | (sb, Some off) \<Rightarrow>
                            (let fl = of_le16 (mem_read sb 2 2);
                                 sb = mem_write sb 2 (le16 (htons (fl OR 0x8000 OR drop_bit 1 (fl AND 0x100))));
                                 sb = mem_write sb 6 (le16 (htons (of_nat (length ips))))
                             in Some (int off, sb, self))))"

subsection \<open>Names\<close>

lemma map_remove1_inj:
  "inj_on f (set xs) \<Longrightarrow> x \<in> set xs \<Longrightarrow> map f (remove1 x xs) = remove1 (f x) (map f xs)"
  by (induction xs) (auto simp: inj_on_def)

lemma rb_index_empty: "rb_index (NULL, h) []"
  by (rule rb_indexI [where t = Leaf]) (auto simp: focus_def rbt_ok_def path_ptrs_def)

lemma strcmp_flip: "strcmp a b < 0 \<longleftrightarrow> 0 < strcmp b a"
  by (induction a b rule: strcmp.induct) (auto simp: unat_gt_0)

lemma strcmp_eq: "0 \<notin> set a \<Longrightarrow> 0 \<notin> set b \<Longrightarrow> strcmp a b = 0 \<longleftrightarrow> a = b"
proof (induction a b rule: strcmp.induct)
  case (4 a as b bs)
  have "int (unat a) - int (unat b) = 0 \<longleftrightarrow> a = b" by (simp add: word_unat_eq_iff)
  with 4 show ?case by auto
qed (auto simp: unat_eq_zero)

lemma strcmp_trans: "0 < strcmp a b \<Longrightarrow> 0 < strcmp b c \<Longrightarrow> 0 < strcmp a c"
proof (induction a b arbitrary: c rule: strcmp.induct)
  case (2 b bs)
  then show ?case by simp
next
  case (3 a as)
  then show ?case by (cases c) auto
next
  case (4 a as b bs)
  then show ?case by (cases c) (auto split: if_splits)
qed simp

interpretation hosts: key_order strcmp "\<lambda>s. 0 \<notin> set s"
  by unfold_locales (fact strcmp_eq strcmp_flip strcmp_trans)+

subsection \<open>The cache it implements\<close>

text \<open>
  The abstract cache: names with their indices, least recently used first, at most \<open>mx\<close> of them.
\<close>

definition lru_get :: "nat \<Rightarrow> (u8 list \<times> int) list \<Rightarrow> u8 list \<Rightarrow> int \<times> (u8 list \<times> int) list" where
  "lru_get mx c n =
     (case map_of c n of
        Some i \<Rightarrow> (i, remove1 (n, i) c @ [(n, i)])
      | None \<Rightarrow> if length c < mx then (int (length c), c @ [(n, int (length c))])
                else (snd (hd c), tl c @ [(n, snd (hd c))]))"

definition mdns_cache :: "HevMappedDNS \<Rightarrow> ptr list \<Rightarrow> (u8 list \<times> int) list" where
  "mdns_cache self ls = map (\<lambda>p. (md_name self p, md_idx self p)) ls"

text \<open>
  The invariant: the tree holds the listed nodes in order of their names, the records below
  \<^verbatim>\<open>use\<close> are exactly these nodes, each at its own index, and the others are null.
\<close>

definition mdns_inv :: "HevMappedDNS \<Rightarrow> ptr list \<Rightarrow> ptr list \<Rightarrow> bool" where
  "mdns_inv self ts ls \<longleftrightarrow>
     rb_index (md_tree self) ts \<and> hosts.falling (md_name self) ts \<and>
     list_rep (md_list self) ls \<and> set ls = set ts \<and>
     md_use self = int (length ls) \<and> md_use self \<le> md_max self \<and>
     length (md_records self) = nat (md_max self) \<and>
     (\<forall>p\<in>set ls. 0 \<le> md_idx self p \<and> md_idx self p < md_use self \<and> md_records self ! nat (md_idx self p) = p) \<and>
     (\<forall>i<nat (md_max self). md_records self ! i = NULL \<or> md_records self ! i \<in> set ls \<and> md_idx self (md_records self ! i) = int i) \<and>
     0 < md_max self \<and> md_max self \<le> sint (NOT (md_mask self))"

lemma mdns_invD:
  assumes "mdns_inv self ts ls"
  shows "rb_index (md_tree self) ts" "hosts.falling (md_name self) ts" "list_rep (md_list self) ls"
    "set ls = set ts" "md_use self = int (length ls)" "md_use self \<le> md_max self"
    "length (md_records self) = nat (md_max self)"
    "\<And>p. p \<in> set ls \<Longrightarrow> 0 \<le> md_idx self p \<and> md_idx self p < md_use self \<and> md_records self ! nat (md_idx self p) = p"
    "\<And>i. i < nat (md_max self) \<Longrightarrow> md_records self ! i = NULL \<or>
       md_records self ! i \<in> set ls \<and> md_idx self (md_records self ! i) = int i"
    "0 < md_max self" "md_max self \<le> sint (NOT (md_mask self))"
    "distinct ls" "distinct ts" "\<And>p. p \<in> set ls \<Longrightarrow> p \<noteq> NULL"
  using assms by (auto simp: mdns_inv_def dest: hl.rep_distinct hl.rep_nonnull rb_index_distinct)

lemma mdns_invI:
  assumes "rb_index (md_tree self) ts" "hosts.falling (md_name self) ts" "list_rep (md_list self) ls"
    "set ls = set ts" "md_use self = int (length ls)" "md_use self \<le> md_max self"
    "length (md_records self) = nat (md_max self)"
    "\<forall>p\<in>set ls. 0 \<le> md_idx self p \<and> md_idx self p < md_use self \<and> md_records self ! nat (md_idx self p) = p"
    "\<forall>i<nat (md_max self). md_records self ! i = NULL \<or> md_records self ! i \<in> set ls \<and> md_idx self (md_records self ! i) = int i"
    "0 < md_max self" "md_max self \<le> sint (NOT (md_mask self))"
  shows "mdns_inv self ts ls"
  unfolding mdns_inv_def using assms by blast

lemma mdns_new_inv:
  assumes "hev_mapped_dns_new True th lh net msk mx = Some self" "0 < mx"
  shows "mdns_inv self [] []"
  using assms
  by (auto simp: hev_mapped_dns_new_def hev_mapped_dns_construct_def mdns_inv_def rb_index_empty
      hosts.falling_def list_rep_def empty_list_def split: if_splits)

lemma mdns_touch_inv:
  assumes "mdns_inv self ts ls" "p \<in> set ls"
  shows "mdns_inv (mdns_touch self p) ts (remove1 p ls @ [p])"
    "mdns_cache (mdns_touch self p) (remove1 p ls @ [p]) =
      remove1 (md_name self p, md_idx self p) (mdns_cache self ls) @ [(md_name self p, md_idx self p)]"
proof -
  note i = mdns_invD [OF assms(1)]
  have "list_rep (md_list (mdns_touch self p)) (remove1 p ls @ [p])"
    using hl.rep_touch [OF i(3) assms(2)] by (simp add: mdns_touch_def)
  then show "mdns_inv (mdns_touch self p) ts (remove1 p ls @ [p])"
    using assms hl.touch_same_nodes [OF i(3) assms(2)] by (auto simp: mdns_inv_def mdns_touch_def)
  have "inj_on (\<lambda>p. (md_name self p, md_idx self p)) (set ls)"
    by (rule inj_onI) (metis i(8) prod.inject)
  then have "map (\<lambda>p. (md_name self p, md_idx self p)) (remove1 p ls) =
      remove1 (md_name self p, md_idx self p) (map (\<lambda>p. (md_name self p, md_idx self p)) ls)"
    using assms(2) by (intro map_remove1_inj) auto
  then show "mdns_cache (mdns_touch self p) (remove1 p ls @ [p]) =
      remove1 (md_name self p, md_idx self p) (mdns_cache self ls) @ [(md_name self p, md_idx self p)]"
    by (simp add: mdns_cache_def mdns_touch_def)
qed

lemma mdns_cache_map_of:
  assumes "mdns_inv self ts ls"
  shows "p \<in> set ls \<Longrightarrow> map_of (mdns_cache self ls) (md_name self p) = Some (md_idx self p)"
    "(\<And>p. p \<in> set ls \<Longrightarrow> md_name self p \<noteq> n) \<Longrightarrow> map_of (mdns_cache self ls) n = None"
proof -
  note i = mdns_invD [OF assms]
  have inj: "inj_on (md_name self) (set ls)"
    using hosts.falling_inj [OF i(2)] i(4) by (auto intro: inj_onI)
  show "p \<in> set ls \<Longrightarrow> map_of (mdns_cache self ls) (md_name self p) = Some (md_idx self p)"
    using i(12) inj by (auto simp: mdns_cache_def distinct_map comp_def intro!: map_of_is_SomeI)
  show "(\<And>p. p \<in> set ls \<Longrightarrow> md_name self p \<noteq> n) \<Longrightarrow> map_of (mdns_cache self ls) n = None"
    by (fastforce simp: mdns_cache_def map_of_eq_None_iff)
qed

lemma mdns_find_hit:
  assumes "mdns_inv self ts ls" "p \<in> set ls"
  shows "hev_mapped_dns_find self new (md_name self p) = Some (md_idx self p, mdns_touch self p)"
proof -
  note i = mdns_invD [OF assms(1)]
  have p: "p \<in> set ts" "0 \<notin> set (md_name self p)" using assms(2) i(2,4) by (auto simp: hosts.falling_def)
  then have "rb_find (md_tree self) (\<lambda>x. strcmp (md_name self x) (md_name self p)) = Some (Inl p)"
    by (intro rb.find_hit [OF i(1) hosts.falling_mono [OF i(2)]]) (auto simp: strcmp_eq)
  then show ?thesis by (simp add: hev_mapped_dns_find_def)
qed

text \<open>Inserting a new name into the tree.\<close>

lemma mdns_insert:
  assumes "mdns_inv self ts ls" "\<And>p. p \<in> set ls \<Longrightarrow> md_name self p \<noteq> n" "0 \<notin> set n" "new \<notin> set ls" "rb_fit new"
  obtains parent link t ts' where "rb_find (md_tree self) (\<lambda>x. strcmp (md_name self x) n) = Some (Inr (parent, link))"
    "hev_rbtree_insert_color (hev_rbtree_node_link (md_tree self) new parent link) new = Some t"
    "rb_index t ts'" "hosts.falling ((md_name self)(new := n)) ts'" "set ts' = insert new (set ts)"
proof -
  note i = mdns_invD [OF assms(1)]
  let ?c = "\<lambda>x. strcmp (md_name self x) n" and ?f = "(md_name self)(new := n)"
  let ?ts = "filter (\<lambda>x. 0 < ?c x) ts @ new # filter (\<lambda>x. ?c x < 0) ts"
  have new: "new \<notin> set ts" using assms(4) i(4) by simp
  have ne: "?c x \<noteq> 0" if "x \<in> set ts" for x
    using that assms(2,3) i(2,4) strcmp_eq [of "md_name self x" n] by (auto simp: hosts.falling_def)
  from rb.find_miss [OF i(1) hosts.falling_mono [OF i(2) assms(3)] ne] new assms(5) obtain parent link t where
    t: "rb_find (md_tree self) ?c = Some (Inr (parent, link))"
      "hev_rbtree_insert_color (hev_rbtree_node_link (md_tree self) new parent link) new = Some t" "rb_index t ?ts"
    by (auto simp: rb_insert_at_def rb_insert_def)
  have "hosts.falling ?f ts" 
    by (subst hosts.falling_cong [where g = "md_name self"]) (use i(2) new in auto)
  from hosts.falling_insert [OF this, of new] assms(3)
  have "hosts.falling ?f (filter (\<lambda>x. 0 < strcmp (?f x) n) ts @ new # filter (\<lambda>x. strcmp (?f x) n < 0) ts)"
    by simp
  moreover have "filter (\<lambda>x. 0 < strcmp (?f x) n) ts = filter (\<lambda>x. 0 < ?c x) ts"
    "filter (\<lambda>x. strcmp (?f x) n < 0) ts = filter (\<lambda>x. ?c x < 0) ts"
    using new by (auto intro!: filter_cong)
  ultimately have "hosts.falling ?f ?ts" by simp
  moreover have "set ?ts = insert new (set ts)" using ne by (auto simp: linorder_neq_iff)
  ultimately show thesis using t that by blast
qed

lemma mdns_find_room:
  assumes "mdns_inv self ts ls" "\<And>p. p \<in> set ls \<Longrightarrow> md_name self p \<noteq> n" "0 \<notin> set n" "new \<notin> set ls" "rb_fit new"
    and "md_use self < md_max self"
  shows "\<exists>self' ts'. hev_mapped_dns_find self new n = Some (md_use self, self') \<and> mdns_inv self' ts' (ls @ [new]) \<and>
    mdns_cache self' (ls @ [new]) = mdns_cache self ls @ [(n, md_use self)] \<and> md_max self' = md_max self \<and>
    md_net self' = md_net self \<and> md_mask self' = md_mask self"
proof -
  note i = mdns_invD [OF assms(1)]
  obtain parent link t ts' where
    t: "rb_find (md_tree self) (\<lambda>x. strcmp (md_name self x) n) = Some (Inr (parent, link))"
      "hev_rbtree_insert_color (hev_rbtree_node_link (md_tree self) new parent link) new = Some t"
      "rb_index t ts'" "hosts.falling ((md_name self)(new := n)) ts'" "set ts' = insert new (set ts)"
    by (rule mdns_insert [OF assms(1-5)])
  have nn: "new \<noteq> NULL" using assms(5) by (simp add: rb_fit_def)
  let ?u = "md_use self"
  let ?s = "self\<lparr>md_name := (md_name self)(new := n), md_idx := (md_idx self)(new := ?u), md_tree := t,
    md_list := hev_list_add_tail (md_list self) new, md_use := ?u + 1, md_records := (md_records self)[nat ?u := new]\<rparr>"
  have u: "0 \<le> ?u" "nat ?u < length (md_records self)" using i(5,7) assms(6) by simp_all
  have f: "hev_mapped_dns_find self new n = Some (?u, ?s)"
    using t(1,2) nn u assms(6)
    by (simp add: hev_mapped_dns_find_def hev_mapped_dns_node_alloc_def mdns_store_def Let_def)
  have "list_rep (md_list ?s) (ls @ [new])" using hl.rep_add_tail [OF i(3) assms(4) nn] by simp
  moreover have "\<forall>p\<in>set (ls @ [new]). 0 \<le> md_idx ?s p \<and> md_idx ?s p < md_use ?s \<and> md_records ?s ! nat (md_idx ?s p) = p"
    using i(8) assms(4) u by (fastforce simp: nth_list_update)
  moreover have "md_records ?s ! j = NULL \<or> md_records ?s ! j \<in> set (ls @ [new]) \<and> md_idx ?s (md_records ?s ! j) = int j"
    if "j < nat (md_max self)" for j
    using i(9) [OF that] assms(4) u that i(7) by (cases "j = nat ?u") auto
  ultimately have "mdns_inv ?s ts' (ls @ [new])"
    using t(3-5) i(4-7,10,11) assms(6) by (simp add: mdns_inv_def)
  moreover have "mdns_cache ?s (ls @ [new]) = mdns_cache self ls @ [(n, ?u)]"
    using assms(4) by (auto simp: mdns_cache_def)
  ultimately show ?thesis using f by (intro exI [of _ ?s] exI [of _ ts']) simp
qed

lemma mdns_find_evict:
  assumes "mdns_inv self ts ls" "\<And>p. p \<in> set ls \<Longrightarrow> md_name self p \<noteq> n" "0 \<notin> set n" "new \<notin> set ls" "rb_fit new"
    and "\<not> md_use self < md_max self"
  shows "\<exists>self' ts'. hev_mapped_dns_find self new n = Some (md_idx self (hd ls), self') \<and> mdns_inv self' ts' (tl ls @ [new]) \<and>
    mdns_cache self' (tl ls @ [new]) = tl (mdns_cache self ls) @ [(n, md_idx self (hd ls))] \<and>
    md_freed self' = md_freed self @ [hd ls] \<and> md_max self' = md_max self \<and>
    md_net self' = md_net self \<and> md_mask self' = md_mask self"
proof -
  note i = mdns_invD [OF assms(1)]
  obtain parent link t ts1 where
    t: "rb_find (md_tree self) (\<lambda>x. strcmp (md_name self x) n) = Some (Inr (parent, link))"
      "hev_rbtree_insert_color (hev_rbtree_node_link (md_tree self) new parent link) new = Some t"
      "rb_index t ts1" "hosts.falling ((md_name self)(new := n)) ts1" "set ts1 = insert new (set ts)"
    by (rule mdns_insert [OF assms(1-5)])
  have nn: "new \<noteq> NULL" using assms(5) by (simp add: rb_fit_def)
  obtain e ls' where ls: "ls = e # ls'" using i(5,10) assms(6) by (cases ls) auto
  have e: "e \<in> set ls" "e \<noteq> new" "e \<notin> set ls'" "e \<in> set ts1" using ls assms(4) i(4,12) t(5) by auto
  have l1: "list_rep (hev_list_add_tail (md_list self) new) (ls @ [new])"
    using hl.rep_add_tail [OF i(3) assms(4) nn] .
  note ev = hl.rep_evict [OF l1]
  have fst: "hev_list_first (hev_list_add_tail (md_list self) new) = e" using ev(1) ls by simp
  from rb.erase_idx [OF t(3) e(4)] obtain t2 where
    t2: "hev_rbtree_erase t e = Some t2" "rb_index t2 (remove1 e ts1)" by blast
  let ?x = "md_idx self e"
  let ?s = "self\<lparr>md_name := (md_name self)(new := n), md_idx := (md_idx self)(new := ?x), md_tree := t2,
    md_list := hev_list_del (hev_list_add_tail (md_list self) new) e, md_freed := md_freed self @ [e],
    md_records := (md_records self)[nat ?x := new]\<rparr>"
  have x: "0 \<le> ?x" "nat ?x < length (md_records self)" "md_records self ! nat ?x = e"
    using i(8) [OF e(1)] i(6,7) by auto
  have f: "hev_mapped_dns_find self new n = Some (?x, ?s)"
    using t(1,2) nn x e(2) assms(6) fst t2(1)
    by (simp add: hev_mapped_dns_find_def hev_mapped_dns_node_alloc_def hev_mapped_dns_node_free_def
        mdns_store_def Let_def)
  have idx: "nat (md_idx self p) \<noteq> nat ?x" if "p \<in> set ls'" for p
    using that i(8) [of p] x e(3) ls by (metis list.set_intros(2))
  have a: "list_rep (md_list ?s) (ls' @ [new])" using ev(2) fst ls by simp
  have b: "\<forall>p\<in>set (ls' @ [new]). 0 \<le> md_idx ?s p \<and> md_idx ?s p < md_use ?s \<and> md_records ?s ! nat (md_idx ?s p) = p"
  proof
    fix p assume "p \<in> set (ls' @ [new])"
    then consider "p = new" | "p \<in> set ls'" "p \<in> set ls" "p \<noteq> new" using ls assms(4) by auto
    then show "0 \<le> md_idx ?s p \<and> md_idx ?s p < md_use ?s \<and> md_records ?s ! nat (md_idx ?s p) = p"
      using x i(8) [OF e(1)] i(8) [of p] idx [of p] by cases simp_all
  qed
  have c: "\<forall>j<nat (md_max ?s). md_records ?s ! j = NULL \<or>
      md_records ?s ! j \<in> set (ls' @ [new]) \<and> md_idx ?s (md_records ?s ! j) = int j"
  proof (intro allI impI)
    fix j
    assume "j < nat (md_max ?s)"
    then show "md_records ?s ! j = NULL \<or> md_records ?s ! j \<in> set (ls' @ [new]) \<and> md_idx ?s (md_records ?s ! j) = int j"
      using i(9) [of j] assms(4) x i(7) ls by (cases "j = nat ?x") auto
  qed
  have d: "hosts.falling (md_name ?s) (remove1 e ts1)"
    using hosts.falling_remove [OF t(4)] rb_index_distinct [OF t(3)] by simp
  have s: "set (ls' @ [new]) = set (remove1 e ts1)"
    using t(5) rb_index_distinct [OF t(3)] ls e i(4) assms(4) by auto
  have "mdns_inv ?s (remove1 e ts1) (ls' @ [new])"
    by (rule mdns_invI [OF _ d a s _ _ _ b c]) (use t2(2) i(5-7,10,11) ls in simp_all)
  moreover have "mdns_cache ?s (ls' @ [new]) = tl (mdns_cache self ls) @ [(n, ?x)]"
    using assms(4) ls by (auto simp: mdns_cache_def)
  ultimately show ?thesis using f ls by (intro exI [of _ ?s] exI [of _ "remove1 e ts1"]) simp
qed

text \<open>All cases: the pointer structures implement the abstract cache.\<close>

lemma mdns_find_refines:
  assumes "mdns_inv self ts ls" "0 \<notin> set n" "new \<notin> set ls" "rb_fit new"
  shows "\<exists>idx self' ts' ls'. hev_mapped_dns_find self new n = Some (idx, self') \<and> mdns_inv self' ts' ls' \<and>
    (idx, mdns_cache self' ls') = lru_get (nat (md_max self)) (mdns_cache self ls) n \<and>
    md_max self' = md_max self \<and> md_net self' = md_net self \<and> md_mask self' = md_mask self \<and>
    set ls' \<subseteq> insert new (set ls) \<and> (n, idx) \<in> set (mdns_cache self' ls')"
proof (cases "\<exists>p\<in>set ls. md_name self p = n")
  case True
  then obtain p where p: "p \<in> set ls" "md_name self p = n" by auto
  with mdns_find_hit [OF assms(1) p(1), of new] mdns_touch_inv [OF assms(1) p(1)]
    mdns_cache_map_of(1) [OF assms(1) p(1)] mdns_invD(12) [OF assms(1)]
  show ?thesis
    by (intro exI [of _ "md_idx self p"] exI [of _ "mdns_touch self p"] exI [of _ ts] exI [of _ "remove1 p ls @ [p]"])
      (auto simp: lru_get_def mdns_touch_def)
next
  case False
  then have ne: "\<And>p. p \<in> set ls \<Longrightarrow> md_name self p \<noteq> n" by auto
  note i = mdns_invD [OF assms(1)] and mo = mdns_cache_map_of(2) [OF assms(1) ne]
  have len: "length (mdns_cache self ls) = length ls" by (simp add: mdns_cache_def)
  show ?thesis
  proof (cases "md_use self < md_max self")
    case True
    from mdns_find_room [OF assms(1) ne assms(2-4) True] obtain self' ts' where
      r: "hev_mapped_dns_find self new n = Some (md_use self, self')" "mdns_inv self' ts' (ls @ [new])"
        "mdns_cache self' (ls @ [new]) = mdns_cache self ls @ [(n, md_use self)]" "md_max self' = md_max self"
        "md_net self' = md_net self" "md_mask self' = md_mask self" by blast
    then show ?thesis using mo True i(5) len
      by (intro exI [of _ "md_use self"] exI [of _ self'] exI [of _ ts'] exI [of _ "ls @ [new]"])
        (auto simp: lru_get_def)
  next
    case False
    have "ls \<noteq> []" using False i(5,10) by auto
    then have "snd (hd (mdns_cache self ls)) = md_idx self (hd ls)" by (cases ls) (auto simp: mdns_cache_def)
    moreover from mdns_find_evict [OF assms(1) ne assms(2-4) False] obtain self' ts' where
      r: "hev_mapped_dns_find self new n = Some (md_idx self (hd ls), self')" "mdns_inv self' ts' (tl ls @ [new])"
        "mdns_cache self' (tl ls @ [new]) = tl (mdns_cache self ls) @ [(n, md_idx self (hd ls))]"
        "md_max self' = md_max self" "md_net self' = md_net self" "md_mask self' = md_mask self" by blast
    moreover have "set (tl ls) \<subseteq> set ls" by (cases ls) auto
    ultimately show ?thesis using mo False i(5) len
      by (intro exI [of _ "md_idx self (hd ls)"] exI [of _ self'] exI [of _ ts'] exI [of _ "tl ls @ [new]"])
        (auto simp: lru_get_def)
  qed
qed

subsection \<open>Looking an address up\<close>

lemma host_part_nonneg: "0 \<le> sint (NOT msk) \<Longrightarrow> 0 \<le> sint (ip AND NOT msk)" for ip msk :: u32
  by (simp add: signed_and_eq)

lemma mdns_lookup_cases:
  assumes "mdns_inv self ts ls"
  shows "hev_mapped_dns_lookup self ip = Some (None, self) \<and>
      (\<forall>p\<in>set ls. md_idx self p \<noteq> sint (ip AND NOT (md_mask self))) \<or>
    (\<exists>p\<in>set ls. md_idx self p = sint (ip AND NOT (md_mask self)) \<and>
      hev_mapped_dns_lookup self ip = Some (Some (md_name self p), mdns_touch self p))"
proof -
  note i = mdns_invD [OF assms]
  let ?x = "sint (ip AND NOT (md_mask self))"
  have x: "0 \<le> ?x" using host_part_nonneg i(10,11) by simp
  show ?thesis
  proof (cases "?x < md_max self")
    case True
    then have l: "nat ?x < nat (md_max self)" using x by simp
    let ?p = "md_records self ! nat ?x"
    show ?thesis
    proof (cases "?p = NULL")
      case True
      then have "md_idx self p \<noteq> ?x" if "p \<in> set ls" for p using i(8,14) that by metis
      with True \<open>?x < md_max self\<close> l x i(7) show ?thesis by (auto simp: hev_mapped_dns_lookup_def Let_def)
    next
      case False
      with i(9) [OF l] have "?p \<in> set ls" "md_idx self ?p = ?x" using x by auto
      with False \<open>?x < md_max self\<close> l x i(7) show ?thesis
        by (auto simp: hev_mapped_dns_lookup_def Let_def)
    qed
  next
    case False
    then have "md_idx self p \<noteq> ?x" if "p \<in> set ls" for p using i(6) i(8) [OF that] by linarith
    with False show ?thesis by (auto simp: hev_mapped_dns_lookup_def Let_def)
  qed
qed

text \<open>The host part of an address made from an index is the index.\<close>

lemma host_part_of_index:
  fixes net msk :: u32
  assumes "NOT msk = mask k" "net AND NOT msk = 0" "0 \<le> i" "i < sint (NOT msk)"
  shows "sint ((net OR of_int i) AND NOT msk) = i"
proof -
  have k: "i < 2 ^ k" "i < 2 ^ 31"
  proof -
    have lt: "sint (NOT msk) < 2 ^ 31" using sint_lt [of "NOT msk"] by simp
    with assms(4) show "i < 2 ^ 31" by linarith
    have "take_bit 32 (uint (NOT msk)) \<le> uint (NOT msk)" by (simp add: take_bit_int_less_eq_self_iff)
    then have "sint (NOT msk) \<le> uint (NOT msk)"
      using sint_uint [of "NOT msk"] by (auto simp: signed_take_bit_eq_take_bit_minus)
    moreover have "uint (NOT msk) < 2 ^ k"
      unfolding assms(1) take_bit_minus_one_eq_mask [symmetric] unsigned_take_bit_eq
      by (rule take_bit_int_less_exp)
    ultimately show "i < 2 ^ k" using assms(4) by linarith
  qed
  have "(net OR of_int i) AND NOT msk = (of_int i :: u32) AND mask k"
    using assms(1,2) by (simp add: bit.conj_disj_distrib2)
  also have "\<dots> = take_bit k (of_int i)" by (simp add: take_bit_eq_mask)
  also have "\<dots> = of_int i"
    using k assms(3) by (simp add: of_int_take_bit [symmetric] take_bit_int_eq_self del: of_int_take_bit)
  finally show ?thesis using k assms(3) by (simp add: sint_sbintrunc' signed_take_bit_int_eq_self)
qed

subsection \<open>Reachable states\<close>

definition mdns_live :: "HevMappedDNS \<Rightarrow> ptr set" where
  "mdns_live self = set (md_records self) - {NULL}"

text \<open>
  Every sequence of calls on a new instance; the allocator returns null or a fitting address that
  is not in use.
\<close>

inductive mdns_reach :: "HevMappedDNS \<Rightarrow> bool" where
  mdns_start: "hev_mapped_dns_new True th lh net msk mx = Some self \<Longrightarrow> 0 < mx \<Longrightarrow> mdns_reach self"
| mdns_find: "mdns_reach self \<Longrightarrow> new = NULL \<or> rb_fit new \<and> new \<notin> mdns_live self \<Longrightarrow> 0 \<notin> set n \<Longrightarrow>
    hev_mapped_dns_find self new n = Some (idx, self') \<Longrightarrow> mdns_reach self'"
| mdns_lookup: "mdns_reach self \<Longrightarrow> hev_mapped_dns_lookup self ip = Some (r, self') \<Longrightarrow> mdns_reach self'"

lemma mdns_live_list:
  assumes "mdns_inv self ts ls"
  shows "mdns_live self = set ls"
proof -
  note i = mdns_invD [OF assms]
  have "p \<in> set (md_records self)" if "p \<in> set ls" for p
    using i(6,7) i(8) [OF that] nth_mem [of "nat (md_idx self p)" "md_records self"] by auto
  moreover have "p \<in> set ls" if "p \<in> set (md_records self)" "p \<noteq> NULL" for p
    using that i(7,9) by (metis in_set_conv_nth)
  ultimately show ?thesis using i(14) by (auto simp: mdns_live_def)
qed

lemma mdns_find_total:
  assumes "mdns_inv self ts ls" "new = NULL \<or> rb_fit new \<and> new \<notin> mdns_live self" "0 \<notin> set n"
  shows "\<exists>idx self' ts' ls'. hev_mapped_dns_find self new n = Some (idx, self') \<and> mdns_inv self' ts' ls'"
proof (cases "new = NULL \<and> (\<forall>p\<in>set ls. md_name self p \<noteq> n)")
  case True
  note i = mdns_invD [OF assms(1)]
  have "\<exists>pos. rb_find (md_tree self) (\<lambda>x. strcmp (md_name self x) n) = Some (Inr pos)"
    using rb.find_miss [OF i(1) hosts.falling_mono [OF i(2) assms(3)]] True i(2,4) assms(3)
    by (auto simp: strcmp_eq hosts.falling_def)
  then have "hev_mapped_dns_find self new n = Some (-1, self)" using True by (auto simp: hev_mapped_dns_find_def)
  with assms(1) show ?thesis by blast
next
  case False
  show ?thesis
  proof (cases "new = NULL")
    case True
    with False obtain p where "p \<in> set ls" "md_name self p = n" by auto
    with mdns_find_hit [OF assms(1), of p new] mdns_touch_inv(1) [OF assms(1)] show ?thesis by blast
  next
    case False
    with assms(2) mdns_find_refines [OF assms(1,3), of new] mdns_live_list [OF assms(1)] show ?thesis by blast
  qed
qed

lemma mdns_reach_inv: "mdns_reach self \<Longrightarrow> \<exists>ts ls. mdns_inv self ts ls"
proof (induction rule: mdns_reach.induct)
  case (mdns_start th lh net msk mx self)
  then show ?case using mdns_new_inv by blast
next
  case (mdns_find self new n idx self')
  then show ?case using mdns_find_total by fastforce
next
  case (mdns_lookup self ip r self')
  then obtain ts ls where "mdns_inv self ts ls" by blast
  with mdns_lookup_cases [OF this, of ip] mdns_lookup.hyps(2) mdns_touch_inv(1) show ?case by fastforce
qed

subsection \<open>Queries\<close>

definition dns_enc :: "u8 list list \<Rightarrow> u8 list" where
  "dns_enc ls = concat (map (\<lambda>l. of_nat (length l) # l) ls)"

definition dns_dotted :: "u8 list list \<Rightarrow> u8 list" where
  "dns_dotted ls = concat (map (\<lambda>l. 46 # l) ls)"

lemma length_dotted [simp]: "length (dns_dotted ls) = length (dns_enc ls)"
  by (induction ls) (auto simp: dns_dotted_def dns_enc_def)

lemma dns_labels_enc:
  "(\<And>l. l \<in> set ls \<Longrightarrow> l \<noteq> [] \<and> length l < 256) \<Longrightarrow> length pre + length (dns_enc ls) < qlen \<Longrightarrow>
   dns_labels qlen (pre @ dns_enc ls @ 0 # post) (length pre) =
     Some (pre @ dns_dotted ls @ 0 # post, Some (length pre + length (dns_enc ls)))"
proof (induction ls arbitrary: pre)
  case Nil
  show ?case by (subst dns_labels.simps) (simp add: dns_enc_def dns_dotted_def nth_append)
next
  case (Cons l ls)
  let ?b = "of_nat (length l) :: u8"
  have b: "unat ?b = length l" "l \<noteq> []" using Cons.prems(1) [of l] by (auto simp: unat_of_nat)
  then have nz: "?b \<noteq> 0" by (metis length_0_conv unat_0)
  have e: "dns_enc (l # ls) = ?b # l @ dns_enc ls" "dns_dotted (l # ls) = 46 # l @ dns_dotted ls"
    by (simp_all add: dns_enc_def dns_dotted_def)
  have n: "(pre @ dns_enc (l # ls) @ 0 # post) ! length pre = ?b" by (simp add: e nth_append)
  have u: "(pre @ dns_enc (l # ls) @ 0 # post)[length pre := 46] = (pre @ 46 # l) @ dns_enc ls @ 0 # post"
    by (simp add: e list_update_append)
  have "dns_labels qlen (pre @ dns_enc (l # ls) @ 0 # post) (length pre) =
      dns_labels qlen ((pre @ 46 # l) @ dns_enc ls @ 0 # post) (length (pre @ 46 # l))"
    using Cons.prems(2) nz b
    by (subst dns_labels.simps) (simp only: n u, simp add: e Let_def)
  also have "\<dots> = Some ((pre @ 46 # l) @ dns_dotted ls @ 0 # post, Some (length (pre @ 46 # l) + length (dns_enc ls)))"
    using Cons.prems by (intro Cons.IH) (auto simp: e)
  finally show ?case by (simp add: e)
qed

lemma c_string_nul_free [simp]: "0 \<notin> set (c_string s)"
  by (auto simp: c_string_def dest: set_takeWhileD)

lemma dns_labels_in_range:
  "qlen < length rb \<Longrightarrow> off \<le> qlen \<Longrightarrow> \<exists>rb' o'. dns_labels qlen rb off = Some (rb', o') \<and> length rb' = length rb \<and>
     (\<forall>k. o' = Some k \<longrightarrow> off \<le> k \<and> k \<le> qlen)"
proof (induction qlen rb off rule: dns_labels.induct)
  case (1 qlen rb off)
  show ?case
  proof (cases "rb ! off = 0")
    case True
    with 1 show ?thesis by (subst dns_labels.simps) simp
  next
    case False
    let ?o = "off + 1 + unat (rb ! off)"
    show ?thesis
    proof (cases "qlen \<le> ?o")
      case True
      with False 1(2,3) show ?thesis by (subst dns_labels.simps) (simp add: Let_def)
    next
      case lt: False
      have "\<exists>rb' o'. dns_labels qlen (rb[off := 46]) ?o = Some (rb', o') \<and> length rb' = length (rb[off := 46]) \<and>
          (\<forall>k. o' = Some k \<longrightarrow> ?o \<le> k \<and> k \<le> qlen)"
        using 1(2,3) False lt by (intro "1.IH") auto
      with False lt 1(2,3) show ?thesis by (subst dns_labels.simps) (fastforce simp: Let_def)
    qed
  qed
qed

lemma dns_questions_in_range:
  assumes m: "\<And>s. malloc s = NULL \<or> rb_fit (malloc s) \<and> malloc s \<notin> mdns_live s"
  shows "mdns_inv self ts ls \<Longrightarrow> qlen < length rb \<Longrightarrow> off \<le> qlen \<Longrightarrow>
    \<exists>self' ts' ls' rb' r. dns_questions malloc n self qlen rb off ips = Some (self', rb', r) \<and> mdns_inv self' ts' ls' \<and>
      (\<forall>k is. r = Some (k, is) \<longrightarrow> off \<le> k \<and> k \<le> qlen \<and> length is \<le> length ips + n)"
proof (induction n arbitrary: self ts ls rb off ips)
  case (Suc n)
  from dns_labels_in_range [OF Suc.prems(2,3)] obtain rb1 o1 where
    l: "dns_labels qlen rb off = Some (rb1, o1)" "length rb1 = length rb" "\<And>k. o1 = Some k \<Longrightarrow> off \<le> k \<and> k \<le> qlen" by blast
  show ?case
  proof (cases o1)
    case None
    with l(1) Suc.prems(1) show ?thesis by auto
  next
    case (Some k)
    with l(3) have k: "off \<le> k" "k \<le> qlen" by auto
    show ?thesis
    proof (cases "k + 1 + 3 \<ge> qlen")
      case True
      with l(1) Some Suc.prems(1) show ?thesis by auto
    next
      case False
      have step: "\<exists>self' ts' ls' rb' r. dns_questions malloc n s qlen rb1 (k + 5) is = Some (self', rb', r) \<and>
          mdns_inv self' ts' ls' \<and> (\<forall>j js. r = Some (j, js) \<longrightarrow> off \<le> j \<and> j \<le> qlen \<and> length js \<le> length is + n)"
        if "mdns_inv s a b" for s a b "is"
        using Suc.IH [OF that, of rb1 "k + 5" "is"] Suc.prems(2) l(2) False k by fastforce
      show ?thesis
      proof (cases "read_u16 rb1 (k + 1) = 1 \<and> read_u16 rb1 (k + 3) = 1")
        case True
        from mdns_find_total [OF Suc.prems(1) m c_string_nul_free, of "drop (off + 1) rb1"] obtain idx s a b where
          f: "hev_mapped_dns_find self (malloc self) (c_string (drop (off + 1) rb1)) = Some (idx, s)" "mdns_inv s a b"
          by blast
        let ?is = "if idx \<ge> 0 then ips @ [(off, md_net s OR of_int idx)] else ips"
        have q: "dns_questions malloc (Suc n) self qlen rb off ips = dns_questions malloc n s qlen rb1 (k + 5) ?is"
          using l(1,2) Some False True f(1) Suc.prems(2) by (simp add: Let_def eval_nat_numeral)
        obtain s' a' b' rb' r where r: "dns_questions malloc n s qlen rb1 (k + 5) ?is = Some (s', rb', r)"
          "mdns_inv s' a' b'" "\<forall>j js. r = Some (j, js) \<longrightarrow> off \<le> j \<and> j \<le> qlen \<and> length js \<le> length ?is + n"
          using step [OF f(2), of ?is] by blast
        have "\<forall>j js. r = Some (j, js) \<longrightarrow> off \<le> j \<and> j \<le> qlen \<and> length js \<le> length ips + Suc n"
          using r(3) by (auto split: if_splits)
        then show ?thesis unfolding q r(1) using r(2) by blast
      next
        case other: False
        have q: "dns_questions malloc (Suc n) self qlen rb off ips = dns_questions malloc n self qlen rb1 (k + 5) ips"
          using l(1,2) Some False other Suc.prems(2) by (auto simp: Let_def eval_nat_numeral)
        obtain s' a' b' rb' r where r: "dns_questions malloc n self qlen rb1 (k + 5) ips = Some (s', rb', r)"
          "mdns_inv s' a' b'" "\<forall>j js. r = Some (j, js) \<longrightarrow> off \<le> j \<and> j \<le> qlen \<and> length js \<le> length ips + n"
          using step [OF Suc.prems(1), of ips] by blast
        have "\<forall>j js. r = Some (j, js) \<longrightarrow> off \<le> j \<and> j \<le> qlen \<and> length js \<le> length ips + Suc n"
          using r(3) by auto
        then show ?thesis unfolding q r(1) using r(2) by blast
      qed
    qed
  qed
qed auto

definition be32 :: "u32 \<Rightarrow> u8 list" where
  "be32 v = [ucast (drop_bit 24 v), ucast (drop_bit 16 v), ucast (drop_bit 8 v), ucast v]"

text \<open>An answer record: a pointer to the name, type A, class IN, a time to live of 1, the address.\<close>

definition dns_record :: "nat \<Rightarrow> u32 \<Rightarrow> u8 list" where
  "dns_record ipo ip = [0xc0, of_nat ipo, 0, 1, 0, 1, 0, 0, 0, 1, 0, 4] @ be32 ip"

lemma length_dns_record [simp]: "length (dns_record ipo ip) = 16"
  by (simp add: dns_record_def be32_def)

lemma mem_write_mem_write:
  "off + length xs + length ys \<le> length m \<Longrightarrow> k = off + length xs \<Longrightarrow>
   mem_write (mem_write m off xs) k ys = mem_write m off (xs @ ys)"
  by (simp add: mem_write_def add.assoc add.left_commute add.commute)

lemma upd_two: "p + 2 \<le> length m \<Longrightarrow> m[p := a, p + 1 := b] = mem_write m p [a, b]"
  using mem_write_mem_write [of p "[a]" "[b]" m "p + 1"] by (simp add: list_update_mem_write)

lemma write_u16_mem: "p + 2 \<le> length m \<Longrightarrow> write_u16 m p v = mem_write m p (be16 v)"
  by (simp only: write_u16_def upd_two be16_def hi8_def lo8_def)

lemma write_u32_mem:
  assumes "p + 4 \<le> length m"
  shows "write_u32 m p v = mem_write m p (be32 v)"
proof -
  have "write_u32 m p v = mem_write (mem_write (mem_write (mem_write m p [ucast (drop_bit 24 v)]) (p + 1)
      [ucast (drop_bit 16 v)]) (p + 2) [ucast (drop_bit 8 v)]) (p + 3) [ucast v]"
    using assms by (simp add: write_u32_def list_update_mem_write)
  also have "\<dots> = mem_write m p (be32 v)" using assms by (simp add: mem_write_mem_write be32_def)
  finally show ?thesis .
qed

lemma dns_record_write:
  assumes "off + 16 \<le> length sb"
  shows "write_u32 (write_u16 (write_u32 (write_u16 (write_u16 (sb[off := 0xc0, off + 1 := of_nat ipo]) (off + 2) 1)
      (off + 4) 1) (off + 6) 1) (off + 10) 4) (off + 12) ip = mem_write sb off (dns_record ipo ip)"
proof -
  have c: "be16 1 = [0, 1]" "be16 4 = [0, 4]" "be32 1 = [0, 0, 0, 1]"
    by (simp_all add: be16_def be32_def hi8_def lo8_def)
  have l: "length (be32 ip) = 4" by (simp add: be32_def)
  have [simp]: "off + 2 \<le> length sb" "off + 4 \<le> length sb" "off + 6 \<le> length sb" "off + 10 \<le> length sb"
    "off + 12 \<le> length sb" using assms by simp_all
  show ?thesis
    using assms l
    by (simp add: upd_two [simplified] write_u16_mem write_u32_mem c mem_write_mem_write dns_record_def)
qed

lemma dns_answers_step:
  assumes "slen \<le> length sb"
  shows "dns_answers slen ((ipo, ip) # ips) sb off =
    (if off + 15 \<ge> slen then (sb, None) else dns_answers slen ips (mem_write sb off (dns_record ipo ip)) (off + 16))"
proof (cases "off + 15 \<ge> slen")
  case False
  then have "off + 16 \<le> length sb" using assms by simp
  from dns_record_write [OF this] False show ?thesis by (simp add: Let_def)
qed simp

lemma dns_answers_within:
  "slen \<le> length sb \<Longrightarrow> off \<le> slen \<Longrightarrow> dns_answers slen ips sb off = (sb', r) \<Longrightarrow>
   length sb' = length sb \<and> drop slen sb' = drop slen sb \<and> take off sb' = take off sb \<and>
   (\<forall>k. r = Some k \<longrightarrow> k = off + 16 * length ips \<and> k \<le> slen)"
proof (induction ips arbitrary: sb off)
  case (Cons x ips)
  obtain ipo ip where x: "x = (ipo, ip)" by (cases x)
  show ?case
  proof (cases "off + 15 \<ge> slen")
    case True
    with Cons.prems x show ?thesis by (simp add: dns_answers_step)
  next
    case False
    let ?sb = "mem_write sb off (dns_record ipo ip)"
    have d: "dns_answers slen ips ?sb (off + 16) = (sb', r)"
      using False Cons.prems(1,3) x by (simp only: dns_answers_step) simp
    have w: "slen \<le> length ?sb" "off + 16 \<le> slen" "length ?sb = length sb" "drop slen ?sb = drop slen sb"
      "take off ?sb = take off sb"
      using False Cons.prems by (simp_all add: buf_simps)
    note ih = Cons.IH [OF w(1,2) d]
    have "take off sb' = take off (take (off + 16) sb')" by (simp add: min_def)
    also have "\<dots> = take off (take (off + 16) ?sb)" using ih by simp
    also have "\<dots> = take off sb" using w(5) by (simp add: min_def)
    finally have "take off sb' = take off sb" .
    moreover have "\<forall>k. r = Some k \<longrightarrow> k = off + 16 * length (x # ips) \<and> k \<le> slen"
      using conjunct2 [OF conjunct2 [OF conjunct2 [OF ih]]] by (simp add: add.assoc)
    moreover have "length sb' = length sb" using conjunct1 [OF ih] unfolding w(3) .
    moreover have "drop slen sb' = drop slen sb" using conjunct1 [OF conjunct2 [OF ih]] unfolding w(4) .
    ultimately show ?thesis by (intro conjI)
  qed
qed auto

subsection \<open>Properties\<close>


definition demo_mdns :: HevMappedDNS where
  "demo_mdns = the (hev_mapped_dns_new True (\<lambda>_. \<lparr>rb_pc = 0, rb_right = 0, rb_left = 0\<rparr>)
     (\<lambda>_. \<lparr>n_next = 0, n_prev = 0\<rparr>) 0xc6120000 0xfffe0000 2)"

lemma demo_mdns_new:
  "hev_mapped_dns_new True (\<lambda>_. \<lparr>rb_pc = 0, rb_right = 0, rb_left = 0\<rparr>)
     (\<lambda>_. \<lparr>n_next = 0, n_prev = 0\<rparr>) 0xc6120000 0xfffe0000 2 = Some demo_mdns"
  by (simp add: demo_mdns_def hev_mapped_dns_new_def hev_mapped_dns_construct_def)

lemma demo_mdns_inv: "mdns_inv demo_mdns [] []"
  using mdns_new_inv [OF demo_mdns_new] by simp


text \<open>C13 The tree, the list and the record array together behave as a least-recently-used cache of
  bounded size: a known name keeps its index and becomes the most recent; a new name gets the next
  free index, or, when the cache is full, the index of the least recently used name, which is
  forgotten.\<close>

theorem mapped_dns_refines_lru:
  assumes "mdns_inv self ts ls" "0 \<notin> set n" "new \<notin> set ls" "rb_fit new"
  shows "\<exists>idx self' ts' ls'. hev_mapped_dns_find self new n = Some (idx, self') \<and> mdns_inv self' ts' ls' \<and>
    (idx, mdns_cache self' ls') = lru_get (nat (md_max self)) (mdns_cache self ls) n"
  using mdns_find_refines [OF assms] by blast

theorem mapped_dns_refines_lru_witness:
  "\<exists>self' ts' ls'. hev_mapped_dns_find demo_mdns 16 [97] = Some (0, self') \<and> mdns_inv self' ts' ls' \<and>
     mdns_cache self' ls' = [([97], 0)]"
proof -
  have "md_max demo_mdns = 2"
    by (simp add: demo_mdns_def hev_mapped_dns_new_def hev_mapped_dns_construct_def)
  moreover have "mdns_cache demo_mdns [] = []" by (simp add: mdns_cache_def)
  ultimately show ?thesis
    using mapped_dns_refines_lru [OF demo_mdns_inv, of "[97]" 16]
    by (auto simp: rb_fit_def al_def lru_get_def)
qed

lemma mdns_lookup_cached:
  assumes "mdns_inv self ts ls" "NOT (md_mask self) = mask k" "md_net self AND NOT (md_mask self) = 0"
    and "(n, idx) \<in> set (mdns_cache self ls)"
  shows "0 \<le> idx \<and> idx < md_max self \<and>
    (\<exists>self'. hev_mapped_dns_lookup self (md_net self OR of_int idx) = Some (Some n, self'))"
proof -
  note i = mdns_invD [OF assms(1)]
  from assms(4) obtain p where p: "p \<in> set ls" "md_name self p = n" "md_idx self p = idx"
    by (auto simp: mdns_cache_def)
  have x: "0 \<le> idx" "idx < md_max self" "idx < sint (NOT (md_mask self))"
    using i(6) i(8) [OF p(1)] p(3) i(11) by auto
  have "sint ((md_net self OR of_int idx) AND NOT (md_mask self)) = idx"
    by (rule host_part_of_index [OF assms(2,3) x(1,3)])
  with mdns_lookup_cases [OF assms(1), of "md_net self OR of_int idx"] p obtain q where
    q: "q \<in> set ls" "md_idx self q = idx"
      "hev_mapped_dns_lookup self (md_net self OR of_int idx) = Some (Some (md_name self q), mdns_touch self q)"
    by auto
  have "q = p" using i(8) p(1,3) q(1,2) by metis
  with q(3) p(2) x show ?thesis by auto
qed

text \<open>C14 The address handed out for a name leads back to the name: with a contiguous netmask and a
  network address without host bits, looking up the address made from the index of a name returns
  that name, and the index is below the capacity.\<close>

theorem mapped_dns_roundtrip:
  assumes "mdns_inv self ts ls" "0 \<notin> set n" "new \<notin> set ls" "rb_fit new"
    and "NOT (md_mask self) = mask k" "md_net self AND NOT (md_mask self) = 0"
    and "hev_mapped_dns_find self new n = Some (idx, self')"
  shows "0 \<le> idx \<and> idx < md_max self \<and>
    (\<exists>self''. hev_mapped_dns_lookup self' (md_net self' OR of_int idx) = Some (Some n, self''))"
proof -
  from mdns_find_refines [OF assms(1-4)] assms(7) obtain ts' ls' where
    r: "mdns_inv self' ts' ls'" "md_max self' = md_max self" "md_net self' = md_net self"
      "md_mask self' = md_mask self" "(n, idx) \<in> set (mdns_cache self' ls')" by auto
  then show ?thesis using mdns_lookup_cached [OF r(1) _ _ r(5)] assms(5,6) by (metis r(2-4))
qed

theorem mapped_dns_roundtrip_witness:
  "\<exists>idx self' self''. hev_mapped_dns_find demo_mdns 16 [97] = Some (idx, self') \<and>
     hev_mapped_dns_lookup self' (md_net self' OR of_int idx) = Some (Some [97], self'')"
proof -
  obtain idx self' where f: "hev_mapped_dns_find demo_mdns 16 [97] = Some (idx, self')"
    using mdns_find_refines [OF demo_mdns_inv, of "[97]" 16] by (auto simp: rb_fit_def al_def)
  have "NOT (md_mask demo_mdns) = mask 17" "md_net demo_mdns AND NOT (md_mask demo_mdns) = 0"
    by (simp_all add: demo_mdns_def hev_mapped_dns_new_def hev_mapped_dns_construct_def mask_numeral)
  with mapped_dns_roundtrip [OF demo_mdns_inv, of "[97]" 16 17 idx self'] f show ?thesis
    by (auto simp: rb_fit_def al_def)
qed

text \<open>C17 A DNS query cannot make the handler leave its buffers: on a query of at least a header, with
  one readable byte behind it, the handler ends, leaves the mapped DNS intact, writes nothing past
  the usable part of the response, and returns -1 or a length within it.\<close>

theorem mapped_dns_handle_safe:
  assumes "mdns_inv self ts ls" "\<And>s. malloc s = NULL \<or> rb_fit (malloc s) \<and> malloc s \<notin> mdns_live s"
    and "12 \<le> qlen" "qlen < length req" "slen \<le> length res" "12 \<le> length res"
  shows "\<exists>r res' self' ts' ls'. hev_mapped_dns_handle malloc self req qlen res slen = Some (r, res', self') \<and>
    mdns_inv self' ts' ls' \<and> length res' = length res \<and> drop slen res' = drop slen res \<and>
    (r = -1 \<or> int 12 \<le> r \<and> r \<le> int slen)"
proof (cases "slen < qlen")
  case True
  with assms(1) show ?thesis by (auto simp: hev_mapped_dns_handle_def)
next
  case False
  let ?sb = "mem_write (mem_write (mem_write (mem_write (mem_write res 0 (take qlen req)) 2
    (le16 (ntohs (of_le16 (mem_read (mem_write res 0 (take qlen req)) 2 2))))) 8 (le16 0)) 6 (le16 0)) 10 (le16 0)"
  let ?qd = "ntohs (of_le16 (mem_read req 4 2))" and ?rb = "mem_write req 4 (le16 (ntohs (of_le16 (mem_read req 4 2))))"
  have sb: "length ?sb = length res" "drop slen ?sb = drop slen res" "slen \<le> length ?sb"
    using False assms(3-6) by (simp_all add: drop_mem_write_above)
  have rb: "qlen < length ?rb" using assms(3,4) by simp
  obtain s1 t1 l1 rb1 q where q: "dns_questions malloc (unat ?qd) self qlen ?rb 12 [] = Some (s1, rb1, q)"
    "mdns_inv s1 t1 l1" "\<And>k is. q = Some (k, is) \<Longrightarrow> 12 \<le> k \<and> k \<le> qlen"
    using dns_questions_in_range [OF assms(2,1) rb assms(3), where n = "unat ?qd" and ips = "[]"] by blast
  have h: "hev_mapped_dns_handle malloc self req qlen res slen = (if unat ?qd > 32 then Some (-1, ?sb, self)
      else case q of None \<Rightarrow> Some (-1, ?sb, s1) | Some (off, ips) \<Rightarrow>
        (case dns_answers slen ips ?sb off of (sb, None) \<Rightarrow> Some (-1, sb, s1)
         | (sb, Some off) \<Rightarrow> (let fl = of_le16 (mem_read sb 2 2);
             sb = mem_write sb 2 (le16 (htons (fl OR 0x8000 OR drop_bit 1 (fl AND 0x100))));
             sb = mem_write sb 6 (le16 (htons (of_nat (length ips)))) in Some (int off, sb, s1))))"
    using False assms(3-6) q(1) by (simp add: hev_mapped_dns_handle_def Let_def split: option.split prod.split)
  show ?thesis
  proof (cases "unat ?qd > 32 \<or> q = None")
    case True
    then show ?thesis unfolding h using sb assms(1) q(2) by (auto split: option.split)
  next
    case no: False
    then obtain off ips where o: "q = Some (off, ips)" by auto
    with q(3) have off: "12 \<le> off" "off \<le> slen" using False by auto
    obtain sb' r where a: "dns_answers slen ips ?sb off = (sb', r)" by (metis prod.exhaust)
    note w = dns_answers_within [OF sb(3) off(2) a]
    show ?thesis
    proof (cases r)
      case None
      then show ?thesis unfolding h using no o a w sb(1,2) q(2) by auto
    next
      case (Some k)
      let ?fl = "of_le16 (mem_read sb' 2 2)"
      let ?r = "mem_write (mem_write sb' 2 (le16 (htons (?fl OR 0x8000 OR drop_bit 1 (?fl AND 0x100))))) 6
        (le16 (htons (of_nat (length ips))))"
      have "length ?r = length res" "drop slen ?r = drop slen res"
        using w sb(1,2) assms(6) off by (simp_all add: drop_mem_write_above)
      moreover have "hev_mapped_dns_handle malloc self req qlen res slen = Some (int k, ?r, s1)"
        unfolding h using no o a Some by (simp add: Let_def)
      moreover have "12 \<le> k" "k \<le> slen" using w Some off by auto
      ultimately show ?thesis using q(2) by (metis of_nat_le_iff)
    qed
  qed
qed

theorem mapped_dns_handle_safe_witness:
  "\<exists>r res' self'. hev_mapped_dns_handle (\<lambda>s. if 16 \<in> mdns_live s then NULL else 16) demo_mdns
     ([0, 7, 1, 0, 0, 1, 0, 0, 0, 0, 0, 0] @ [1, 97, 0, 0, 1, 0, 1] @ [0]) 19 (replicate 1500 0) 1500 =
       Some (r, res', self') \<and> length res' = 1500"
proof -
  have "(if 16 \<in> mdns_live s then NULL else 16) = NULL \<or> rb_fit (if 16 \<in> mdns_live s then NULL else 16) \<and>
      (if 16 \<in> mdns_live s then NULL else 16) \<notin> mdns_live s" for s by (simp add: rb_fit_def al_def)
  from mapped_dns_handle_safe [OF demo_mdns_inv this, of 19
      "[0, 7, 1, 0, 0, 1, 0, 0, 0, 0, 0, 0] @ [1, 97, 0, 0, 1, 0, 1] @ [0]" 1500 "replicate 1500 0"]
  show ?thesis by auto
qed

lemma mem_read_copied:
  "length xs \<le> length m \<Longrightarrow> length xs = n \<Longrightarrow> i \<le> n \<Longrightarrow>
    mem_read (mem_write m 0 xs) i (n - i) = drop i xs"
  by (simp add: mem_read_def mem_write_def)

lemma handle_answered:
  assumes "qlen \<le> slen" "max 12 qlen \<le> length req" "max 12 slen \<le> length res"
    and "qd = ntohs (of_le16 (mem_read req 4 2))"
    and "sb = mem_write (mem_write (mem_write (mem_write (mem_write res 0 (take qlen req)) 2
      (le16 (ntohs (of_le16 (mem_read (mem_write res 0 (take qlen req)) 2 2))))) 8 (le16 0)) 6 (le16 0)) 10 (le16 0)"
    and "unat qd \<le> 32"
    and "dns_questions malloc (unat qd) self qlen (mem_write req 4 (le16 qd)) 12 [] = Some (s1, rb, Some (off, ips))"
    and "dns_answers slen ips sb off = (a, Some k)"
  shows "hev_mapped_dns_handle malloc self req qlen res slen =
    Some (int k, mem_write (mem_write a 2 (le16 (htons (of_le16 (mem_read a 2 2) OR 0x8000 OR
      drop_bit 1 (of_le16 (mem_read a 2 2) AND 0x100))))) 6 (le16 (htons (of_nat (length ips)))), s1)"
proof -
  have "\<not> slen < qlen" "\<not> (length req < max 12 qlen \<or> length res < max 12 slen)" using assms(1-3) by auto
  with assms(6-8) show ?thesis unfolding assms(4,5) by (simp add: hev_mapped_dns_handle_def Let_def)
qed

lemma dns_header_frame:
  assumes "12 \<le> n" "n + 16 \<le> length m"
  shows "mem_read (mem_write (mem_write m 2 (le16 v)) 6 (le16 (htons 1))) 6 2 = [0, 1] \<and>
    mem_read (mem_write (mem_write m 2 (le16 v)) 6 (le16 (htons 1))) 12 (n - 12) = mem_read m 12 (n - 12) \<and>
    mem_read (mem_write (mem_write m 2 (le16 v)) 6 (le16 (htons 1))) n 16 = mem_read m n 16"
  using assms by (simp add: mem_read_write_same mem_read_write_other le16_htons be16_def hi8_def lo8_def)

lemma handle_one_answer:
  assumes "qlen + 16 \<le> slen" "slen \<le> length res" "17 \<le> qlen" "qlen \<le> length req"
    and "ntohs (of_le16 (mem_read req 4 2)) = 1"
    and "dns_questions malloc 1 self qlen (mem_write req 4 (le16 1)) 12 [] = Some (s1, rb, Some (qlen, [(12, ip)]))"
  shows "\<exists>res'. hev_mapped_dns_handle malloc self req qlen res slen = Some (int (qlen + 16), res', s1) \<and>
    mem_read res' 6 2 = [0, 1] \<and> mem_read res' 12 (qlen - 12) = drop 12 (take qlen req) \<and>
    mem_read res' qlen 16 = dns_record 12 ip"
proof -
  define R where "R = mem_write res 0 (take qlen req)"
  define v where "v = ntohs (of_le16 (mem_read R 2 2))"
  define sb where "sb = mem_write (mem_write (mem_write (mem_write R 2 (le16 v)) 8 (le16 0)) 6 (le16 0)) 10 (le16 0)"
  have R: "length R = length res" "qlen + 16 \<le> length R" using assms(1,2,4) unfolding R_def by simp_all
  have sb: "length sb = length res" using R(2) unfolding sb_def by (simp add: R(1))
  have mr: "mem_read (mem_write m off (le16 w)) 12 (qlen - 12) = mem_read m 12 (qlen - 12)"
    if "off \<le> 10" "qlen \<le> length m" for m off w
    using that assms(3) by (simp add: mem_read_write_other)
  have "mem_read sb 12 (qlen - 12) = mem_read R 12 (qlen - 12)"
    unfolding sb_def using R(2) assms(3) by (simp add: mr)
  also have "\<dots> = drop 12 (take qlen req)"
    unfolding R_def by (rule mem_read_copied) (use assms(1-4) in simp_all)
  finally have cp: "mem_read sb 12 (qlen - 12) = drop 12 (take qlen req)" .
  define a where "a = mem_write sb qlen (dns_record 12 ip)"
  have a: "length a = length res" using R sb unfolding a_def by simp
  have an: "dns_answers slen [(12, ip)] sb qlen = (a, Some (qlen + 16))"
    using dns_answers_step [of slen sb 12 ip "[]" qlen] sb assms(1,2) unfolding a_def by simp
  let ?w = "htons (of_le16 (mem_read a 2 2) OR 0x8000 OR drop_bit 1 (of_le16 (mem_read a 2 2) AND 0x100))"
  let ?r = "mem_write (mem_write a 2 (le16 ?w)) 6 (le16 (htons 1))"
  have g: "qlen \<le> slen" "max 12 qlen \<le> length req" "max 12 slen \<le> length res" using assms(1-4) by auto
  have "hev_mapped_dns_handle malloc self req qlen res slen = Some (int (qlen + 16), ?r, s1)"
    using handle_answered [OF g assms(5) [symmetric] sb_def [unfolded v_def R_def] _ _ an] assms(6) by simp
  moreover have "mem_read ?r 6 2 = [0, 1] \<and> mem_read ?r 12 (qlen - 12) = mem_read a 12 (qlen - 12) \<and>
      mem_read ?r qlen 16 = mem_read a qlen 16"
    by (rule dns_header_frame) (use a R assms(3) in simp_all)
  moreover have "mem_read a 12 (qlen - 12) = drop 12 (take qlen req)"
    unfolding cp [symmetric] a_def by (rule mem_read_write_other) (use sb R assms(3) in simp_all)
  moreover have "mem_read a qlen 16 = dns_record 12 ip"
    unfolding a_def by (rule mem_read_write_same) (use sb R in simp_all)
  ultimately show ?thesis by metis
qed



end
