(* ===== verification/Lwip_Addr.thy ===== *)
theory Lwip_Addr
  imports Socks5_Addr Mapped_DNS
begin

text \<open>
  The border between the IP stack and SOCKS5 (\<^verbatim>\<open>misc/hev-utils.c\<close>): an lwip address with its
  port becomes the SOCKS5 address of the request, by host name when the mapped DNS gave the address
  out, and the address of a reply becomes an lwip address again. An \<^verbatim>\<open>ip_addr_t\<close> is its union of
  address bytes, as they lie in memory (network order), and its type tag.
\<close>

record ip_addr =
  ip_bytes :: "u8 list"
  ip_type :: nat

abbreviation (input) IPADDR_TYPE_V4 :: nat where "IPADDR_TYPE_V4 \<equiv> 0"
abbreviation (input) IPADDR_TYPE_V6 :: nat where "IPADDR_TYPE_V6 \<equiv> 6"

text \<open>\<^verbatim>\<open>ntohl (ip_2_ip4 (ip)->addr)\<close>: the four address bytes as a number.\<close>

definition ip4_host :: "ip_addr \<Rightarrow> u32" where
  "ip4_host ip = push_bit 24 (ucast (ip_bytes ip ! 0)) OR push_bit 16 (ucast (ip_bytes ip ! 1)) OR
     push_bit 8 (ucast (ip_bytes ip ! 2)) OR ucast (ip_bytes ip ! 3)"

text \<open>\<open>None\<close> for a record index outside the array of the mapped DNS; otherwise the result, the address
  and the mapped DNS, in which a lookup refreshes the record.\<close>

definition hev_socks5_addr_from_lwip ::
  "HevMappedDNS option \<Rightarrow> HevSocks5Addr \<Rightarrow> ip_addr \<Rightarrow> u16 \<Rightarrow>
   (int \<times> HevSocks5Addr \<times> HevMappedDNS option) option" where
  "hev_socks5_addr_from_lwip dns addr ip port =
     (if ip_type ip = IPADDR_TYPE_V4 then
        (case dns of
           None \<Rightarrow> Some (0, snd (hev_socks5_addr_from_ipv4 addr (ip_bytes ip) (htons port)), dns)
         | Some d \<Rightarrow>
             (case hev_mapped_dns_lookup d (ip4_host ip) of
                None \<Rightarrow> None
              | Some (None, d) \<Rightarrow>
                  Some (0, snd (hev_socks5_addr_from_ipv4 addr (ip_bytes ip) (htons port)), Some d)
              | Some (Some name, d) \<Rightarrow>
                  Some (0, snd (hev_socks5_addr_from_name addr name (htons port)), Some d)))
      else if ip_type ip = IPADDR_TYPE_V6 then
        Some (0, snd (hev_socks5_addr_from_ipv6 addr (ip_bytes ip) (htons port)), dns)
      else Some (-1, addr, dns))"

definition hev_socks5_addr_into_lwip :: "HevSocks5Addr \<Rightarrow> ip_addr \<Rightarrow> u16 \<Rightarrow> int \<times> ip_addr \<times> u16" where
  "hev_socks5_addr_into_lwip addr ip port =
     (if a_atype addr = HEV_SOCKS5_ADDR_TYPE_IPV4 then
        (0, ip\<lparr>ip_bytes := mem_write (ip_bytes ip) 0 (a_ipv4_addr addr), ip_type := IPADDR_TYPE_V4\<rparr>,
         ntohs (a_ipv4_port addr))
      else if a_atype addr = HEV_SOCKS5_ADDR_TYPE_IPV6 then
        (0, ip\<lparr>ip_bytes := mem_write (ip_bytes ip) 0 (a_ipv6_addr addr), ip_type := IPADDR_TYPE_V6\<rparr>,
         ntohs (a_ipv6_port addr))
      else (-1, ip, port))"

subsection \<open>Lemmas\<close>

text \<open>What distinguishes two addresses for the stack: the type and the bytes it uses.\<close>

definition ip_key :: "ip_addr \<Rightarrow> nat \<times> u8 list" where
  "ip_key ip = (ip_type ip, take (if ip_type ip = IPADDR_TYPE_V4 then 4 else 16) (ip_bytes ip))"

lemma ip4_host_be32:
  "take 4 (ip_bytes ip) = be32 v \<Longrightarrow> ip4_host ip = v"
proof -
  assume a: "take 4 (ip_bytes ip) = be32 v"
  have "ip_bytes ip ! i = be32 v ! i" if "i < 4" for i using that a nth_take [of i 4 "ip_bytes ip"] by simp
  then have "ip_bytes ip ! 0 = ucast (drop_bit 24 v)" "ip_bytes ip ! 1 = ucast (drop_bit 16 v)"
    "ip_bytes ip ! 2 = ucast (drop_bit 8 v)" "ip_bytes ip ! 3 = ucast v"
    by (simp_all add: be32_def numeral_2_eq_2 numeral_3_eq_3)
  note b = this
  show ?thesis
  proof (rule bit_word_eqI)
    fix i assume "i < LENGTH(32)"
    then consider "24 \<le> i" "i < 32" | "16 \<le> i" "i < 24" | "8 \<le> i" "i < 16" | "i < 8" by fastforce
    then show "bit (ip4_host ip) i \<longleftrightarrow> bit v i" 
      by cases (auto simp: ip4_host_def b b(2) [unfolded One_nat_def] bit_simps)
  qed
qed

lemma into_from_ipv4:
  assumes "length a = 260" "4 \<le> length (ip_bytes ip)" "ip_type ip = IPADDR_TYPE_V4" "length (ip_bytes out) = 16"
  shows "\<exists>ip'. hev_socks5_addr_into_lwip (snd (hev_socks5_addr_from_ipv4 a (ip_bytes ip) (htons port))) out q =
    (0, ip', port) \<and> ip_key ip' = ip_key ip"
proof -
  have e: "hev_socks5_addr_from_ipv4 a (ip_bytes ip) (htons port) =
      hev_socks5_addr_from_ipv4 a (take 4 (ip_bytes ip)) (htons port)"
    by (simp add: hev_socks5_addr_from_ipv4_def)
  have l: "length (take 4 (ip_bytes ip)) = 4" using assms(2) by simp
  show ?thesis
    unfolding e using from_ipv4_props [OF assms(1) l, of "htons port"] assms
    by (simp add: hev_socks5_addr_into_lwip_def ip_key_def mem_write_def)
qed

lemma into_from_ipv6:
  assumes "length a = 260" "length (ip_bytes ip) = 16" "ip_type ip = IPADDR_TYPE_V6" "length (ip_bytes out) = 16"
  shows "\<exists>ip'. hev_socks5_addr_into_lwip (snd (hev_socks5_addr_from_ipv6 a (ip_bytes ip) (htons port))) out q =
    (0, ip', port) \<and> ip_key ip' = ip_key ip"
  using from_ipv6_props [OF assms(1,2), of "htons port"] assms
  by (simp add: hev_socks5_addr_into_lwip_def ip_key_def mem_write_def)

subsection \<open>Properties\<close>

text \<open>The address of a peer survives the way through SOCKS5: unless the mapped DNS holds a name for
  it, converting an lwip address and port to a SOCKS5 address and back restores type, address bytes
  and port, whatever the two destinations held before.\<close>

theorem lwip_addr_roundtrip:
  assumes "length a = 260" "length (ip_bytes ip) = 16" "length (ip_bytes out) = 16"
    and "ip_type ip = IPADDR_TYPE_V4 \<or> ip_type ip = IPADDR_TYPE_V6"
    and "\<And>d. dns = Some d \<Longrightarrow> \<exists>d'. hev_mapped_dns_lookup d (ip4_host ip) = Some (None, d')"
  shows "\<exists>addr dns' ip'. hev_socks5_addr_from_lwip dns a ip port = Some (0, addr, dns') \<and>
    hev_socks5_addr_into_lwip addr out q = (0, ip', port) \<and> ip_key ip' = ip_key ip"
proof (cases "ip_type ip = IPADDR_TYPE_V4")
  case True
  have "\<exists>dns'. hev_socks5_addr_from_lwip dns a ip port =
      Some (0, snd (hev_socks5_addr_from_ipv4 a (ip_bytes ip) (htons port)), dns')"
    using True assms(5) by (cases dns) (auto simp: hev_socks5_addr_from_lwip_def)
  moreover have "4 \<le> length (ip_bytes ip)" using assms(2) by simp
  ultimately show ?thesis using into_from_ipv4 [OF assms(1) _ True assms(3)] by metis
next
  case False
  then have v6: "ip_type ip = IPADDR_TYPE_V6" using assms(4) by simp
  have "hev_socks5_addr_from_lwip dns a ip port =
      Some (0, snd (hev_socks5_addr_from_ipv6 a (ip_bytes ip) (htons port)), dns)"
    using v6 by (simp add: hev_socks5_addr_from_lwip_def)
  with into_from_ipv6 [OF assms(1,2) v6 assms(3)] show ?thesis by metis
qed

definition demo_ip :: ip_addr where
  "demo_ip = \<lparr>ip_bytes = [8, 8, 4, 4] @ replicate 12 0xee, ip_type = 0\<rparr>"

theorem lwip_addr_roundtrip_witness:
  "\<exists>addr ip'. hev_socks5_addr_from_lwip None (replicate 260 0xaa) demo_ip 53 = Some (0, addr, None) \<and>
     hev_socks5_addr_into_lwip addr \<lparr>ip_bytes = replicate 16 1, ip_type = 6\<rparr> 0 = (0, ip', 53) \<and>
     ip_key ip' = (0, [8, 8, 4, 4])"
proof -
  have "ip_key demo_ip = (0, [8, 8, 4, 4])" by (simp add: demo_ip_def ip_key_def)
  moreover have "\<And>addr dns'. hev_socks5_addr_from_lwip None (replicate 260 0xaa) demo_ip 53 = Some (0, addr, dns') \<Longrightarrow>
      dns' = None"
    by (simp add: hev_socks5_addr_from_lwip_def demo_ip_def)
  ultimately show ?thesis
    using lwip_addr_roundtrip [of "replicate 260 0xaa" demo_ip "\<lparr>ip_bytes = replicate 16 1, ip_type = 6\<rparr>" None 53 0]
    by (fastforce simp: demo_ip_def)
qed

text \<open>C34 A connection to an address that the mapped DNS answered with is asked of the proxy by name:
  after the index of a host name was handed out, the IP address made of it converts to the SOCKS5
  domain form of exactly that name, with the port in network order.\<close>

theorem lwip_mapped_name:
  assumes "mdns_inv d ts ls" "0 \<notin> set n" "length n \<le> 255" "new \<notin> set ls" "rb_fit new"
    and "NOT (md_mask d) = mask k" "md_net d AND NOT (md_mask d) = 0"
    and "hev_mapped_dns_find d new n = Some (idx, d')"
    and "ip_type ip = IPADDR_TYPE_V4" "take 4 (ip_bytes ip) = be32 (md_net d OR of_int idx)" "length a = 260"
  shows "\<exists>addr d''. hev_socks5_addr_from_lwip (Some d') a ip port = Some (0, addr, Some d'') \<and>
    addr_wire addr = [3, of_nat (length n)] @ n @ be16 port"
proof -
  from mdns_find_refines [OF assms(1,2,4,5)] assms(8) obtain ts' ls' where
    r: "mdns_inv d' ts' ls'" "md_net d' = md_net d" "md_mask d' = md_mask d" "(n, idx) \<in> set (mdns_cache d' ls')"
    by auto
  from mdns_lookup_cached [OF r(1) _ _ r(4)] assms(6,7) r(2,3) obtain d'' where
    l: "hev_mapped_dns_lookup d' (md_net d OR of_int idx) = Some (Some n, d'')" by auto
  let ?addr = "snd (hev_socks5_addr_from_name a n (htons port))"
  have "hev_socks5_addr_from_lwip (Some d') a ip port = Some (0, ?addr, Some d'')"
    using l assms(9) ip4_host_be32 [OF assms(10)] by (simp add: hev_socks5_addr_from_lwip_def)
  moreover have "addr_wire ?addr = [3, of_nat (length n)] @ n @ be16 port"
  proof -
    note f = from_name_props [OF assms(11,3,2), of "htons port"]
    from f(4) have "a_domain_len ?addr = of_nat (length n)" by (metis word_of_nat_unat)
    with addr_wire_name [OF f(2,3)] f show ?thesis by (simp add: le16_htons)
  qed
  ultimately show ?thesis by blast
qed

theorem lwip_mapped_name_witness:
  "\<exists>idx d' addr d''. hev_mapped_dns_find demo_mdns 16 [116, 122] = Some (idx, d') \<and>
     hev_socks5_addr_from_lwip (Some d') (replicate 260 0)
       \<lparr>ip_bytes = be32 (md_net demo_mdns OR of_int idx), ip_type = 0\<rparr> 443 = Some (0, addr, Some d'') \<and>
     addr_wire addr = [3, 2, 116, 122, 1, 187]"
proof -
  have f: "16 \<notin> set []" "rb_fit 16" by (simp_all add: rb_fit_def al_def)
  have "0 \<notin> set [116, 122 :: u8]" by simp
  from mdns_find_refines [OF demo_mdns_inv this f] obtain idx d' where
    d: "hev_mapped_dns_find demo_mdns 16 [116, 122] = Some (idx, d')" by auto
  have m: "NOT (md_mask demo_mdns) = mask 17" "md_net demo_mdns AND NOT (md_mask demo_mdns) = 0"
    by (simp_all add: demo_mdns_def hev_mapped_dns_new_def hev_mapped_dns_construct_def mask_numeral)
  have "be16 443 = [1, 187]" by code_simp
  moreover have "take 4 (be32 v) = be32 v" for v by (simp add: be32_def)
  ultimately show ?thesis
    using lwip_mapped_name [OF demo_mdns_inv _ _ f m d, of "\<lparr>ip_bytes = be32 (md_net demo_mdns OR of_int idx), ip_type = 0\<rparr>"
        "replicate 260 0" 443] d by fastforce
qed

end
