(* ===== verification/Session_TCP.thy ===== *)
theory Session_TCP
  imports Hev_Ring_Buffer Socks5_Client Lwip_Addr
begin

text \<open>
  A TCP session of the tunnel (\<^verbatim>\<open>hev-socks5-session-tcp.c\<close>): it connects the lwIP connection of an
  application (\<^verbatim>\<open>pcb\<close>) with the SOCKS5 socket. Data from the application waits in a chain of pbufs,
  data from the socket in the ring buffer, where it stays until lwIP reports it acknowledged, since
  \<^verbatim>\<open>tcp_write\<close> is called without copying.

  The session extends the SOCKS5 client. Behind the fields of the C structure stand the two parties
  it talks to: what lwIP has delivered, how far its receive window was reopened, what it accepted and
  what was acknowledged, its answers still to come, and what was read from the socket. The
  mutex is free at every lock, as no task that holds it yields.
\<close>

record HevSocks5SessionTCP = HevSocks5ClientTCP +
  ts_queue :: "u8 list list"
  ts_pcb :: bool
  ts_buffer :: HevRingBuffer
  ts_pcb_eof :: bool
  lw_in :: "u8 list"
  lw_window :: nat
  lw_out :: "u8 list"
  lw_acked :: nat
  lw_fin :: bool
  lw_script :: "bool list"
  net_in :: "u8 list"
  net_shut :: bool

subsection \<open>The kernel and lwIP\<close>

text \<open>\<^verbatim>\<open>writev\<close> and \<^verbatim>\<open>readv\<close> on the non-blocking socket, answered from the scripts of the object.\<close>

definition sock_writev :: "u8 list \<Rightarrow> 'a HevSocks5_scheme \<Rightarrow> int \<times> 'a HevSocks5_scheme" where
  "sock_writev bs self =
     (case txq self of
        [] \<Rightarrow> (int (length bs), self\<lparr>sent := sent self @ bs\<rparr>)
      | TxOk n # q \<Rightarrow> (int (min n (length bs)), self\<lparr>txq := q, sent := sent self @ take n bs\<rparr>)
      | TxAgain w # q \<Rightarrow> (-1, self\<lparr>txq := q, eagain := True\<rparr>)
      | TxFail # q \<Rightarrow> (-1, self\<lparr>txq := q, eagain := False\<rparr>))"

definition sock_readv :: "nat \<Rightarrow> 'a HevSocks5_scheme \<Rightarrow> int \<times> u8 list \<times> 'a HevSocks5_scheme" where
  "sock_readv room self =
     (case rxq self of
        [] \<Rightarrow> (0, [], self)
      | RxData bs # q \<Rightarrow>
          (int (min room (length bs)), take room bs,
           self\<lparr>rxq := (if room < length bs then RxData (drop room bs) # q else q)\<rparr>)
      | RxAgain w # q \<Rightarrow> (-1, [], self\<lparr>rxq := q, eagain := True\<rparr>)
      | RxFail # q \<Rightarrow> (-1, [], self\<lparr>rxq := q, eagain := False\<rparr>))"

text \<open>The next answer of lwIP: past the end of the script every call succeeds.\<close>

definition lw_answer :: "'a HevSocks5SessionTCP_scheme \<Rightarrow> bool \<times> 'a HevSocks5SessionTCP_scheme" where
  "lw_answer self = (case lw_script self of [] \<Rightarrow> (True, self) | b # bs \<Rightarrow> (b, self\<lparr>lw_script := bs\<rparr>))"

text \<open>\<^verbatim>\<open>pbuf_free_header\<close> on a chain.\<close>

fun pbuf_free_header :: "u8 list list \<Rightarrow> nat \<Rightarrow> u8 list list" where
  "pbuf_free_header [] n = []"
| "pbuf_free_header (p # ps) n =
     (if n = 0 then p # ps
      else if length p \<le> n then pbuf_free_header ps (n - length p)
      else drop n p # ps)"

text \<open>\<^verbatim>\<open>tcp_write\<close> takes a 16-bit length; \<open>True\<close> is an error.\<close>

definition tcp_write :: "'a HevSocks5SessionTCP_scheme \<Rightarrow> nat \<Rightarrow> nat \<Rightarrow> bool \<times> 'a HevSocks5SessionTCP_scheme" where
  "tcp_write self off len =
     (let (ok, self) = lw_answer self
      in if ok then (False, self\<lparr>lw_out := lw_out self @ mem_read (rb_data (ts_buffer self)) off (len mod 65536)\<rparr>)
         else (True, self))"

subsection \<open>The two directions\<close>

definition tcp_splice_f :: "'a HevSocks5SessionTCP_scheme \<Rightarrow> int \<times> 'a HevSocks5SessionTCP_scheme" where
  "tcp_splice_f self =
     (let iov = take 64 (ts_queue self);
          res = (if ts_queue self \<noteq> [] then 1 else if ts_pcb_eof self then -1 else 0)
      in if iov \<noteq> [] then
           (let (s, self) = sock_writev (concat iov) self
            in if s \<le> 0 then (if s < 0 \<and> eagain self then 0 else -1, self)
               else let self = self\<lparr>ts_queue := pbuf_free_header (ts_queue self) (nat s mod 65536)\<rparr>;
                        self = (if ts_pcb self then self\<lparr>lw_window := lw_window self + nat s mod 65536\<rparr> else self)
                    in (1, self))
         else if res < 0 then (res, self\<lparr>net_shut := True\<rparr>)
         else (res, self))"

fun tcp_write_all :: "iov \<Rightarrow> 'a HevSocks5SessionTCP_scheme \<Rightarrow> bool \<times> 'a HevSocks5SessionTCP_scheme" where
  "tcp_write_all [] self = (False, self)"
| "tcp_write_all ((off, len) # v) self =
     (let (e1, self) = tcp_write self off len;
          (e2, self) = tcp_write_all v self
      in (e1 \<or> e2, self))"

text \<open>The part of \<^verbatim>\<open>tcp_splice_b\<close> that fills the ring buffer from the socket, and the part that hands
  its pending bytes to lwIP: result, error flag and session.\<close>

definition tcp_splice_b_read :: "'a HevSocks5SessionTCP_scheme \<Rightarrow> int \<times> 'a HevSocks5SessionTCP_scheme" where
  "tcp_splice_b_read self =
     (let iov = hev_ring_buffer_writing (ts_buffer self)
      in if iov \<noteq> [] then
           (let (s, bs, self) = sock_readv (iov_len iov) self
            in if s \<le> 0 then (if s < 0 \<and> eagain self then 0 else -1, self)
               else (1, self\<lparr>ts_buffer := hev_ring_buffer_write_finish (rb_store (ts_buffer self) bs) (nat s),
                             net_in := net_in self @ bs\<rparr>))
         else (0, self))"

definition tcp_splice_b_write ::
  "int \<Rightarrow> 'a HevSocks5SessionTCP_scheme \<Rightarrow> int \<times> bool \<times> 'a HevSocks5SessionTCP_scheme" where
  "tcp_splice_b_write res self =
     (if ts_pcb self then
        (let iov = hev_ring_buffer_reading (ts_buffer self)
         in if iov \<noteq> [] then
              (let (e1, self) = tcp_write_all iov self;
                   self = self\<lparr>ts_buffer := hev_ring_buffer_read_finish (ts_buffer self) (iov_len iov)\<rparr>;
                   (ok, self) = lw_answer self
               in (1, e1 \<or> \<not> ok, self))
            else if res < 0 then (res, False, self\<lparr>lw_fin := True\<rparr>)
            else (res, False, self))
      else (res, False, self))"

definition tcp_splice_b :: "'a HevSocks5SessionTCP_scheme \<Rightarrow> int \<times> 'a HevSocks5SessionTCP_scheme" where
  "tcp_splice_b self =
     (let (res, self) = tcp_splice_b_read self;
          (res, err, self) = tcp_splice_b_write res self
      in (if \<not> ts_pcb self \<or> err then -1 else res, self))"

subsection \<open>Callbacks of lwIP\<close>

definition hev_socks5_session_terminate :: "'a HevSocks5_scheme \<Rightarrow> 'a HevSocks5_scheme" where
  "hev_socks5_session_terminate self = hev_socks5_set_timeout self 0"

text \<open>\<open>wnd\<close> is \<^verbatim>\<open>TCP_WND_MAX\<close>; the result says whether the chain was taken. \<^verbatim>\<open>tot_len\<close> has 16 bits.\<close>

definition tcp_recv_handler ::
  "nat \<Rightarrow> u8 list list option \<Rightarrow> 'a HevSocks5SessionTCP_scheme \<Rightarrow> bool \<times> 'a HevSocks5SessionTCP_scheme" where
  "tcp_recv_handler wnd p self =
     (case p of
        Some p \<Rightarrow>
          if ts_queue self = [] then (True, self\<lparr>ts_queue := p\<rparr>)
          else if length (concat (ts_queue self)) mod 65536 > wnd then (False, self)
          else (True, self\<lparr>ts_queue := ts_queue self @ p\<rparr>)
      | None \<Rightarrow> (True, self\<lparr>ts_pcb_eof := True\<rparr>))"

definition tcp_sent_handler :: "nat \<Rightarrow> 'a HevSocks5SessionTCP_scheme \<Rightarrow> 'a HevSocks5SessionTCP_scheme" where
  "tcp_sent_handler len self = self\<lparr>ts_buffer := hev_ring_buffer_read_release (ts_buffer self) len\<rparr>"

definition tcp_err_handler :: "'a HevSocks5SessionTCP_scheme \<Rightarrow> 'a HevSocks5SessionTCP_scheme" where
  "tcp_err_handler self = hev_socks5_session_terminate (self\<lparr>ts_pcb := False\<rparr>)"

text \<open>
  What lwIP may do while the task of the session is suspended: deliver data that fits into the
  window it announced (\<^verbatim>\<open>TCP_WND\<close>) and no data after the end of the stream, acknowledge bytes it was
  given, report an error once.
\<close>

datatype lw_event = EvData "u8 list list" | EvFin | EvAck nat | EvErr

text \<open>The port of lwIP sets \<^verbatim>\<open>TCP_WND\<close> to \<open>8 * TCP_MSS\<close>, with an MSS of 8191.\<close>

abbreviation (input) TCP_WND :: nat where "TCP_WND \<equiv> 65528"

definition lw_event :: "lw_event \<Rightarrow> 'a HevSocks5SessionTCP_scheme \<Rightarrow> 'a HevSocks5SessionTCP_scheme" where
  "lw_event e self =
     (if \<not> ts_pcb self then self
      else case e of
        EvData p \<Rightarrow>
          if ts_pcb_eof self \<or> lw_window self + TCP_WND < length (lw_in self) + length (concat p) then self
          else (case tcp_recv_handler TCP_WND (Some p) self of
                  (True, self) \<Rightarrow> self\<lparr>lw_in := lw_in self @ concat p\<rparr>
                | (False, self) \<Rightarrow> self)
      | EvFin \<Rightarrow> snd (tcp_recv_handler TCP_WND None self)
      | EvAck n \<Rightarrow>
          (let k = min n (length (lw_out self) - lw_acked self)
           in tcp_sent_handler k (self\<lparr>lw_acked := lw_acked self + k\<rparr>))
      | EvErr \<Rightarrow> tcp_err_handler self)"

subsection \<open>The splice loop\<close>

text \<open>A suspension of the task: how it is resumed, and what lwIP does meanwhile.\<close>

type_synonym turn = "wait \<times> lw_event list"

text \<open>The loop over the suspensions of the task: \<open>Inl\<close> the session and the rest of the suspensions when
  the loop is left, \<open>Inr\<close> when the list is used up and the task is still suspended.\<close>

fun tcp_splice_loop ::
  "turn list \<Rightarrow> int \<Rightarrow> int \<Rightarrow> 'a HevSocks5SessionTCP_scheme \<Rightarrow>
   ('a HevSocks5SessionTCP_scheme \<times> turn list) + 'a HevSocks5SessionTCP_scheme" where
  "tcp_splice_loop ts res_f res_b self =
     (let (res_f, self) = (if res_f \<ge> 0 then tcp_splice_f self else (res_f, self));
          (res_b, self) = (if res_b \<ge> 0 then tcp_splice_b self else (res_b, self))
      in if \<not> (res_f > 0 \<or> res_b > 0) \<and> res_f AND res_b \<noteq> 0 then Inl (self, ts)
         else let type = (if res_f > 0 \<or> res_b > 0 then HEV_TASK_YIELD else HEV_TASK_WAITIO)
              in case ts of
                   [] \<Rightarrow> Inr self
                 | (w, es) # ts \<Rightarrow>
                     (let (r, self) = hev_socks5_task_io_yielder type w self;
                          self = fold lw_event es self
                      in if r < 0 then Inl (self, ts) else tcp_splice_loop ts res_f res_b self))"

declare tcp_splice_loop.simps [simp del]

fun tcp_drain_loop ::
  "turn list \<Rightarrow> 'a HevSocks5SessionTCP_scheme \<Rightarrow> 'a HevSocks5SessionTCP_scheme + 'a HevSocks5SessionTCP_scheme" where
  "tcp_drain_loop ts self =
     (if \<not> ts_pcb self \<or> hev_ring_buffer_get_use_size (ts_buffer self) = 0 then Inl self
      else case ts of
             [] \<Rightarrow> Inr self
           | (w, es) # ts \<Rightarrow>
               (let (r, self) = hev_socks5_task_io_yielder HEV_TASK_WAITIO w self;
                    self = fold lw_event es self
                in if r < 0 then Inl self else tcp_drain_loop ts self))"

declare tcp_drain_loop.simps [simp del]

text \<open>\<open>mem\<close> is the memory of the ring buffer on the stack, of \<^verbatim>\<open>hev_config_get_misc_tcp_buffer_size\<close> bytes.\<close>

definition hev_socks5_session_tcp_splice ::
  "nat \<Rightarrow> u8 list \<Rightarrow> turn list \<Rightarrow> 'a HevSocks5SessionTCP_scheme \<Rightarrow>
   'a HevSocks5SessionTCP_scheme + 'a HevSocks5SessionTCP_scheme" where
  "hev_socks5_session_tcp_splice tcp_buffer_size mem ts self =
     (if \<not> ts_pcb self then Inl self
      else let self = self\<lparr>ts_buffer := hev_ring_buffer_alloca tcp_buffer_size mem\<rparr>
           in case tcp_splice_loop ts 1 1 self of
                Inl (self, ts) \<Rightarrow> tcp_drain_loop ts self
              | Inr self \<Rightarrow> Inr self)"

subsection \<open>Creation and destruction\<close>

text \<open>\<^verbatim>\<open>set_sock_mark\<close> is a \<^verbatim>\<open>setsockopt\<close> call, whose result is a parameter.\<close>

definition hev_socks5_session_tcp_bind :: "(int \<Rightarrow> nat \<Rightarrow> int) \<Rightarrow> nat \<Rightarrow> 'a HevSocks5_scheme \<Rightarrow> int \<Rightarrow> int" where
  "hev_socks5_session_tcp_bind set_sock_mark srv_mark self sock =
     (if srv_mark \<noteq> 0 then (if set_sock_mark sock srv_mark < 0 then -1 else 0) else 0)"

definition hev_socks5_session_tcp_class ::
  "(int \<Rightarrow> nat \<Rightarrow> int) \<Rightarrow> nat \<Rightarrow> 'a HevSocks5ClientTCP_scheme HevSocks5ClientClass" where
  "hev_socks5_session_tcp_class set_sock_mark srv_mark =
     hev_socks5_client_tcp_class\<lparr>k_binder := (\<lambda>self s sa. hev_socks5_session_tcp_bind set_sock_mark srv_mark self s)\<rparr>"

text \<open>The object as \<^verbatim>\<open>hev_malloc0\<close> returns it.\<close>

definition session_tcp0 :: HevSocks5SessionTCP where
  "session_tcp0 =
     HevSocks5ClientTCP.extend client_tcp0
       \<lparr>ts_queue = [], ts_pcb = False, ts_buffer = hev_ring_buffer_alloca 0 [], ts_pcb_eof = False,
        lw_in = [], lw_window = 0, lw_out = [], lw_acked = 0, lw_fin = False, lw_script = [], net_in = [],
        net_shut = False\<rparr>"

definition hev_socks5_session_tcp_construct ::
  "HevMappedDNS option \<Rightarrow> (nat \<Rightarrow> bool) \<Rightarrow> HevSocks5Addr \<Rightarrow> HevSocks5SessionTCP \<Rightarrow> ip_addr \<Rightarrow> u16 \<Rightarrow>
   (int \<times> HevSocks5SessionTCP \<times> HevMappedDNS option) option" where
  "hev_socks5_session_tcp_construct dns mok mem self local_ip local_port =
     (case hev_socks5_addr_from_lwip dns mem local_ip local_port of
        None \<Rightarrow> None
      | Some (res, addr, dns) \<Rightarrow>
          if res < 0 then Some (-1, self, dns)
          else let (res, self) = hev_socks5_client_tcp_construct mok self addr
               in if res < 0 then Some (-1, self, dns) else Some (0, self\<lparr>ts_pcb := True\<rparr>, dns))"

definition hev_socks5_session_tcp_new ::
  "HevMappedDNS option \<Rightarrow> (nat \<Rightarrow> bool) \<Rightarrow> nat \<Rightarrow> HevSocks5Addr \<Rightarrow> ip_addr \<Rightarrow> u16 \<Rightarrow>
   (HevSocks5SessionTCP option \<times> HevMappedDNS option) option" where
  "hev_socks5_session_tcp_new dns mok sz mem local_ip local_port =
     (if \<not> mok sz then Some (None, dns)
      else case hev_socks5_session_tcp_construct dns mok mem session_tcp0 local_ip local_port of
             None \<Rightarrow> None
           | Some (res, self, dns) \<Rightarrow> if res < 0 then Some (None, dns) else Some (Some self, dns))"

text \<open>\<^verbatim>\<open>hev_socks5_session_tcp_destruct\<close>: the connection is aborted (\<open>True\<close>) unless lwIP has freed it.\<close>

definition hev_socks5_session_tcp_destruct ::
  "'a HevSocks5SessionTCP_scheme \<Rightarrow> bool \<times> 'a HevSocks5SessionTCP_scheme" where
  "hev_socks5_session_tcp_destruct self =
     (ts_pcb self, hev_socks5_client_tcp_destruct (self\<lparr>ts_queue := []\<rparr>))"

subsection \<open>Invariants\<close>

text \<open>
  Towards the proxy: what was sent behind the handshake, followed by the queue, is what lwIP
  delivered, and the window was reopened by exactly what was sent. The socket is shut down only with
  an empty queue behind the end of the stream.
\<close>

definition forward_inv :: "u8 list \<Rightarrow> 'a HevSocks5SessionTCP_scheme \<Rightarrow> bool" where
  "forward_inv hs self \<longleftrightarrow>
     (\<exists>out. sent self = hs @ out \<and> out @ concat (ts_queue self) = lw_in self \<and>
        (ts_pcb self \<longrightarrow> lw_window self = length out)) \<and>
     length (concat (ts_queue self)) \<le> TCP_WND \<and> (net_shut self \<longrightarrow> ts_pcb_eof self \<and> ts_queue self = [])"

text \<open>
  Towards the application: what lwIP accepted, followed by the pending bytes of the ring buffer, is what
  was read from the socket, and the ring buffer still holds every byte that is not acknowledged. The
  connection is shut down only after everything was handed over.
\<close>

definition backward_inv :: "int \<Rightarrow> 'a HevSocks5SessionTCP_scheme \<Rightarrow> bool" where
  "backward_inv res_b self \<longleftrightarrow>
     rb_ok (ts_buffer self) \<and> max_size (ts_buffer self) < 65536 \<and> list_all (\<lambda>b. b) (lw_script self) \<and>
     lw_out self @ rb_pending (ts_buffer self) = net_in self \<and>
     rb_inflight (ts_buffer self) = drop (lw_acked self) (lw_out self) \<and> lw_acked self \<le> length (lw_out self) \<and>
     (lw_fin self \<longrightarrow> res_b < 0 \<and> lw_out self = net_in self)"

lemma backward_invI:
  assumes "rb_ok (ts_buffer self)" "max_size (ts_buffer self) < 65536" "list_all (\<lambda>b. b) (lw_script self)"
    "lw_out self @ rb_pending (ts_buffer self) = net_in self"
    "rb_inflight (ts_buffer self) = drop (lw_acked self) (lw_out self)" "lw_acked self \<le> length (lw_out self)"
    "lw_fin self \<Longrightarrow> res_b < 0 \<and> lw_out self = net_in self"
  shows "backward_inv res_b self"
  using assms unfolding backward_inv_def by blast

lemma concat_free_header: "concat (pbuf_free_header q n) = drop n (concat q)"
  by (induction q n rule: pbuf_free_header.induct) auto

lemma sock_writev_cases:
  obtains (ok) n q where "sock_writev bs self = (int (min n (length bs)), self\<lparr>txq := q, sent := sent self @ take n bs\<rparr>)"
  | (no) q e where "sock_writev bs self = (-1, self\<lparr>txq := q, eagain := e\<rparr>)"
proof (cases "txq self")
  case Nil
  then have "sock_writev bs self = (int (min (length bs) (length bs)), self\<lparr>txq := txq self, sent := sent self @ take (length bs) bs\<rparr>)"
    by (simp add: sock_writev_def)
  then show ?thesis by (rule ok)
next
  case (Cons a q)
  then show ?thesis by (cases a) (auto simp: sock_writev_def intro: ok no)
qed

lemma sock_readv_cases:
  obtains (got) bs q where "sock_readv room self = (int (length bs), bs, self\<lparr>rxq := q\<rparr>)" "length bs \<le> room"
  | (none) q e where "sock_readv room self = (-1, [], self\<lparr>rxq := q, eagain := e\<rparr>)"
proof (cases "rxq self")
  case Nil
  then have "sock_readv room self = (int (length []), [], self\<lparr>rxq := rxq self\<rparr>)" by (simp add: sock_readv_def)
  then show ?thesis by (rule got) simp
next
  case (Cons a q)
  show ?thesis
  proof (cases a)
    case (RxData bs)
    with Cons show ?thesis
      by (intro got [of "take room bs" "if room < length bs then RxData (drop room bs) # q else q"])
        (simp_all add: sock_readv_def min_def)
  qed (use Cons in \<open>auto simp: sock_readv_def intro: none\<close>)
qed

lemma concat_take_prefix: "\<exists>r. concat q = concat (take k q) @ r"
  by (metis append_take_drop_id concat_append)

lemma splice_f_inv:
  assumes "forward_inv hs self" "tcp_splice_f self = (res, self')"
  shows "forward_inv hs self'"
proof (cases "ts_queue self = []")
  case True
  with assms show ?thesis
    by (auto simp: tcp_splice_f_def Let_def forward_inv_def split: if_splits)
next
  case False
  let ?bs = "concat (take 64 (ts_queue self))"
  obtain out where f: "sent self = hs @ out" "out @ concat (ts_queue self) = lw_in self"
    "ts_pcb self \<longrightarrow> lw_window self = length out" "length (concat (ts_queue self)) \<le> TCP_WND"
    "\<not> net_shut self" using assms(1) False by (auto simp: forward_inv_def)
  obtain r where r: "concat (ts_queue self) = ?bs @ r" using concat_take_prefix by blast
  show ?thesis
  proof (cases rule: sock_writev_cases [of ?bs self])
    case (ok n q)
    define s where "s = min n (length ?bs)"
    have s: "s \<le> length ?bs" "s < 65536" using f(4) r by (auto simp: s_def)
    have tk: "take n ?bs = take s (concat (ts_queue self))" using s by (simp add: r s_def min_def)
    show ?thesis
    proof (cases "s = 0")
      case True
      then have "take n ?bs = []" using tk by simp
      with True ok assms(2) False f show ?thesis
        by (auto simp: tcp_splice_f_def Let_def forward_inv_def s_def [symmetric])
    next
      case pos: False
      let ?t = "self\<lparr>txq := q, sent := sent self @ take n ?bs, ts_queue := pbuf_free_header (ts_queue self) s,
        lw_window := (if ts_pcb self then lw_window self + s else lw_window self)\<rparr>"
      have e: "self' = ?t"
        using ok assms(2) False pos s(2) by (auto simp: tcp_splice_f_def Let_def s_def [symmetric] split: if_splits)
      let ?o = "out @ take s (concat (ts_queue self))"
      have "sent ?t = hs @ ?o" "?o @ concat (ts_queue ?t) = lw_in ?t"
        using f(1,2) by (simp_all add: tk concat_free_header)
      moreover have "length (take s (concat (ts_queue self))) = s" using s(1) r by simp
      ultimately show ?thesis unfolding e forward_inv_def
        using f(3-5) by (auto simp: concat_free_header intro!: exI [of _ ?o])
    qed
  next
    case (no q e)
    with assms(2) False f show ?thesis by (auto simp: tcp_splice_f_def Let_def forward_inv_def)
  qed
qed

lemma lw_answer_ok:
  assumes "list_all (\<lambda>b. b) (lw_script self)"
  obtains bs where "lw_answer self = (True, self\<lparr>lw_script := bs\<rparr>)" "list_all (\<lambda>b. b) bs"
proof (cases "lw_script self")
  case Nil
  then have "lw_answer self = (True, self\<lparr>lw_script := []\<rparr>)" by (simp add: lw_answer_def)
  then show ?thesis by (rule that) simp
next
  case (Cons b bs)
  then have "lw_answer self = (True, self\<lparr>lw_script := bs\<rparr>)" "list_all (\<lambda>b. b) bs"
    using assms by (simp_all add: lw_answer_def)
  then show ?thesis by (rule that)
qed

lemma write_all_ok:
  assumes "list_all (\<lambda>b. b) (lw_script self)" "\<And>off len. (off, len) \<in> set v \<Longrightarrow> len < 65536"
  shows "\<exists>bs. tcp_write_all v self =
    (False, self\<lparr>lw_script := bs, lw_out := lw_out self @ iov_bytes (rb_data (ts_buffer self)) v\<rparr>) \<and> list_all (\<lambda>b. b) bs"
  using assms
proof (induction v arbitrary: self)
  case Nil
  have "tcp_write_all [] self = (False, self\<lparr>lw_script := lw_script self, lw_out := lw_out self @ []\<rparr>)" by simp
  then show ?case using Nil.prems(1) by (intro exI [of _ "lw_script self"]) simp
next
  case (Cons a v)
  obtain off len where a: "a = (off, len)" by (cases a)
  obtain bs where bs: "lw_answer self = (True, self\<lparr>lw_script := bs\<rparr>)" "list_all (\<lambda>b. b) bs"
    using Cons.prems(1) by (rule lw_answer_ok)
  let ?s = "self\<lparr>lw_script := bs, lw_out := lw_out self @ mem_read (rb_data (ts_buffer self)) off len\<rparr>"
  have w: "tcp_write self off len = (False, ?s)"
    using bs(1) Cons.prems(2) [of off len] a by (simp add: tcp_write_def)
  have "list_all (\<lambda>b. b) (lw_script ?s)" using bs(2) by simp
  moreover have "\<And>off len. (off, len) \<in> set v \<Longrightarrow> len < 65536" using Cons.prems(2) by (meson list.set_intros(2))
  ultimately obtain bs' where
    "tcp_write_all v ?s = (False, ?s\<lparr>lw_script := bs', lw_out := lw_out ?s @ iov_bytes (rb_data (ts_buffer ?s)) v\<rparr>)"
    "list_all (\<lambda>b. b) bs'" using Cons.IH [of ?s] by blast
  then show ?case by (intro exI [of _ bs']) (simp add: a w)
qed

lemma reading_len:
  assumes "rb_ok b"
  shows "iov_len (hev_ring_buffer_reading b) = rda_size b"
  using rb_okD(1-7,9-11) [OF assms]
  by (auto simp: hev_ring_buffer_reading_def iov_len_def sz_sub_small Let_def)

lemma reading_nil: "hev_ring_buffer_reading b = [] \<longleftrightarrow> rb_pending b = []"
  by (auto simp: hev_ring_buffer_reading_def rb_pending_def ring_def Let_def)

lemma splice_b_read_inv:
  assumes "backward_inv 0 self" "tcp_splice_b_read self = (res, self')"
  shows "backward_inv 0 self'" "forward_inv hs self \<Longrightarrow> forward_inv hs self'"
proof -
  note i = assms(1) [unfolded backward_inv_def]
  let ?b = "ts_buffer self"
  have ok: "rb_ok ?b" using i by simp
  consider (full) "self' = self" | (no) q e where "self' = self\<lparr>rxq := q, eagain := e\<rparr>"
    | (data) bs q where "length bs \<le> max_size ?b - use_size ?b"
      "self' = self\<lparr>rxq := q, ts_buffer := rb_put ?b bs, net_in := net_in self @ bs\<rparr>"
  proof (cases "hev_ring_buffer_writing ?b = []")
    case True
    with assms(2) show ?thesis by (auto simp: tcp_splice_b_read_def Let_def intro: full)
  next
    case False
    show ?thesis
    proof (cases rule: sock_readv_cases [of "iov_len (hev_ring_buffer_writing ?b)" self])
      case (got bs q)
      show ?thesis
      proof (cases "bs = []")
        case True
        with got False assms(2) have "self' = self\<lparr>rxq := q, eagain := eagain self\<rparr>"
          by (auto simp: tcp_splice_b_read_def Let_def)
        then show ?thesis by (rule no)
      next
        case ne: False
        with got False assms(2) show ?thesis
          by (intro data [where bs = bs and q = q]) (auto simp: tcp_splice_b_read_def Let_def writing_room [OF ok] rb_put_def)
      qed
    next
      case (none q e)
      with False assms(2) show ?thesis by (intro no [where q = q and e = e]) (auto simp: tcp_splice_b_read_def Let_def)
    qed
  qed
  then have "backward_inv 0 self' \<and> (forward_inv hs self \<longrightarrow> forward_inv hs self')"
  proof cases
    case (data bs q)
    note w = write_view [OF ok data(1), folded rb_put_def]
    have "rb_inflight (rb_put ?b bs) = rb_inflight ?b" "rb_pending (rb_put ?b bs) = rb_pending ?b @ bs"
      using w(2) by (simp_all add: rb_view_def)
    moreover have "max_size (rb_put ?b bs) = max_size ?b"
      by (simp add: rb_put_def hev_ring_buffer_write_finish_def)
    ultimately show ?thesis using i w(1) data(2) by (auto simp: backward_inv_def forward_inv_def)
  qed (use i in \<open>auto simp: backward_inv_def forward_inv_def\<close>)
  then show "backward_inv 0 self'" "forward_inv hs self \<Longrightarrow> forward_inv hs self'" by auto
qed

lemma splice_b_write_inv:
  assumes "backward_inv 0 self" "tcp_splice_b_write res self = (res', err, self')"
  shows "backward_inv (if \<not> ts_pcb self' \<or> err then -1 else res') self'"
    "forward_inv hs self \<Longrightarrow> forward_inv hs self'"
proof -
  note i = assms(1) [unfolded backward_inv_def]
  let ?b = "ts_buffer self" and ?v = "hev_ring_buffer_reading (ts_buffer self)"
  have ok: "rb_ok ?b" using i by simp
  have "backward_inv (if \<not> ts_pcb self' \<or> err then -1 else res') self' \<and> (forward_inv hs self \<longrightarrow> forward_inv hs self')"
  proof (cases "ts_pcb self \<and> ?v \<noteq> []")
    case True
    have len: "len < 65536" if "(off, len) \<in> set ?v" for off len
      using reading_in_bounds [OF ok that] i by simp
    have "list_all (\<lambda>b. b) (lw_script self)" using i by simp
    from write_all_ok [OF this, of ?v] len obtain bs where
      w: "tcp_write_all ?v self = (False, self\<lparr>lw_script := bs, lw_out := lw_out self @ iov_bytes (rb_data ?b) ?v\<rparr>)"
        "list_all (\<lambda>b. b) bs" by blast
    let ?c = "hev_ring_buffer_read_finish ?b (iov_len ?v)"
    let ?s = "self\<lparr>lw_script := bs, lw_out := lw_out self @ iov_bytes (rb_data ?b) ?v, ts_buffer := ?c\<rparr>"
    have "list_all (\<lambda>b. b) (lw_script ?s)" using w(2) by simp
    then obtain bs' where a: "lw_answer ?s = (True, ?s\<lparr>lw_script := bs'\<rparr>)" "list_all (\<lambda>b. b) bs'" by (rule lw_answer_ok)
    have e: "self' = ?s\<lparr>lw_script := bs'\<rparr>" "err = False" "res' = 1"
      using assms(2) True w(1) a(1) by (simp_all add: tcp_splice_b_write_def Let_def)
    have "rda_size ?b \<le> rda_size ?b" by simp
    note r = read_finish_view [OF ok this]
    have v: "rb_inflight ?c = rb_inflight ?b @ rb_pending ?b" "rb_pending ?c = []"
      using r(2) unfolding reading_len [OF ok] rb_view_def by (simp_all add: length_rb_view)
    have m: "max_size ?c = max_size ?b" by (simp add: hev_ring_buffer_read_finish_def)
    have okc: "rb_ok ?c" using r(1) unfolding reading_len [OF ok] .
    have n: "net_in self = lw_out self @ rb_pending ?b" "lw_acked self \<le> length (lw_out self)" "\<not> lw_fin self"
      "rb_inflight ?b = drop (lw_acked self) (lw_out self)" "max_size ?b < 65536" using i by simp_all
    have "forward_inv hs self' = forward_inv hs self" unfolding e(1) by (simp add: forward_inv_def)
    moreover have "backward_inv 1 self'"
      unfolding e(1) by (rule backward_invI) (use a(2) okc n v m reading_bytes [OF ok] in simp_all)
    moreover have "ts_pcb self'" unfolding e(1) using True by simp
    ultimately show ?thesis by (simp only: e(2,3)) simp
  next
    case False
    show ?thesis
    proof (cases "ts_pcb self \<and> res < 0")
      case True
      with False have v: "ts_pcb self" "res < 0" "?v = []" by simp_all
      have e: "(res', err, self') = (res, False, self\<lparr>lw_fin := True\<rparr>)"
        using v unfolding assms(2) [symmetric] tcp_splice_b_write_def by simp
      have "lw_out self = net_in self" using i v(3) by (simp add: reading_nil)
      then have "backward_inv res (self\<lparr>lw_fin := True\<rparr>)" using i v(2) by (simp add: backward_inv_def)
      moreover have "forward_inv hs (self\<lparr>lw_fin := True\<rparr>) = forward_inv hs self" by (simp add: forward_inv_def)
      ultimately show ?thesis using e v(1) by simp
    next
      case no: False
      with False have e: "(res', err, self') = (res, False, self)"
        unfolding assms(2) [symmetric] tcp_splice_b_write_def by auto
      have "backward_inv r self" if "\<not> lw_fin self" for r using i that by (simp add: backward_inv_def)
      then show ?thesis using e i by simp
    qed
  qed
  then show "backward_inv (if \<not> ts_pcb self' \<or> err then -1 else res') self'"
    "forward_inv hs self \<Longrightarrow> forward_inv hs self'" by auto
qed

lemma backward_inv_weaken: "backward_inv r self \<Longrightarrow> 0 \<le> r \<Longrightarrow> backward_inv 0 self"
  by (auto simp: backward_inv_def)

lemma splice_b_inv:
  assumes "backward_inv r self" "0 \<le> r" "tcp_splice_b self = (res, self')"
  shows "backward_inv res self'" "forward_inv hs self \<Longrightarrow> forward_inv hs self'"
proof -
  obtain r1 s1 where s1: "tcp_splice_b_read self = (r1, s1)" by (cases "tcp_splice_b_read self")
  obtain r2 e s2 where s2: "tcp_splice_b_write r1 s1 = (r2, e, s2)" by (cases "tcp_splice_b_write r1 s1") auto
  have e: "res = (if \<not> ts_pcb s2 \<or> e then -1 else r2)" "self' = s2"
    using assms(3) by (auto simp: tcp_splice_b_def s1 s2)
  note a = splice_b_read_inv [OF backward_inv_weaken [OF assms(1,2)] s1]
  note b = splice_b_write_inv [OF a(1) s2]
  show "backward_inv res self'" unfolding e by (rule b(1))
  show "forward_inv hs self \<Longrightarrow> forward_inv hs self'" unfolding e by (intro b(2) a(2))
qed

lemma splice_f_backward: "backward_inv r (snd (tcp_splice_f self)) = backward_inv r self"
  by (cases rule: sock_writev_cases [of "concat (take 64 (ts_queue self))" self])
    (simp_all add: tcp_splice_f_def Let_def backward_inv_def)

text \<open>Callbacks.\<close>

lemma lw_event_data:
  "lw_event (EvData p) self = self \<or>
   lw_event (EvData p) self = self\<lparr>ts_queue := ts_queue self @ p, lw_in := lw_in self @ concat p\<rparr>"
proof (cases "tcp_recv_handler TCP_WND (Some p) self = (True, self\<lparr>ts_queue := ts_queue self @ p\<rparr>)")
  case True
  have "lw_event (EvData p) self =
      (if \<not> ts_pcb self \<or> ts_pcb_eof self \<or> lw_window self + TCP_WND < length (lw_in self) + length (concat p) then self
       else self\<lparr>ts_queue := ts_queue self @ p, lw_in := lw_in self @ concat p\<rparr>)"
    by (simp add: lw_event_def True)
  then show ?thesis by presburger
next
  case False
  then have "tcp_recv_handler TCP_WND (Some p) self = (False, self)"
    by (simp add: tcp_recv_handler_def split: if_splits)
  then have "lw_event (EvData p) self = self" by (simp add: lw_event_def)
  then show ?thesis by (rule disjI1)
qed

lemma lw_event_forward:
  assumes "forward_inv hs self"
  shows "forward_inv hs (lw_event e self)"
proof (cases "ts_pcb self")
  case pcb: True
  obtain out where f: "sent self = hs @ out" "out @ concat (ts_queue self) = lw_in self"
    "lw_window self = length out" "length (concat (ts_queue self)) \<le> TCP_WND"
    "net_shut self \<longrightarrow> ts_pcb_eof self \<and> ts_queue self = []"
    using assms pcb by (auto simp: forward_inv_def)
  show ?thesis
  proof (cases e)
    case (EvData p)
    show ?thesis
    proof (cases "ts_pcb_eof self \<or> lw_window self + TCP_WND < length (lw_in self) + length (concat p)")
      case True
      then show ?thesis using assms pcb by (simp add: lw_event_def EvData)
    next
      case False
      have len: "length (lw_in self) = length out + length (concat (ts_queue self))" using f(2) by (metis length_append)
      consider "lw_event e self = self" | "lw_event e self = self\<lparr>ts_queue := ts_queue self @ p, lw_in := lw_in self @ concat p\<rparr>"
        using lw_event_data [of p self] unfolding EvData by blast
      then show ?thesis
      proof cases
        case 2
        have "length (concat (ts_queue self @ p)) \<le> TCP_WND" using False len f(3) by simp
        with 2 f False show ?thesis by (auto simp: forward_inv_def)
      qed (use assms in simp)
    qed
  next
    case EvFin
    then show ?thesis using f pcb by (auto simp: forward_inv_def lw_event_def tcp_recv_handler_def)
  next
    case (EvAck n)
    then show ?thesis using f pcb by (auto simp: forward_inv_def lw_event_def tcp_sent_handler_def Let_def)
  next
    case EvErr
    then show ?thesis using f pcb
      by (auto simp: forward_inv_def lw_event_def tcp_err_handler_def hev_socks5_session_terminate_def
          hev_socks5_set_timeout_def)
  qed
qed (use assms in \<open>simp add: lw_event_def\<close>)

lemma lw_event_backward:
  assumes "backward_inv r self"
  shows "backward_inv r (lw_event e self)"
proof (cases "ts_pcb self")
  case pcb: True
  note i = assms [unfolded backward_inv_def]
  show ?thesis
  proof (cases e)
    case (EvAck n)
    define k where "k = min n (length (lw_out self) - lw_acked self)"
    let ?b = "ts_buffer self"
    have v: "rb_ok ?b" "rb_view ?b = (rb_inflight ?b, rb_pending ?b)" "k \<le> length (rb_inflight ?b)"
      using i by (simp_all add: rb_view_def k_def)
    have "rb_inflight (hev_ring_buffer_read_release ?b k) = drop k (rb_inflight ?b)"
      "rb_pending (hev_ring_buffer_read_release ?b k) = rb_pending ?b"
      using rb.release_view [OF v] by (simp_all add: rb_view_def)
    moreover have "max_size (hev_ring_buffer_read_release ?b k) = max_size ?b"
      by (simp add: hev_ring_buffer_read_release_def Let_def)
    moreover have "lw_acked self + k \<le> length (lw_out self)" using i by (auto simp: k_def)
    moreover have "lw_event e self = self\<lparr>lw_acked := lw_acked self + k, ts_buffer := hev_ring_buffer_read_release ?b k\<rparr>"
      using pcb by (simp add: lw_event_def EvAck Let_def tcp_sent_handler_def k_def)
    ultimately show ?thesis using i rb.release_ok [OF v] by (simp add: backward_inv_def add.commute)
  qed (use i pcb in \<open>auto simp: backward_inv_def lw_event_def tcp_recv_handler_def tcp_err_handler_def
      hev_socks5_session_terminate_def hev_socks5_set_timeout_def\<close>)
qed (use assms in \<open>simp add: lw_event_def\<close>)

lemma lw_events_inv:
  "forward_inv hs self \<Longrightarrow> forward_inv hs (fold lw_event es self)"
  "backward_inv r self \<Longrightarrow> backward_inv r (fold lw_event es self)"
  by (induction es arbitrary: self) (simp_all add: lw_event_forward lw_event_backward)

lemma yielder_inv:
  "forward_inv hs (snd (hev_socks5_task_io_yielder type w self)) = forward_inv hs self"
  "backward_inv r (snd (hev_socks5_task_io_yielder type w self)) = backward_inv r self"
  by (simp_all add: hev_socks5_task_io_yielder_def resume_def forward_inv_def backward_inv_def)

subsection \<open>The loop\<close>

lemma backward_inv_ended: "backward_inv r self \<Longrightarrow> backward_inv (-1) self"
  by (auto simp: backward_inv_def)

lemma turn_inv:
  assumes "forward_inv hs self" "backward_inv r self"
    and "hev_socks5_task_io_yielder type w self = (res, self')"
  shows "forward_inv hs (fold lw_event es self')" "backward_inv r (fold lw_event es self')"
  using assms yielder_inv(1) [of hs type w self] yielder_inv(2) [of r type w self]
  by (simp_all add: lw_events_inv)

lemma splice_turn_inv:
  assumes "forward_inv hs self" "backward_inv res_b self"
    and "(if 0 \<le> res_f then tcp_splice_f self else (res_f, self)) = (rf, s1)"
    and "(if 0 \<le> res_b then tcp_splice_b s1 else (res_b, s1)) = (rb, s2)"
  shows "forward_inv hs s2" "backward_inv rb s2"
proof -
  have 1: "forward_inv hs s1 \<and> backward_inv res_b s1"
    using assms(1-3) splice_f_inv [OF assms(1)] splice_f_backward [of res_b self]
    by (cases "0 \<le> res_f") (metis snd_conv)+
  then have "forward_inv hs s2 \<and> backward_inv rb s2"
    using assms(4) splice_b_inv [where r = res_b and self = s1 and res = rb and self' = s2] by (cases "0 \<le> res_b") auto
  then show "forward_inv hs s2" "backward_inv rb s2" by auto
qed

lemma splice_loop_inv:
  assumes "forward_inv hs self" "backward_inv res_b self"
  shows "case tcp_splice_loop ts res_f res_b self of
      Inl (s, ts') \<Rightarrow> forward_inv hs s \<and> backward_inv (-1) s
    | Inr s \<Rightarrow> forward_inv hs s \<and> backward_inv (-1) s"
  using assms
proof (induction ts arbitrary: res_f res_b self)
  case Nil
  obtain rf s1 where f: "(if 0 \<le> res_f then tcp_splice_f self else (res_f, self)) = (rf, s1)" by fastforce
  obtain rb s2 where b: "(if 0 \<le> res_b then tcp_splice_b s1 else (res_b, s1)) = (rb, s2)" by fastforce
  note i2 = splice_turn_inv [OF Nil.prems f b]
  then show ?case
    using backward_inv_ended [OF i2(2)] by (subst tcp_splice_loop.simps) (simp add: f b Let_def)
next
  case (Cons t ts)
  obtain w es where t: "t = (w, es)" by (cases t)
  obtain rf s1 where f: "(if 0 \<le> res_f then tcp_splice_f self else (res_f, self)) = (rf, s1)" by fastforce
  obtain rb s2 where b: "(if 0 \<le> res_b then tcp_splice_b s1 else (res_b, s1)) = (rb, s2)" by fastforce
  note i2 = splice_turn_inv [OF Cons.prems f b]
  let ?type = "if 0 < rf \<or> 0 < rb then HEV_TASK_YIELD else HEV_TASK_WAITIO"
  obtain r s3 where y: "hev_socks5_task_io_yielder ?type w s2 = (r, s3)" by fastforce
  note i3 = turn_inv [OF i2 y, of es]
  show ?case
    using Cons.IH [OF i3, of rf] backward_inv_ended [OF i2(2)] i2(1) backward_inv_ended [OF i3(2)] i3(1)
    by (subst tcp_splice_loop.simps) (simp add: f b t y Let_def)
qed

lemma drain_loop_inv:
  assumes "forward_inv hs self" "backward_inv (-1) self" "tcp_drain_loop ts self = Inl s \<or> tcp_drain_loop ts self = Inr s"
  shows "forward_inv hs s \<and> backward_inv (-1) s"
  using assms
proof (induction ts arbitrary: self)
  case Nil
  then show ?case by (auto simp: tcp_drain_loop.simps [of "[]"] split: if_splits)
next
  case (Cons t ts)
  obtain w es where t: "t = (w, es)" by (cases t)
  obtain r s1 where y: "hev_socks5_task_io_yielder HEV_TASK_WAITIO w self = (r, s1)" by fastforce
  note i = turn_inv [OF Cons.prems(1,2) y, of es]
  from Cons.prems(3) show ?case
    using Cons.IH [OF i] i Cons.prems(1,2) unfolding tcp_drain_loop.simps [of "t # ts"]
    by (auto simp: t y Let_def split: if_splits)
qed

text \<open>The whole splice, from the state in which the ring buffer was just put on the stack.\<close>

lemma splice_start:
  assumes "lw_out self = []" "lw_acked self = 0" "net_in self = []" "\<not> lw_fin self" "list_all (\<lambda>b. b) (lw_script self)"
    and "0 < n" "n \<le> 65528" "length mem = n"
  shows "backward_inv 1 (self\<lparr>ts_buffer := hev_ring_buffer_alloca n mem\<rparr>)"
proof -
  have "rb_ok (hev_ring_buffer_alloca n mem)" "rb_view (hev_ring_buffer_alloca n mem) = ([], [])"
    using rb_ok_alloca [of n mem] assms(6-8) by simp_all
  then show ?thesis
    by (intro backward_invI) (use assms in \<open>simp_all add: rb_view_def hev_ring_buffer_alloca_def\<close>)
qed

lemma splice_inv:
  assumes "ts_pcb self" "forward_inv hs self" "backward_inv 1 (self\<lparr>ts_buffer := hev_ring_buffer_alloca n mem\<rparr>)"
    and "hev_socks5_session_tcp_splice n mem ts self = Inl s \<or> hev_socks5_session_tcp_splice n mem ts self = Inr s"
  shows "forward_inv hs s \<and> backward_inv (-1) s"
proof -
  define self1 where "self1 = self\<lparr>ts_buffer := hev_ring_buffer_alloca n mem\<rparr>"
  have f: "forward_inv hs self1" using assms(2) by (simp add: forward_inv_def self1_def)
  have b: "backward_inv 1 self1" using assms(3) by (simp add: self1_def)
  have e: "hev_socks5_session_tcp_splice n mem ts self =
      (case tcp_splice_loop ts 1 1 self1 of Inl (s, ts) \<Rightarrow> tcp_drain_loop ts s | Inr s \<Rightarrow> Inr s)"
    using assms(1) by (simp add: hev_socks5_session_tcp_splice_def self1_def)
  show ?thesis
  proof (cases "tcp_splice_loop ts 1 1 self1")
    case (Inl p)
    obtain s1 ts1 where p: "p = (s1, ts1)" by (cases p)
    have "forward_inv hs s1" "backward_inv (-1) s1" using splice_loop_inv [OF f b, of ts 1] by (simp_all add: Inl p)
    then show ?thesis using drain_loop_inv assms(4) unfolding e Inl p by simp
  next
    case (Inr s1)
    with splice_loop_inv [OF f b, of ts 1] assms(4) show ?thesis unfolding e by auto
  qed
qed

subsection \<open>Properties\<close>

text \<open>C7 A TCP session is two byte streams: whatever lwIP delivers, acknowledges or refuses while the
  task sleeps, and however the socket cuts reads and writes, the bytes sent to the proxy behind the
  handshake are a prefix of the bytes the application sent, followed in order by the ones still
  queued, and the bytes handed to lwIP are a prefix of the bytes read from the proxy, followed by
  the pending ones; lwIP's receive window was reopened by exactly what was forwarded; every byte that
  may have to be retransmitted is still in the ring buffer; and each side is half-closed only after
  everything for it was forwarded. The buffer size is within the bound the configuration enforces,
  and lwIP has memory for what is written to it.\<close>

theorem session_tcp_streams:
  assumes "ts_pcb self" "sent self = hs" "lw_in self = concat (ts_queue self)" "length (lw_in self) \<le> TCP_WND"
    and "lw_window self = 0" "\<not> net_shut self" "lw_out self = []" "lw_acked self = 0" "net_in self = []" "\<not> lw_fin self"
    and "list_all (\<lambda>b. b) (lw_script self)" "0 < n" "n \<le> 65528" "length mem = n"
    and "hev_socks5_session_tcp_splice n mem ts self = Inl s \<or> hev_socks5_session_tcp_splice n mem ts self = Inr s"
  shows "\<exists>out. sent s = hs @ out \<and> lw_in s = out @ concat (ts_queue s) \<and>
    (ts_pcb s \<longrightarrow> lw_window s = length out) \<and> (net_shut s \<longrightarrow> ts_pcb_eof s \<and> out = lw_in s) \<and>
    net_in s = lw_out s @ rb_pending (ts_buffer s) \<and> rb_inflight (ts_buffer s) = drop (lw_acked s) (lw_out s) \<and>
    (lw_fin s \<longrightarrow> lw_out s = net_in s)"
proof -
  have "forward_inv hs self" using assms(1-6) by (auto simp: forward_inv_def)
  from splice_inv [OF assms(1) this splice_start [OF assms(7-14)] assms(15)]
  show ?thesis unfolding forward_inv_def backward_inv_def by auto
qed

definition demo_session :: HevSocks5SessionTCP where
  "demo_session = session_tcp0\<lparr>ts_pcb := True, sent := [5, 1, 0], ts_queue := [[1, 2], [3]], lw_in := [1, 2, 3],
     rxq := [RxData [9, 8, 7, 6, 5], RxAgain \<lparr>w_left = 9, w_term = False, w_ctl = CtlAgain\<rparr>], txq := [TxOk 2]\<rparr>"

definition demo_turn :: wait where
  "demo_turn = \<lparr>w_left = 9, w_term = False, w_ctl = CtlAgain\<rparr>"

theorem session_tcp_streams_witness:
  "\<exists>s out. (hev_socks5_session_tcp_splice 4 [0, 0, 0, 0] [(demo_turn, [EvData [[4]], EvAck 3, EvFin])] demo_session = Inl s \<or>
       hev_socks5_session_tcp_splice 4 [0, 0, 0, 0] [(demo_turn, [EvData [[4]], EvAck 3, EvFin])] demo_session = Inr s) \<and>
     sent s = [5, 1, 0] @ out \<and> lw_in s = out @ concat (ts_queue s) \<and>
     net_in s = lw_out s @ rb_pending (ts_buffer s) \<and> rb_inflight (ts_buffer s) = drop (lw_acked s) (lw_out s)"
proof -
  let ?ts = "[(demo_turn, [EvData [[4]], EvAck 3, EvFin])]"
  obtain s where s: "hev_socks5_session_tcp_splice 4 [0, 0, 0, 0] ?ts demo_session = Inl s \<or>
      hev_socks5_session_tcp_splice 4 [0, 0, 0, 0] ?ts demo_session = Inr s"
    by (cases "hev_socks5_session_tcp_splice 4 [0, 0, 0, 0] ?ts demo_session") auto
  have d: "ts_pcb demo_session \<and> sent demo_session = [5, 1, 0] \<and> lw_in demo_session = [1, 2, 3] \<and>
      ts_queue demo_session = [[1, 2], [3]] \<and> lw_window demo_session = 0 \<and> \<not> net_shut demo_session \<and>
      lw_out demo_session = [] \<and> lw_acked demo_session = 0 \<and> net_in demo_session = [] \<and> \<not> lw_fin demo_session \<and>
      lw_script demo_session = []"
    by (simp add: demo_session_def session_tcp0_def client_tcp0_def HevSocks5ClientTCP.defs)
  have "\<exists>out. sent s = [5, 1, 0] @ out \<and> lw_in s = out @ concat (ts_queue s) \<and>
    (ts_pcb s \<longrightarrow> lw_window s = length out) \<and> (net_shut s \<longrightarrow> ts_pcb_eof s \<and> out = lw_in s) \<and>
    net_in s = lw_out s @ rb_pending (ts_buffer s) \<and> rb_inflight (ts_buffer s) = drop (lw_acked s) (lw_out s) \<and>
    (lw_fin s \<longrightarrow> lw_out s = net_in s)"
    by (rule session_tcp_streams [of demo_session "[5, 1, 0]" 4 "[0, 0, 0, 0]" ?ts]) (use d s in simp_all)
  then show ?thesis using s by blast
qed

end
