(* ===== verification/Socks5_UDP.thy ===== *)
theory Socks5_UDP
  imports Socks5_Client
begin

text \<open>
  The UDP relay of \<^verbatim>\<open>core/src/hev-socks5-udp.c\<close>: datagrams framed on the control connection
  (UDP in TCP) or sent through a datagram socket (UDP in UDP), and the relay loop between them.
  \<^verbatim>\<open>hev_socks5_udp_get_fd\<close> returns the control connection in the first case and the datagram
  socket \<open>D\<close> in the second.
\<close>

definition UDP_BUF_SIZE :: nat where
  "UDP_BUF_SIZE = 1500"

text \<open>
  \<^verbatim>\<open>HevSocks5UDPMsg\<close>: the bytes its two pointers designate (up to the end of their memory
  block), and the length.
\<close>

record HevSocks5UDPMsg =
  m_addr :: "HevSocks5Addr option"
  m_buf :: "u8 list"
  m_len :: nat

type_synonym udp_sock = "(sockaddr_in6 \<times> u8 list, sockaddr_in6 option \<times> u8 list) dsock"

subsection \<open>Sending\<close>

text \<open>The three vectors of one datagram on the control connection; \<open>None\<close> for a bad address.\<close>

definition udp_tcp_vec :: "HevSocks5UDPMsg \<Rightarrow> u8 list list option" where
  "udp_tcp_vec m =
     (let addrlen = hev_socks5_addr_len (the (m_addr m))
      in if addrlen \<le> 0 then None
         else Some [le16 (htons (of_nat (m_len m))) @ [of_int (3 + addrlen)],
                    take (nat addrlen) (the (m_addr m)), take (m_len m) (m_buf m)])"

definition hev_socks5_udp_sendmmsg_tcp ::
  "'a HevSocks5_scheme \<Rightarrow> HevSocks5UDPMsg list \<Rightarrow> int \<times> 'a HevSocks5_scheme" where
  "hev_socks5_udp_sendmmsg_tcp self msgv =
     (case those (map udp_tcp_vec msgv) of
        None \<Rightarrow> (-1, self)
      | Some vecs \<Rightarrow>
          (let (res, self) = hev_task_io_socket_sendmsg udp_task_io_yielder True False (concat vecs) self
           in if res \<le> 0 then (-1, self) else (int (length msgv), self)))"

definition udp_udp_vec :: "HevSocks5UDPMsg \<Rightarrow> u8 list list option" where
  "udp_udp_vec m =
     (let addrlen = hev_socks5_addr_len (the (m_addr m))
      in if addrlen \<le> 0 then None
         else Some [[0, 0, 0], take (nat addrlen) (the (m_addr m)), take (m_len m) (m_buf m)])"

definition hev_socks5_udp_sendmmsg_udp ::
  "'a HevSocks5_scheme \<Rightarrow> udp_sock \<Rightarrow> HevSocks5UDPMsg list \<Rightarrow> int \<times> 'a HevSocks5_scheme \<times> udp_sock" where
  "hev_socks5_udp_sendmmsg_udp self D msgv =
     (case those (map udp_udp_vec msgv) of
        None \<Rightarrow> (-1, self, D)
      | Some vecs \<Rightarrow>
          hev_task_io_socket_sendmmsg udp_task_io_yielder True False
            (map (\<lambda>v. (None, concat v)) vecs) self D)"

definition hev_socks5_udp_sendmmsg ::
  "'a HevSocks5_scheme \<Rightarrow> udp_sock \<Rightarrow> HevSocks5UDPMsg list \<Rightarrow> int \<times> 'a HevSocks5_scheme \<times> udp_sock" where
  "hev_socks5_udp_sendmmsg self D msgv =
     (case s_type self of
        HEV_SOCKS5_TYPE_UDP_IN_TCP \<Rightarrow>
          (let (res, self) = hev_socks5_udp_sendmmsg_tcp self msgv in (res, self, D))
      | HEV_SOCKS5_TYPE_UDP_IN_UDP \<Rightarrow> hev_socks5_udp_sendmmsg_udp self D msgv
      | _ \<Rightarrow> (-1, self, D))"

subsection \<open>Receiving from the control connection\<close>

text \<open>
  One round of the loop of \<^verbatim>\<open>hev_socks5_udp_recvmmsg_tcp\<close> into the memory block \<open>buf\<close> of \<open>len\<close>
  usable bytes: the head was not read (with the result of the read), the call returns, or a
  message was stored. The loop returns the stored messages, the memory blocks and the object.
\<close>

datatype udp_round = NoHead int | Return int | Stored HevSocks5UDPMsg

definition udp_read_head :: "'a HevSocks5_scheme \<Rightarrow> bool \<Rightarrow> int \<times> u8 list \<times> 'a HevSocks5_scheme" where
  "udp_read_head self nonblock =
     (let (res, h, self) = hev_task_io_socket_recv udp_task_io_yielder False nonblock 5 self
      in if 0 < res \<and> res < 5 then
           (let (res2, h2, self) = hev_task_io_socket_recv udp_task_io_yielder True False (5 - nat res) self
            in (res + res2, h @ h2, self))
         else (res, h, self))"

definition udp_recv_tcp_one ::
  "'a HevSocks5_scheme \<Rightarrow> bool \<Rightarrow> u8 list \<Rightarrow> nat \<Rightarrow> udp_round \<times> u8 list \<times> 'a HevSocks5_scheme" where
  "udp_recv_tcp_one self nonblock buf len =
     (let (res, udp, self) = udp_read_head self nonblock
      in if res \<noteq> 5 then (NoHead res, buf, self)
         else let hdrlen = unat (udp ! 2)
         in if hdrlen < 5 then (Return (-1), buf, self)
         else let addrlen = hdrlen - 3; datlen = unat (ntohs (of_le16 (take 2 udp)))
         in if datlen > sz_sub len addrlen then (Return (-1), buf, self)
         else let (res, bs, self) = hev_task_io_socket_recvmsg udp_task_io_yielder True False
                                      [addrlen - 2, datlen] self;
                  buf = mem_write buf 2 (take (addrlen - 2) bs);
                  buf = mem_write buf addrlen (drop (addrlen - 2) bs)
              in if res \<noteq> int (addrlen - 2 + datlen) then (Return res, buf, self)
                 else let buf = buf[0 := udp ! 3, 1 := udp ! 4]
                      in (Stored \<lparr>m_addr = Some buf, m_buf = drop addrlen buf, m_len = datlen\<rparr>, buf, self))"

fun udp_recv_tcp_loop ::
  "'a HevSocks5_scheme \<Rightarrow> bool \<Rightarrow> nat \<Rightarrow> u8 list list \<Rightarrow> nat \<Rightarrow>
   int \<times> HevSocks5UDPMsg list \<times> u8 list list \<times> 'a HevSocks5_scheme" where
  "udp_recv_tcp_loop self nonblock len [] rlen = (int rlen, [], [], self)"
| "udp_recv_tcp_loop self nonblock len (buf # bufs) rlen =
     (case udp_recv_tcp_one self nonblock buf len of
        (NoHead res, buf, self) \<Rightarrow> (if rlen > 0 then int rlen else res, [], buf # bufs, self)
      | (Return res, buf, self) \<Rightarrow> (res, [], buf # bufs, self)
      | (Stored m, buf, self) \<Rightarrow>
          (case udp_recv_tcp_loop self nonblock len bufs (rlen + 1) of
             (res, ms, bufs, self) \<Rightarrow> (res, m # ms, buf # bufs, self)))"

definition hev_socks5_udp_recvmmsg_tcp ::
  "'a HevSocks5_scheme \<Rightarrow> bool \<Rightarrow> u8 list list \<Rightarrow> nat \<Rightarrow>
   int \<times> HevSocks5UDPMsg list \<times> u8 list list \<times> 'a HevSocks5_scheme" where
  "hev_socks5_udp_recvmmsg_tcp self nonblock bufs len = udp_recv_tcp_loop self nonblock len bufs 0"

subsection \<open>Receiving from the datagram socket\<close>

text \<open>The kernel stores at most \<open>len\<close> bytes of a datagram.\<close>

definition store_dgram :: "nat \<Rightarrow> u8 list \<Rightarrow> u8 list \<Rightarrow> u8 list" where
  "store_dgram len buf bs = mem_write buf 0 (take len bs)"

fun udp_parse_loop :: "(u8 list \<times> nat) list \<Rightarrow> int \<Rightarrow> int \<times> HevSocks5UDPMsg list" where
  "udp_parse_loop [] res = (res, [])"
| "udp_parse_loop ((buf, msg_len) # ms) res =
     (let addrlen = hev_socks5_addr_len (drop 3 buf)
      in if msg_len < 4 then
           (case udp_parse_loop ms res of (r, msgv) \<Rightarrow> (r, \<lparr>m_addr = None, m_buf = buf, m_len = 0\<rparr> # msgv))
         else if addrlen \<le> 0 then (-1, [])
         else let doff = 3 + nat addrlen
              in if doff > msg_len then (-1, [])
                 else (case udp_parse_loop ms res of
                         (r, msgv) \<Rightarrow> (r, \<lparr>m_addr = Some (drop 3 buf), m_buf = drop doff buf,
                                          m_len = msg_len - doff\<rparr> # msgv)))"

definition hev_socks5_udp_recvmmsg_udp ::
  "'a HevSocks5_scheme \<Rightarrow> udp_sock \<Rightarrow> bool \<Rightarrow> u8 list list \<Rightarrow> nat \<Rightarrow>
   int \<times> HevSocks5UDPMsg list \<times> u8 list list \<times> 'a HevSocks5_scheme \<times> udp_sock" where
  "hev_socks5_udp_recvmmsg_udp self D nonblock bufs len =
     (let (res, ms, self, D) = hev_task_io_socket_recvmmsg udp_task_io_yielder False nonblock
                                 (length bufs) self D;
          stored = map2 (store_dgram len) bufs (map snd ms);
          bufs = stored @ drop (length ms) bufs
      in if res \<le> 0 then (res, [], bufs, self, D)
         else if \<not> udp_associated self \<and> d_conn D < 0 then (-1, [], bufs, self, D)
         else let self = self\<lparr>udp_associated := True\<rparr>;
                  (res, msgv) = udp_parse_loop (zip stored (map (\<lambda>m. min len (length (snd m))) ms)) res
              in (res, msgv, bufs, self, D))"

definition hev_socks5_udp_recvmmsg ::
  "'a HevSocks5_scheme \<Rightarrow> udp_sock \<Rightarrow> bool \<Rightarrow> u8 list list \<Rightarrow> nat \<Rightarrow>
   int \<times> HevSocks5UDPMsg list \<times> u8 list list \<times> 'a HevSocks5_scheme \<times> udp_sock" where
  "hev_socks5_udp_recvmmsg self D nonblock bufs len =
     (case s_type self of
        HEV_SOCKS5_TYPE_UDP_IN_TCP \<Rightarrow>
          (let (res, msgv, bufs, self) = hev_socks5_udp_recvmmsg_tcp self nonblock bufs len
           in (res, msgv, bufs, self, D))
      | HEV_SOCKS5_TYPE_UDP_IN_UDP \<Rightarrow> hev_socks5_udp_recvmmsg_udp self D nonblock bufs len
      | _ \<Rightarrow> (-1, [], bufs, self, D))"

subsection \<open>The relay\<close>

text \<open>
  The state of \<^verbatim>\<open>hev_socks5_udp_splicer\<close>: the object, its own datagram socket, the remote socket
  \<^verbatim>\<open>fd_b\<close>, the two halves of the allocated buffer, and \<^verbatim>\<open>bind\<close>. \<open>bnd\<close> is the function the class binds new sockets with,
  \<open>undef\<close> the uninitialised stack memory of a socket address.
\<close>

record 'o udp_relay =
  r_self :: 'o
  r_sock :: udp_sock
  r_peer :: udp_sock
  r_fbufs :: "u8 list list"
  r_bbufs :: "u8 list list"
  r_bind :: bool

text \<open>The destination of every received message; \<open>None\<close> when one is invalid.\<close>

definition udp_fwd_target ::
  "resolver \<Rightarrow> int \<Rightarrow> sockaddr_in6 \<Rightarrow> HevSocks5UDPMsg \<Rightarrow> (sockaddr_in6 option \<times> u8 list) option" where
  "udp_fwd_target R family undef m =
     (if m_len m = 0 then None
      else case m_addr m of
             None \<Rightarrow> None
           | Some a \<Rightarrow>
               (let (ret, addr, _) = hev_socks5_addr_into_sockaddr6 R a undef family
                in if ret < 0 then None else Some (Some addr, take (m_len m) (m_buf m))))"

text \<open>
  \<^verbatim>\<open>hev_socks5_udp_fwd_f\<close>. A count larger than the number of stored messages makes the loop read
  array elements that were never written: \<open>None\<close>.
\<close>

definition hev_socks5_udp_fwd_f ::
  "resolver \<Rightarrow> (sockaddr_in6 \<Rightarrow> int) \<Rightarrow> sockaddr_in6 \<Rightarrow> 'a HevSocks5_scheme udp_relay \<Rightarrow>
   (int \<times> 'a HevSocks5_scheme udp_relay) option" where
  "hev_socks5_udp_fwd_f R bnd undef X =
     (let (res, svec, fbufs, self, D) =
            hev_socks5_udp_recvmmsg (r_self X) (r_sock X) True (r_fbufs X) UDP_BUF_SIZE;
          X = X\<lparr>r_self := self, r_sock := D, r_fbufs := fbufs\<rparr>
      in if res > 0 then
           (if nat res > length svec then None
            else case those (map (udp_fwd_target R (hev_socks5_get_addr_family self) undef)
                                 (take (nat res) svec)) of
                   None \<Rightarrow> Some (-1, X)
                 | Some dvec \<Rightarrow>
                     (if \<not> r_bind X \<and> bnd (the (fst (hd dvec))) < 0 then Some (-1, X)
                      else let (res, self, B) = hev_task_io_socket_sendmmsg udp_task_io_yielder True False
                                                  dvec self (r_peer X);
                               X = X\<lparr>r_bind := True, r_self := self, r_peer := B\<rparr>
                           in Some (if res \<le> 0 then (if res = -1 \<and> eagain self then 0 else -1) else 1, X)))
         else Some (if res = -1 \<and> eagain self then 0 else -1, X))"

definition udp_fwd_reply :: "HevSocks5Addr \<Rightarrow> (u8 list \<times> sockaddr_in6 \<times> u8 list) \<Rightarrow> HevSocks5UDPMsg" where
  "udp_fwd_reply undef m =
     (case m of (buf, name, bs) \<Rightarrow>
        \<lparr>m_addr = Some (snd (hev_socks5_addr_from_sockaddr6 undef name)),
         m_buf = store_dgram UDP_BUF_SIZE buf bs, m_len = min UDP_BUF_SIZE (length bs)\<rparr>)"

text \<open>\<^verbatim>\<open>hev_socks5_udp_fwd_b\<close>; \<open>undef\<close> are the 19 bytes of stack memory for an address.\<close>

definition hev_socks5_udp_fwd_b ::
  "HevSocks5Addr \<Rightarrow> 'a HevSocks5_scheme udp_relay \<Rightarrow> int \<times> 'a HevSocks5_scheme udp_relay" where
  "hev_socks5_udp_fwd_b undef X =
     (let (res, ms, self, B) = hev_task_io_socket_recvmmsg udp_task_io_yielder False True
                                 (length (r_bbufs X)) (r_self X) (r_peer X);
          dvec = map (udp_fwd_reply undef) (zip (r_bbufs X) ms);
          X = X\<lparr>r_self := self, r_peer := B,
                r_bbufs := map m_buf dvec @ drop (length ms) (r_bbufs X)\<rparr>;
          (res, X) = (if res > 0 then
                        (let (res, self, D) = hev_socks5_udp_sendmmsg self (r_sock X) dvec
                         in (res, X\<lparr>r_self := self, r_sock := D\<rparr>))
                      else (res, X))
      in (if res \<le> 0 then (if res = -1 \<and> eagain (r_self X) then 0 else -1) else 1, X))"

text \<open>
  One turn of the loop of \<^verbatim>\<open>hev_socks5_udp_splicer\<close>: \<open>Inl\<close> when the loop is left, otherwise the
  two results and how the task yields.
\<close>

definition udp_splicer_turn ::
  "resolver \<Rightarrow> (sockaddr_in6 \<Rightarrow> int) \<Rightarrow> sockaddr_in6 \<Rightarrow> HevSocks5Addr \<Rightarrow> int \<Rightarrow> int \<Rightarrow>
   'a HevSocks5_scheme udp_relay \<Rightarrow>
   ('a HevSocks5_scheme udp_relay + int \<times> int \<times> HevTaskYieldType \<times> 'a HevSocks5_scheme udp_relay) option" where
  "udp_splicer_turn R bnd undef undef2 res_f res_b X =
     (case (if res_f \<ge> 0 then hev_socks5_udp_fwd_f R bnd undef X else Some (res_f, X)) of
        None \<Rightarrow> None
      | Some (res_f, X) \<Rightarrow>
          (let (res_b, X) = (if res_b \<ge> 0 then hev_socks5_udp_fwd_b undef2 X else (res_b, X))
           in if res_f > 0 \<or> res_b > 0 then Some (Inr (res_f, res_b, HEV_TASK_YIELD, X))
              else if res_f AND res_b = 0 then Some (Inr (res_f, res_b, HEV_TASK_WAITIO, X))
              else Some (Inl X)))"

text \<open>
  The loop, over the list of the task's resumptions; with the list used up the task stays
  suspended (\<open>Inr\<close>).
\<close>

fun udp_splicer_loop ::
  "resolver \<Rightarrow> (sockaddr_in6 \<Rightarrow> int) \<Rightarrow> sockaddr_in6 \<Rightarrow> HevSocks5Addr \<Rightarrow> wait list \<Rightarrow> int \<Rightarrow> int \<Rightarrow>
   'a HevSocks5_scheme udp_relay \<Rightarrow> ('a HevSocks5_scheme udp_relay + 'a HevSocks5_scheme udp_relay) option" where
  "udp_splicer_loop R bnd undef undef2 ws res_f res_b X =
     (case udp_splicer_turn R bnd undef undef2 res_f res_b X of
        None \<Rightarrow> None
      | Some (Inl X) \<Rightarrow> Some (Inl X)
      | Some (Inr (res_f, res_b, type, X)) \<Rightarrow>
          (case ws of
             [] \<Rightarrow> Some (Inr X)
           | w # ws \<Rightarrow>
               (case udp_task_io_yielder type w (r_self X) of
                  (r, self) \<Rightarrow>
                    if r \<noteq> 0 then Some (Inl (X\<lparr>r_self := self\<rparr>))
                    else udp_splicer_loop R bnd undef undef2 ws res_f res_b (X\<lparr>r_self := self\<rparr>))))"

declare udp_splicer_loop.simps [simp del]

text \<open>\<^verbatim>\<open>hev_socks5_udp_splicer\<close>; \<open>mem\<close> is the result of \<^verbatim>\<open>hev_malloc\<close>, cut into \<^verbatim>\<open>num\<close> buffers twice.\<close>

definition hev_socks5_udp_splicer ::
  "resolver \<Rightarrow> (sockaddr_in6 \<Rightarrow> int) \<Rightarrow> sockaddr_in6 \<Rightarrow> HevSocks5Addr \<Rightarrow> wait list \<Rightarrow> (u8 list list \<times> u8 list list) option \<Rightarrow>
   'a HevSocks5_scheme \<Rightarrow> udp_sock \<Rightarrow> udp_sock \<Rightarrow>
   (int \<times> ('a HevSocks5_scheme udp_relay + 'a HevSocks5_scheme udp_relay) option) option" where
  "hev_socks5_udp_splicer R bnd undef undef2 ws mem self A B =
     (case mem of
        None \<Rightarrow> Some (-1, None)
      | Some (fb, bb) \<Rightarrow>
          (case udp_splicer_loop R bnd undef undef2 ws 1 1
                  \<lparr>r_self = self, r_sock = A, r_peer = B, r_fbufs = fb, r_bbufs = bb, r_bind = False\<rparr> of
             None \<Rightarrow> None
           | Some X \<Rightarrow> Some (0, Some X)))"

subsection \<open>Frames on the control connection\<close>

text \<open>A datagram with address \<open>w\<close> and payload \<open>d\<close>, as the sender frames it.\<close>

definition udp_frame :: "u8 list \<Rightarrow> u8 list \<Rightarrow> u8 list" where
  "udp_frame w d = be16 (of_nat (length d)) @ [of_nat (3 + length w)] @ w @ d"

text \<open>Messages the one-byte header length and the two-byte data length can describe.\<close>

definition msg_ok :: "HevSocks5UDPMsg \<Rightarrow> bool" where
  "msg_ok m \<longleftrightarrow> (case m_addr m of
     None \<Rightarrow> False
   | Some a \<Rightarrow> 0 < hev_socks5_addr_len a \<and> hev_socks5_addr_len a \<le> 252 \<and>
       nat (hev_socks5_addr_len a) \<le> length a \<and> m_len m \<le> length (m_buf m) \<and> m_len m < 65536)"

abbreviation msg_addr :: "HevSocks5UDPMsg \<Rightarrow> u8 list" where
  "msg_addr m \<equiv> addr_wire (the (m_addr m))"

abbreviation msg_data :: "HevSocks5UDPMsg \<Rightarrow> u8 list" where
  "msg_data m \<equiv> take (m_len m) (m_buf m)"

lemma addr_len_range: "0 < hev_socks5_addr_len a \<Longrightarrow> 4 \<le> hev_socks5_addr_len a"
  by (auto simp: hev_socks5_addr_len_def split: if_splits)

lemma msg_ok_vec:
  assumes "msg_ok m"
  shows "\<exists>v. udp_tcp_vec m = Some v \<and> concat v = udp_frame (msg_addr m) (msg_data m)"
    "4 \<le> length (msg_addr m)" "length (msg_addr m) \<le> 252" "length (msg_data m) = m_len m"
    "length (msg_addr m) = nat (hev_socks5_addr_len (the (m_addr m)))"
proof -
  from assms obtain a where a: "m_addr m = Some a" "0 < hev_socks5_addr_len a" "hev_socks5_addr_len a \<le> 252"
    "nat (hev_socks5_addr_len a) \<le> length a" "m_len m \<le> length (m_buf m)" "m_len m < 65536"
    by (auto simp: msg_ok_def split: option.splits)
  have r: "4 \<le> hev_socks5_addr_len a" using addr_len_range a(2) by blast
  show l: "4 \<le> length (msg_addr m)" "length (msg_addr m) \<le> 252" "length (msg_data m) = m_len m"
    "length (msg_addr m) = nat (hev_socks5_addr_len (the (m_addr m)))"
    using a r by (simp_all add: addr_wire_def)
  have "of_int (3 + hev_socks5_addr_len a) = (of_nat (3 + length (msg_addr m)) :: u8)"
  proof -
    have "3 + hev_socks5_addr_len a = int (3 + length (msg_addr m))" using l(4) a r by simp
    then show ?thesis by (simp only: of_int_of_nat_eq)
  qed
  then show "\<exists>v. udp_tcp_vec m = Some v \<and> concat v = udp_frame (msg_addr m) (msg_data m)"
    using a l(3) by (simp add: udp_tcp_vec_def udp_frame_def le16_htons addr_wire_def Let_def)
qed

lemma those_map_Some:
  "(\<And>x. x \<in> set xs \<Longrightarrow> \<exists>y. f x = Some y \<and> P x y) \<Longrightarrow> \<exists>ys. those (map f xs) = Some ys \<and> list_all2 P xs ys"
  by (induction xs) force+

lemma udp_sendmmsg_tcp_live:
  assumes "tx_live (txq self)" "\<And>m. m \<in> set msgv \<Longrightarrow> msg_ok m" "msgv \<noteq> []"
  shows "\<exists>self'. hev_socks5_udp_sendmmsg_tcp self msgv = (int (length msgv), self') \<and>
    sent self' = sent self @ concat (map (\<lambda>m. udp_frame (msg_addr m) (msg_data m)) msgv)"
proof -
  let ?f = "\<lambda>m. udp_frame (msg_addr m) (msg_data m)"
  have "\<exists>v. udp_tcp_vec m = Some v \<and> concat v = ?f m" if "m \<in> set msgv" for m
    using msg_ok_vec(1) [OF assms(2) [OF that]] .
  from those_map_Some [of msgv udp_tcp_vec "\<lambda>m v. concat v = ?f m", OF this]
  obtain vecs where v: "those (map udp_tcp_vec msgv) = Some vecs" "list_all2 (\<lambda>m v. concat v = ?f m) msgv vecs"
    by auto
  from v(2) have c: "concat (concat vecs) = concat (map ?f msgv)" by (induction rule: list_all2_induct) auto
  have ne: "concat (map ?f msgv) \<noteq> []" using assms(3) by (cases msgv) (auto simp: udp_frame_def be16_def)
  from send_live [of udp_task_io_yielder self, OF yielder_live(2) assms(1) ne] obtain q e where
    "hev_task_io_socket_send udp_task_io_yielder True False (concat (map ?f msgv)) self =
      (int (length (concat (map ?f msgv))), self\<lparr>sent := sent self @ concat (map ?f msgv), txq := q, eagain := e\<rparr>)"
    by blast
  with v(1) c ne show ?thesis by (simp add: hev_socks5_udp_sendmmsg_tcp_def sendmsg_eq_send)
qed

lemma recv_some_live:
  assumes y: "\<And>w t s. wait_live w \<Longrightarrow> y t w s = (0, s)"
  shows "rx_live q \<Longrightarrow> rx_data q \<noteq> [] \<Longrightarrow> 0 < len \<Longrightarrow>
    \<exists>k q' e. recv_loop y False False len 0 q self = (int k, take k (rx_data q), q', self\<lparr>eagain := e\<rparr>) \<and>
      0 < k \<and> k \<le> len \<and> rx_live q' \<and> rx_data q' = drop k (rx_data q) \<and> k \<le> length (rx_data q)"
proof (induction q arbitrary: self)
  case (Cons a q)
  show ?case
  proof (cases a)
    case (RxData bs)
    let ?k = "min len (length bs)"
    have k: "0 < ?k" "?k \<le> len" "?k \<le> length (rx_data (a # q))" using Cons.prems RxData by auto
    have "recv_loop y False False len 0 (a # q) self =
        (int ?k, take ?k (rx_data (a # q)), if ?k < length bs then RxData (drop ?k bs) # q else q, self\<lparr>eagain := eagain self\<rparr>)"
      using RxData by (simp add: Let_def)
    moreover have "rx_live (if ?k < length bs then RxData (drop ?k bs) # q else q)"
      "rx_data (if ?k < length bs then RxData (drop ?k bs) # q else q) = drop ?k (rx_data (a # q))"
      using Cons.prems RxData by auto
    ultimately show ?thesis using k by blast
  next
    case (RxAgain w)
    have "rx_live q" "rx_data q \<noteq> []" using RxAgain Cons.prems by auto
    from Cons.IH [OF this Cons.prems(3), of "self\<lparr>eagain := True\<rparr>"] RxAgain Cons.prems y [of w]
    show ?thesis by (auto simp: Let_def)
  qed (use Cons in auto)
qed simp

lemma recv_any_live:
  assumes "\<And>w t s. wait_live w \<Longrightarrow> y t w s = (0, s)" "rx_live (rxq self)" "rx_data (rxq self) = bs @ rest" "bs \<noteq> []"
  shows "\<exists>q e. hev_task_io_socket_recv y True False (length bs) self = (int (length bs), bs, self\<lparr>rxq := q, eagain := e\<rparr>) \<and>
    rx_live q \<and> rx_data q = rest"
  using recv_live [of y self "length bs", OF assms(1,2)] assms(3,4) by auto

lemma udp_read_head_live:
  assumes "rx_live (rxq self)" "rx_data (rxq self) = h @ rest" "length h = 5"
  shows "\<exists>q e. udp_read_head self False = (5, h, self\<lparr>rxq := q, eagain := e\<rparr>) \<and> rx_live q \<and> rx_data q = rest"
proof -
  have "rx_data (rxq self) \<noteq> []" using assms by auto
  from recv_some_live [of udp_task_io_yielder, OF yielder_live(2) assms(1) this, of 5 self] obtain k q e where
    k: "recv_loop udp_task_io_yielder False False 5 0 (rxq self) self =
      (int k, take k (rx_data (rxq self)), q, self\<lparr>eagain := e\<rparr>)"
    "0 < k" "k \<le> 5" "rx_live q" "rx_data q = drop k (rx_data (rxq self))" by auto
  let ?s = "self\<lparr>rxq := q, eagain := e\<rparr>"
  have r1: "hev_task_io_socket_recv udp_task_io_yielder False False 5 self = (int k, take k h, ?s)"
    using k assms(2,3) by (simp add: hev_task_io_socket_recv_def)
  have q: "rx_data q = drop k h @ rest" using k assms by simp
  show ?thesis
  proof (cases "k = 5")
    case True
    with r1 q k assms(3) show ?thesis by (auto simp: udp_read_head_def)
  next
    case False
    with k(3) have lt: "k < 5" by simp
    from recv_any_live [of udp_task_io_yielder ?s "drop k h" rest, OF yielder_live(2)] k(4) q lt assms(3)
    obtain q2 e2 where
      "hev_task_io_socket_recv udp_task_io_yielder True False (5 - k) ?s =
        (int (5 - k), drop k h, self\<lparr>rxq := q2, eagain := e2\<rparr>)" "rx_live q2" "rx_data q2 = rest" by auto
    with r1 lt k(2) show ?thesis
      by (auto simp: udp_read_head_def of_nat_diff intro!: exI [of _ q2] exI [of _ e2])
  qed
qed

lemma mem_write_two:
  assumes "2 + length xs + length ys \<le> length buf" "a = 2 + length xs"
  shows "(mem_write (mem_write buf 2 xs) a ys)[0 := u, 1 := v] = u # v # xs @ ys @ drop (a + length ys) buf"
proof -
  obtain b0 b1 bs where b: "buf = b0 # b1 # bs" using assms by (cases buf; cases "tl buf") auto
  with assms show ?thesis by (simp add: mem_write_def add.commute)
qed

lemma two_more: "2 \<le> length xs \<Longrightarrow> \<exists>a b ys. xs = a # b # ys"
  by (cases xs; cases "tl xs") auto

lemma udp_head_fields:
  fixes t u :: u8
  shows "k \<le> 252 \<Longrightarrow> unat ((be16 x @ [of_nat (3 + k), t, u]) ! 2) = 3 + k"
    "n < 65536 \<Longrightarrow> unat (ntohs (of_le16 (take 2 (be16 (of_nat n) @ y)))) = n"
    "(be16 x @ [v, t, u]) ! 3 = t" "(be16 x @ [v, t, u]) ! 4 = u"
proof -
  assume "k \<le> 252"
  then show "unat ((be16 x @ [of_nat (3 + k), t, u]) ! 2) = 3 + k"
    by (simp add: be16_def unat_of_nat numeral_2_eq_2 del: of_nat_add of_nat_Suc)
qed (simp_all add: be16_def of_le16_def htons_def unat_of_nat)

lemma udp_recv_tcp_one_live:
  assumes l: "rx_live (rxq self)" and d: "rx_data (rxq self) = udp_frame w dat @ rest"
    and w: "4 \<le> length w" "length w \<le> 252" and dat: "length dat < 65536"
    and fit: "length w + length dat \<le> len" "len \<le> length buf" "len < 2 ^ 64"
  shows "\<exists>q e. udp_recv_tcp_one self False buf len =
      (Stored \<lparr>m_addr = Some (w @ dat @ drop (length w + length dat) buf),
         m_buf = dat @ drop (length w + length dat) buf, m_len = length dat\<rparr>,
       w @ dat @ drop (length w + length dat) buf, self\<lparr>rxq := q, eagain := e\<rparr>) \<and> rx_live q \<and> rx_data q = rest"
proof -
  obtain w0 w1 ws where ws: "w = w0 # w1 # ws" using w by (cases w; cases "tl w") auto
  let ?h = "be16 (of_nat (length dat)) @ [of_nat (3 + length w), w0, w1]"
  have "rx_data (rxq self) = ?h @ (ws @ dat) @ rest" using d ws by (simp add: udp_frame_def)
  from udp_read_head_live [OF l this] obtain q e where
    h: "udp_read_head self False = (5, ?h, self\<lparr>rxq := q, eagain := e\<rparr>)" "rx_live q" "rx_data q = (ws @ dat) @ rest"
    by auto
  let ?s = "self\<lparr>rxq := q, eagain := e\<rparr>"
  have "rx_live (rxq ?s)" "rx_data (rxq ?s) = (ws @ dat) @ rest" "ws @ dat \<noteq> []"
    using h w ws by auto
  from recv_any_live [of udp_task_io_yielder, OF yielder_live(2) this] obtain q2 e2 where
    b: "hev_task_io_socket_recv udp_task_io_yielder True False (length ws + length dat) ?s =
      (int (length ws + length dat), ws @ dat, self\<lparr>rxq := q2, eagain := e2\<rparr>)" "rx_live q2" "rx_data q2 = rest"
    by auto
  note hd = udp_head_fields(1) [OF w(2)] and dl = udp_head_fields(2) [OF dat]
  have fits: "\<not> length dat > sz_sub len (length w)" using fit by (simp add: sz_sub_small)
  have mem: "(mem_write (mem_write buf 2 ws) (2 + length ws) dat)[0 := w0, 1 := w1] =
      w @ dat @ drop (length w + length dat) buf"
    using mem_write_two [of ws dat buf "2 + length ws" w0 w1] fit ws by simp
  have "udp_recv_tcp_one self False buf len =
      (Stored \<lparr>m_addr = Some (w @ dat @ drop (length w + length dat) buf),
         m_buf = drop (length w) (w @ dat @ drop (length w + length dat) buf), m_len = length dat\<rparr>,
       w @ dat @ drop (length w + length dat) buf, self\<lparr>rxq := q2, eagain := e2\<rparr>)"
    unfolding udp_recv_tcp_one_def Let_def h(1) prod.case recvmsg_eq_recv hd dl udp_head_fields(3,4)
    using fits b(1) w ws mem by (simp del: drop_update_cancel)
  with b(2,3) show ?thesis by auto
qed

lemma udp_recv_tcp_loop_live:
  assumes "list_all (\<lambda>m. msg_ok m \<and> length (msg_addr m) + m_len m \<le> len) msgv" "len < 2 ^ 64"
  shows "rx_live (rxq self) \<Longrightarrow>
    rx_data (rxq self) = concat (map (\<lambda>m. udp_frame (msg_addr m) (msg_data m)) msgv) @ rest \<Longrightarrow>
    length bufs = length msgv \<Longrightarrow> list_all (\<lambda>b. len \<le> length b) bufs \<Longrightarrow>
    \<exists>ms bufs' self'. udp_recv_tcp_loop self False len bufs n = (int (n + length msgv), ms, bufs', self') \<and>
      list_all2 (\<lambda>m m'. msg_addr m' = msg_addr m \<and> msg_data m' = msg_data m) msgv ms \<and> rx_data (rxq self') = rest"
  using assms(1)
proof (induction msgv arbitrary: self bufs n)
  case (Cons m msgv)
  obtain b bs where b: "bufs = b # bs" "len \<le> length b" using Cons.prems(3,4) by (cases bufs) auto
  have m: "msg_ok m" "length (msg_addr m) + m_len m \<le> len" using Cons.prems(5) by auto
  note v = msg_ok_vec [OF m(1)]
  have dl: "length (msg_data m) < 65536" using m(1) v(4) by (auto simp: msg_ok_def split: option.splits)
  have "rx_data (rxq self) = udp_frame (msg_addr m) (msg_data m) @
      concat (map (\<lambda>m. udp_frame (msg_addr m) (msg_data m)) msgv) @ rest" using Cons.prems(2) by simp
  from udp_recv_tcp_one_live [OF Cons.prems(1) this v(2,3) dl _ b(2) assms(2)] m(2) v(4) obtain q e where
    o: "udp_recv_tcp_one self False b len =
      (Stored \<lparr>m_addr = Some (msg_addr m @ msg_data m @ drop (length (msg_addr m) + m_len m) b),
         m_buf = msg_data m @ drop (length (msg_addr m) + m_len m) b, m_len = m_len m\<rparr>,
       msg_addr m @ msg_data m @ drop (length (msg_addr m) + m_len m) b, self\<lparr>rxq := q, eagain := e\<rparr>)"
    "rx_live q" "rx_data q = concat (map (\<lambda>m. udp_frame (msg_addr m) (msg_data m)) msgv) @ rest" by auto
  from Cons.IH [of "self\<lparr>rxq := q, eagain := e\<rparr>" bs "Suc n"] o(2,3) Cons.prems(3-5) b obtain ms bufs' self' where
    r: "udp_recv_tcp_loop (self\<lparr>rxq := q, eagain := e\<rparr>) False len bs (Suc n) =
      (int (Suc n + length msgv), ms, bufs', self')"
    "list_all2 (\<lambda>m m'. msg_addr m' = msg_addr m \<and> msg_data m' = msg_data m) msgv ms" "rx_data (rxq self') = rest"
    by auto
  have "addr_wire (msg_addr m @ xs) = msg_addr m" for xs
  proof -
    let ?a = "the (m_addr m)"
    have le: "nat (hev_socks5_addr_len ?a) \<le> length ?a" using m(1) by (auto simp: msg_ok_def split: option.splits)
    have "(msg_addr m @ xs) ! 0 = ?a ! 0" "(msg_addr m @ xs) ! 1 = ?a ! 1"
      using v(2,5) by (auto simp: nth_append addr_wire_def)
    then have "hev_socks5_addr_len (msg_addr m @ xs) = hev_socks5_addr_len ?a"
      by (simp add: hev_socks5_addr_len_def a_atype_def a_domain_len_def)
    then show ?thesis using v(5) by (simp add: addr_wire_def)
  qed
  with o(1) r b v(4) show ?case by simp
qed simp

subsection \<open>Memory safety of the receiver\<close>

lemma recv_loop_le: "recv_loop y wa dw len n q self = (r, bs, q', self') \<Longrightarrow> length bs \<le> len - n"
proof (induction q arbitrary: n self r bs)
  case (Cons a q)
  show ?case
  proof (cases a)
    case (RxData b0)
    with Cons show ?thesis by (fastforce simp: Let_def split: if_splits prod.splits)
  next
    case (RxAgain w)
    with Cons.prems Cons.IH [of n] show ?thesis by (fastforce simp: Let_def split: if_splits prod.splits)
  qed (use Cons in auto)
qed auto

lemma recvmsg_le:
  "hev_task_io_socket_recvmsg y wa dw lens self = (r, bs, self') \<Longrightarrow> length bs \<le> sum_list lens"
  using recv_loop_le [of y wa dw "sum_list lens" 0]
  by (auto simp: recvmsg_eq_recv hev_task_io_socket_recv_def split: prod.splits)

text \<open>A block after a receive: as long as before, unchanged past the usable part.\<close>

definition within :: "nat \<Rightarrow> u8 list \<Rightarrow> u8 list \<Rightarrow> bool" where
  "within len b b' \<longleftrightarrow> length b' = length b \<and> drop len b' = drop len b"

lemma within_write: "off + length xs \<le> len \<Longrightarrow> len \<le> length b \<Longrightarrow> within len b (mem_write b off xs)"
  by (simp add: within_def drop_mem_write_above)

lemma within_trans: "within len a b \<Longrightarrow> within len b c \<Longrightarrow> within len a c"
  by (simp add: within_def)

lemma within_update: "i < len \<Longrightarrow> within len b (b[i := x])"
  by (simp add: within_def)

definition msg_within :: "nat \<Rightarrow> HevSocks5UDPMsg \<Rightarrow> bool" where
  "msg_within len m \<longleftrightarrow> (\<exists>a off. m_addr m = Some a \<and> m_buf m = drop off a \<and> 2 \<le> off \<and> off + m_len m \<le> len)"

lemma udp_recv_tcp_one_within:
  assumes len: "252 \<le> len" "len < 2 ^ 64" "len \<le> length buf"
    and r: "udp_recv_tcp_one self nb buf len = (x, buf', self')"
  shows "within len buf buf' \<and> (\<forall>m. x = Stored m \<longrightarrow> msg_within len m)"
proof -
  obtain res h s1 where h: "udp_read_head self nb = (res, h, s1)" by (metis prod_cases3)
  define al where "al = unat (h ! 2) - 3"
  define dl where "dl = unat (ntohs (of_le16 (take 2 h)))"
  obtain res2 bs s2 where b: "hev_task_io_socket_recvmsg udp_task_io_yielder True False [al - 2, dl] s1 = (res2, bs, s2)"
    by (metis prod_cases3)
  let ?m = "mem_write (mem_write buf 2 (take (al - 2) bs)) al (drop (al - 2) bs)"
  let ?b = "?m[0 := h ! 3, 1 := h ! 4]"
  have r': "x = Stored m \<Longrightarrow> res = 5 \<and> \<not> unat (h ! 2) < 5 \<and> \<not> dl > sz_sub len al \<and> buf' = ?b \<and>
      m = \<lparr>m_addr = Some ?b, m_buf = drop al ?b, m_len = dl\<rparr>" for m
    using r h b by (auto simp: udp_recv_tcp_one_def Let_def al_def dl_def split: if_splits)
  have c: "buf' = buf \<or> (\<not> unat (h ! 2) < 5 \<and> \<not> dl > sz_sub len al \<and> (buf' = ?m \<or> buf' = ?b))"
    using r h b by (auto simp: udp_recv_tcp_one_def Let_def al_def dl_def split: if_splits)
  have al: "al \<le> 252" using unat_u8_less [of "h ! 2"] by (simp add: al_def)
  have sub: "sz_sub len al = len - al" using len al by (intro sz_sub_small) simp_all
  have w: "within len buf ?m \<and> within len buf ?b" "al + dl \<le> len" "2 \<le> al"
    if "\<not> unat (h ! 2) < 5" "\<not> dl > sz_sub len al"
  proof -
    show a: "2 \<le> al" "al + dl \<le> len" using that sub len al by (auto simp: al_def)
    have "length bs \<le> al - 2 + dl" using recvmsg_le [OF b] by simp
    then have "length (take (al - 2) bs) \<le> al - 2" "al + length (drop (al - 2) bs) \<le> len" using a by auto
    then have "within len buf ?m" using a len
      by (intro within_trans [OF within_write within_write]) auto
    moreover from this have "within len buf ?b" using len(1) by (simp add: within_def)
    ultimately show "within len buf ?m \<and> within len buf ?b" ..
  qed
  have "within len buf buf'" using c w by (auto simp: within_def)
  moreover have "msg_within len m" if "x = Stored m" for m
    using r' [OF that] w unfolding msg_within_def by (intro exI [of _ ?b] exI [of _ al]) simp
  ultimately show ?thesis by blast
qed

lemma udp_recv_tcp_loop_within:
  assumes len: "252 \<le> len" "len < 2 ^ 64"
  shows "udp_recv_tcp_loop self nb len bufs n = (res, ms, bufs', self') \<Longrightarrow> list_all (\<lambda>b. len \<le> length b) bufs \<Longrightarrow>
    list_all2 (within len) bufs bufs' \<and> list_all (msg_within len) ms"
proof (induction bufs arbitrary: self n res ms bufs')
  case (Cons b bufs)
  obtain x b1 s1 where o: "udp_recv_tcp_one self nb b len = (x, b1, s1)" by (metis prod_cases3)
  have w: "within len b b1" "x = Stored m \<Longrightarrow> msg_within len m" for m
    using udp_recv_tcp_one_within [OF len _ o] Cons.prems(2) by auto
  have refl: "list_all2 (within len) bufs bufs" by (simp add: list_all2_refl within_def)
  show ?case
  proof (cases x)
    case (Stored m)
    obtain r2 ms2 bs2 s2 where l: "udp_recv_tcp_loop s1 nb len bufs (Suc n) = (r2, ms2, bs2, s2)" by (metis prod_cases4)
    have "res = r2" "ms = m # ms2" "bufs' = b1 # bs2" "self' = s2"
      using Cons.prems(1) o l Stored by simp_all
    with Cons.IH [of s1 "Suc n" r2 ms2 bs2] l Cons.prems(2) w Stored show ?thesis by simp
  qed (use Cons.prems o w refl in auto)
qed simp

subsection \<open>The relay over a datagram socket\<close>

lemma recvmmsg_keeps:
  assumes "hev_task_io_socket_recvmmsg udp_task_io_yielder False dw n self D = (r, ms, self', D')"
  shows "frz self' = frz self" "length ms \<le> n" "0 < r \<Longrightarrow> r = int (length ms)"
  using assms recvmmsg_loop_frame [OF yields_yielders(2), of False dw n 0 "d_rx D" self]
  by (auto simp: hev_task_io_socket_recvmmsg_def split: prod.splits)

lemma sendmmsg_keeps:
  assumes "hev_task_io_socket_sendmmsg udp_task_io_yielder wa dw ms self D = (r, self', D')"
  shows "frz self' = frz self"
  using assms sendmmsg_loop_frame [OF yields_yielders(2), of wa dw ms 0 "d_tx D" self]
  by (fastforce simp: hev_task_io_socket_sendmmsg_def split: prod.splits)

lemma udp_parse_count:
  "udp_parse_loop l res = (r, ms) \<Longrightarrow> r = -1 \<or> r = res \<and> length ms = length l"
  by (induction l arbitrary: ms r) (auto simp: Let_def split: if_splits prod.splits)

lemma udp_recvmmsg_udp_keeps:
  assumes "hev_socks5_udp_recvmmsg_udp self D nb bufs len = (r, ms, bufs', self', D')"
  shows "s_type self' = s_type self" "0 < r \<Longrightarrow> nat r \<le> length ms"
proof -
  obtain res ms0 s1 D1 where
    q: "hev_task_io_socket_recvmmsg udp_task_io_yielder False nb (length bufs) self D = (res, ms0, s1, D1)"
    by (metis prod_cases4)
  note k = recvmmsg_keeps [OF q]
  have t: "s_type s1 = s_type self" using k(1) frz_fields by blast
  let ?st = "map2 (store_dgram len) bufs (map snd ms0)"
  let ?l = "zip ?st (map (\<lambda>m. min len (length (snd m))) ms0)"
  obtain r2 ms2 where p: "udp_parse_loop ?l res = (r2, ms2)" by (metis prod.exhaust)
  have l: "length ?l = length ms0" using k(2) by simp
  have c: "(r = res \<and> res \<le> 0 \<or> r = -1) \<and> self' = s1 \<or>
      0 < res \<and> r = r2 \<and> ms = ms2 \<and> self' = s1\<lparr>udp_associated := True\<rparr>"
    using assms q p by (auto simp: hev_socks5_udp_recvmmsg_udp_def Let_def split: if_splits)
  then show "s_type self' = s_type self" using t by auto
  show "0 < r \<Longrightarrow> nat r \<le> length ms" using c udp_parse_count [OF p] k(3) l by auto
qed

lemma udp_fwd_f_udp:
  assumes "s_type (r_self X) = HEV_SOCKS5_TYPE_UDP_IN_UDP"
  shows "\<exists>r X'. hev_socks5_udp_fwd_f R bnd undef X = Some (r, X') \<and> s_type (r_self X') = HEV_SOCKS5_TYPE_UDP_IN_UDP"
proof -
  obtain res ms bufs s1 D1 where
    q: "hev_socks5_udp_recvmmsg_udp (r_self X) (r_sock X) True (r_fbufs X) UDP_BUF_SIZE = (res, ms, bufs, s1, D1)"
    by (metis prod_cases5)
  note k = udp_recvmmsg_udp_keeps [OF q]
  have "s_type s2 = s_type s1" if "hev_task_io_socket_sendmmsg udp_task_io_yielder True False dvec s1 B = (r, s2, B')"
    for dvec B r s2 B' using sendmmsg_keeps [OF that] frz_fields by blast
  moreover have "\<not> length ms < nat res" if "0 < res" using k(2) [OF that] by simp
  ultimately show ?thesis using assms q k(1)
    by (auto simp: hev_socks5_udp_fwd_f_def hev_socks5_udp_recvmmsg_def Let_def
        split: option.splits prod.splits)
qed

lemma udp_fwd_b_udp:
  assumes "s_type (r_self X) = HEV_SOCKS5_TYPE_UDP_IN_UDP" "hev_socks5_udp_fwd_b undef X = (r, X')"
  shows "s_type (r_self X') = HEV_SOCKS5_TYPE_UDP_IN_UDP"
proof -
  obtain res ms s1 B1 where
    q: "hev_task_io_socket_recvmmsg udp_task_io_yielder False True (length (r_bbufs X)) (r_self X) (r_peer X) =
      (res, ms, s1, B1)" by (metis prod_cases4)
  have t: "s_type s1 = HEV_SOCKS5_TYPE_UDP_IN_UDP"
    using recvmmsg_keeps(1) [OF q] frz_fields assms(1) by metis
  have "s_type s2 = s_type s1" if "hev_socks5_udp_sendmmsg_udp s1 D dvec = (r, s2, D')" for D dvec r s2 D'
    using that frz_fields
    by (fastforce simp: hev_socks5_udp_sendmmsg_udp_def split: option.splits dest!: sendmmsg_keeps)
  with assms q t show ?thesis
    by (auto simp: hev_socks5_udp_fwd_b_def hev_socks5_udp_sendmmsg_def Let_def split: if_splits prod.splits)
qed

lemma udp_splicer_turn_udp:
  assumes "s_type (r_self X) = HEV_SOCKS5_TYPE_UDP_IN_UDP"
  shows "(\<exists>X'. udp_splicer_turn R bnd undef undef2 f b X = Some (Inl X')) \<or>
    (\<exists>f' b' t X'. udp_splicer_turn R bnd undef undef2 f b X = Some (Inr (f', b', t, X')) \<and>
      s_type (r_self X') = HEV_SOCKS5_TYPE_UDP_IN_UDP)"
proof -
  obtain f1 X1 where f: "(if f \<ge> 0 then hev_socks5_udp_fwd_f R bnd undef X else Some (f, X)) = Some (f1, X1)"
    "s_type (r_self X1) = HEV_SOCKS5_TYPE_UDP_IN_UDP"
    using udp_fwd_f_udp [OF assms, of R bnd undef] assms by (cases "f \<ge> 0") auto
  obtain b1 X2 where b: "(if b \<ge> 0 then hev_socks5_udp_fwd_b undef2 X1 else (b, X1)) = (b1, X2)" by (metis prod.exhaust)
  then have "s_type (r_self X2) = HEV_SOCKS5_TYPE_UDP_IN_UDP" using f(2) udp_fwd_b_udp by (auto split: if_splits)
  with f(1) b show ?thesis by (simp add: udp_splicer_turn_def)
qed

lemma udp_yielder_type: "udp_task_io_yielder t w s = (r, s') \<Longrightarrow> s_type s' = s_type s"
  using yieldsD [OF yields_yielders(2)] frz_fields by blast

lemma udp_splicer_loop_ends:
  "s_type (r_self X) = HEV_SOCKS5_TYPE_UDP_IN_UDP \<Longrightarrow> \<exists>w\<in>set ws. w_ctl w = CtlEof \<or> w_ctl w = CtlErr \<Longrightarrow>
   \<exists>X'. udp_splicer_loop R bnd undef undef2 ws f b X = Some (Inl X')"
proof (induction ws arbitrary: f b X)
  case (Cons w ws)
  note turn = udp_splicer_turn_udp [OF Cons.prems(1), of R bnd undef undef2 f b]
  show ?case
  proof (cases "\<exists>X'. udp_splicer_turn R bnd undef undef2 f b X = Some (Inl X')")
    case True
    then show ?thesis by (auto simp: udp_splicer_loop.simps)
  next
    case False
    with turn obtain f1 b1 t X1 where t: "udp_splicer_turn R bnd undef undef2 f b X = Some (Inr (f1, b1, t, X1))"
      "s_type (r_self X1) = HEV_SOCKS5_TYPE_UDP_IN_UDP" by blast
    obtain r s1 where y: "udp_task_io_yielder t w (r_self X1) = (r, s1)" by (metis prod.exhaust)
    show ?thesis
    proof (cases "r = 0")
      case True
      then have "\<exists>w\<in>set ws. w_ctl w = CtlEof \<or> w_ctl w = CtlErr"
        using y t(2) Cons.prems(2) by (auto simp: udp_task_io_yielder_def)
      with Cons.IH [of "X1\<lparr>r_self := s1\<rparr>"] udp_yielder_type [OF y] t(2) True t(1) y show ?thesis
        by (subst udp_splicer_loop.simps) simp
    qed (use t(1) y in \<open>simp add: udp_splicer_loop.simps\<close>)
  qed
qed simp

subsection \<open>Properties\<close>

text \<open>C25 UDP over the control connection loses nothing: messages with an address of at most 252 bytes
  and a payload below 65536 bytes, sent over a live connection and received into buffers they fit,
  arrive in the same number and order with the same addresses and payloads, however the stream
  cuts the bytes.\<close>

theorem udp_tcp_roundtrip:
  assumes "tx_live (txq s)" "msgv \<noteq> []" "sent s = []"
    and "list_all (\<lambda>m. msg_ok m \<and> length (msg_addr m) + m_len m \<le> len) msgv" "len < 2 ^ 64"
    and "hev_socks5_udp_sendmmsg_tcp s msgv = (k, s')"
    and "rx_live (rxq r)" "rx_data (rxq r) = sent s'"
    and "length bufs = length msgv" "list_all (\<lambda>b. len \<le> length b) bufs"
  shows "k = int (length msgv) \<and>
    (\<exists>ms bufs' r'. hev_socks5_udp_recvmmsg_tcp r False bufs len = (int (length msgv), ms, bufs', r') \<and>
      list_all2 (\<lambda>m m'. msg_addr m' = msg_addr m \<and> msg_data m' = msg_data m) msgv ms \<and> rx_data (rxq r') = [])"
proof -
  have ok: "\<And>m. m \<in> set msgv \<Longrightarrow> msg_ok m" using assms(4) by (auto simp: list_all_iff)
  from udp_sendmmsg_tcp_live [OF assms(1) ok assms(2)] assms(3,6)
  have k: "k = int (length msgv)"
    and d: "rx_data (rxq r) = concat (map (\<lambda>m. udp_frame (msg_addr m) (msg_data m)) msgv) @ []"
    using assms(8) by auto
  from udp_recv_tcp_loop_live [OF assms(4,5,7) d assms(9,10), of 0] k show ?thesis
    by (simp add: hev_socks5_udp_recvmmsg_tcp_def)
qed

definition demo_msgs :: "HevSocks5UDPMsg list" where
  "demo_msgs = [\<lparr>m_addr = Some [1, 10, 0, 0, 1, 0, 53], m_buf = [9, 8, 7], m_len = 2\<rparr>,
                \<lparr>m_addr = Some [3, 1, 97, 0, 80], m_buf = [6], m_len = 1\<rparr>]"

definition demo_udp :: HevSocks5 where
  "demo_udp = \<lparr>fd = 3, timeout = 100, udp_associated = False, s_type = HEV_SOCKS5_TYPE_UDP_IN_TCP, addr_family = 0,
     rxq = [], txq = [TxOk 4], sent = [], eagain = False, closed = []\<rparr>"

theorem udp_tcp_roundtrip_witness:
  "\<exists>ms bufs' r'. hev_socks5_udp_recvmmsg_tcp
      (demo_udp\<lparr>rxq := [RxData [0, 2], RxData ([10, 1, 10, 0, 0, 1, 0, 53, 9, 8] @ [0, 1, 8, 3, 1, 97, 0, 80, 6])]\<rparr>)
      False [replicate 300 0, replicate 300 0] 300 = (2, ms, bufs', r') \<and>
    map msg_addr ms = [[1, 10, 0, 0, 1, 0, 53], [3, 1, 97, 0, 80]] \<and> map msg_data ms = [[9, 8], [6]]"
proof -
  obtain k s' where s': "hev_socks5_udp_sendmmsg_tcp demo_udp demo_msgs = (k, s')" by (metis prod.exhaust)
  have "sent (snd (hev_socks5_udp_sendmmsg_tcp demo_udp demo_msgs)) =
      [0, 2, 10, 1, 10, 0, 0, 1, 0, 53, 9, 8, 0, 1, 8, 3, 1, 97, 0, 80, 6]" by code_simp
  with s' have "sent s' = [0, 2, 10, 1, 10, 0, 0, 1, 0, 53, 9, 8, 0, 1, 8, 3, 1, 97, 0, 80, 6]" by simp
  with udp_tcp_roundtrip [OF _ _ _ _ _ s', of 300 "demo_udp\<lparr>rxq := [RxData [0, 2],
      RxData ([10, 1, 10, 0, 0, 1, 0, 53, 9, 8] @ [0, 1, 8, 3, 1, 97, 0, 80, 6])]\<rparr>" "[replicate 300 0, replicate 300 0]"]
  show ?thesis
    by (fastforce simp: demo_udp_def demo_msgs_def msg_ok_def hev_socks5_addr_len_def a_atype_def a_domain_len_def
        addr_wire_def list_all2_Cons1)
qed

text \<open>C26 Whatever the peer sends, receiving UDP over the control connection stays inside the buffers:
  every block keeps its length and its bytes past the usable part, and each stored message lies
  within the usable part of its block.\<close>

theorem udp_tcp_in_bounds:
  assumes "252 \<le> len" "len < 2 ^ 64" "list_all (\<lambda>b. len \<le> length b) bufs"
    and "hev_socks5_udp_recvmmsg_tcp self nb bufs len = (res, ms, bufs', self')"
  shows "list_all2 (within len) bufs bufs' \<and> list_all (msg_within len) ms"
  using udp_recv_tcp_loop_within [OF assms(1,2) _ assms(3)] assms(4)
  by (simp add: hev_socks5_udp_recvmmsg_tcp_def)

theorem udp_tcp_in_bounds_witness:
  "list_all2 (within 252) [replicate 260 0]
     (fst (snd (snd (hev_socks5_udp_recvmmsg_tcp
       (demo_udp\<lparr>rxq := [RxData ([0, 1, 8, 3, 1, 97, 0, 80, 6])]\<rparr>) True [replicate 260 0] 252))))"
proof -
  obtain res ms bufs' self' where r: "hev_socks5_udp_recvmmsg_tcp
      (demo_udp\<lparr>rxq := [RxData ([0, 1, 8, 3, 1, 97, 0, 80, 6])]\<rparr>) True [replicate 260 0] 252 = (res, ms, bufs', self')"
    by (metis prod_cases4)
  from udp_tcp_in_bounds [OF _ _ _ r] show ?thesis by (simp add: r)
qed

text \<open>C39 A connection that ends inside a frame makes the receiver return the number of bytes of the
  frame it got, where its callers expect a number of messages: it has stored none. The forwarder
  then reads message slots that were never written.\<close>

theorem udp_tcp_cut_frame:
  assumes "s_type self = HEV_SOCKS5_TYPE_UDP_IN_TCP" "rxq self = [RxData (be16 (of_nat n) @ [of_nat (3 + k), t, u]), RxData bs]"
    and "2 \<le> k" "k \<le> 252" "n < 65536" "k + n \<le> UDP_BUF_SIZE" "bs \<noteq> []" "length bs < k - 2 + n"
    and "r_self X = self" "r_fbufs X = buf # bufs"
  shows "(\<exists>bufs' self'. hev_socks5_udp_recvmmsg_tcp self nb (buf # bufs) UDP_BUF_SIZE = (int (length bs), [], bufs', self')) \<and>
    hev_socks5_udp_fwd_f R bnd undef X = None"
proof -
  let ?h = "be16 (of_nat n) @ [of_nat (3 + k), t, u]"
  let ?s = "self\<lparr>rxq := [RxData bs]\<rparr>"
  have h: "udp_read_head self c = (5, ?h, ?s)" for c
    using assms(2) by (simp add: udp_read_head_def hev_task_io_socket_recv_def be16_def)
  have b: "hev_task_io_socket_recv udp_task_io_yielder True False (k - 2 + n) ?s = (int (length bs), bs, ?s\<lparr>rxq := []\<rparr>)"
    using assms(7,8) by (simp add: hev_task_io_socket_recv_def)
  note hd = udp_head_fields(1) [OF assms(4)] and dl = udp_head_fields(2) [OF assms(5)]
  have fits: "\<not> n > sz_sub UDP_BUF_SIZE k" using assms(6) by (simp add: UDP_BUF_SIZE_def sz_sub_small)
  have l: "\<exists>b'. hev_socks5_udp_recvmmsg_tcp self c (buf # bufs) UDP_BUF_SIZE =
      (int (length bs), [], b' # bufs, ?s\<lparr>rxq := []\<rparr>)" for c
  proof -
    have "\<exists>b'. udp_recv_tcp_one self c buf UDP_BUF_SIZE = (Return (int (length bs)), b', ?s\<lparr>rxq := []\<rparr>)"
      unfolding udp_recv_tcp_one_def Let_def h prod.case recvmsg_eq_recv hd dl
      using fits b assms(3,8) by (simp add: of_nat_diff)
    then show ?thesis by (auto simp: hev_socks5_udp_recvmmsg_tcp_def)
  qed
  from l [of True] assms(1,7,9,10) have "hev_socks5_udp_fwd_f R bnd undef X = None"
    by (auto simp: hev_socks5_udp_fwd_f_def hev_socks5_udp_recvmmsg_def Let_def)
  with l [of nb] show ?thesis by blast
qed

definition demo_sock :: udp_sock where
  "demo_sock = \<lparr>d_rx = [], d_tx = [], d_conn = 0, d_sent = []\<rparr>"

definition demo_relay :: "HevSocks5 udp_relay" where
  "demo_relay = \<lparr>r_self = demo_udp\<lparr>rxq := [RxData [0, 9, 10, 1, 10], RxData [0, 0, 1, 0, 53]]\<rparr>,
     r_sock = demo_sock, r_peer = demo_sock, r_fbufs = [replicate 1500 0], r_bbufs = [replicate 1500 0], r_bind = False\<rparr>"

theorem udp_tcp_cut_frame_witness:
  "hev_socks5_udp_fwd_f demo_resolver (\<lambda>a. 0) demo_sa demo_relay = None"
  using udp_tcp_cut_frame [of "r_self demo_relay" 9 7 1 10 "[0, 0, 1, 0, 53]" demo_relay "replicate 1500 0" "[]" True
      demo_resolver "\<lambda>a. 0" demo_sa]
  by (simp add: demo_relay_def demo_udp_def UDP_BUF_SIZE_def be16_def hi8_def lo8_def)

text \<open>C28 The relay of a UDP association ends with its control connection: once the control connection
  is closed or fails, the relay loop is left at the latest when the task is resumed next, whatever
  the datagram sockets do and without touching a message that was not received.\<close>

theorem udp_splicer_ends:
  assumes "s_type self = HEV_SOCKS5_TYPE_UDP_IN_UDP" "\<exists>w\<in>set ws. w_ctl w = CtlEof \<or> w_ctl w = CtlErr"
  shows "\<exists>X. hev_socks5_udp_splicer R bnd undef undef2 ws (Some (fb, bb)) self A B = Some (0, Some (Inl X))"
  using udp_splicer_loop_ends [of "\<lparr>r_self = self, r_sock = A, r_peer = B, r_fbufs = fb, r_bbufs = bb, r_bind = False\<rparr>" ws
      R bnd undef undef2 1 1] assms
  by (auto simp: hev_socks5_udp_splicer_def)

theorem udp_splicer_ends_witness:
  "\<exists>X. hev_socks5_udp_splicer demo_resolver (\<lambda>a. 0) demo_sa [] [\<lparr>w_left = 9, w_term = False, w_ctl = CtlAgain\<rparr>,
      \<lparr>w_left = 9, w_term = False, w_ctl = CtlEof\<rparr>] (Some ([replicate 1500 0], [replicate 1500 0]))
      (demo_udp\<lparr>s_type := HEV_SOCKS5_TYPE_UDP_IN_UDP\<rparr>)
      (demo_sock\<lparr>d_rx := replicate 5 (DxAgain \<lparr>w_left = 9, w_term = False, w_ctl = CtlAgain\<rparr>)\<rparr>)
      (demo_sock\<lparr>d_rx := replicate 5 (DxAgain \<lparr>w_left = 9, w_term = False, w_ctl = CtlAgain\<rparr>)\<rparr>) = Some (0, Some (Inl X))"
  by (rule udp_splicer_ends) simp_all

text \<open>The one-byte header length of a frame wraps for long host names: a message to a name of 249 to
  253 bytes is reported as sent, but its header length is below 5 and every receiver refuses it.\<close>

theorem udp_tcp_long_name_refused:
  assumes "tx_live (txq s)" "sent s = []" "m_addr m = Some a" "a_atype a = HEV_SOCKS5_ADDR_TYPE_NAME"
    and "249 \<le> unat (a_domain_len a)" "unat (a_domain_len a) \<le> 253" "260 \<le> length a"
    and "hev_socks5_udp_sendmmsg_tcp s [m] = (k, s')" "rx_live (rxq r)" "rx_data (rxq r) = sent s'"
  shows "k = 1 \<and> (\<exists>bufs' r'. hev_socks5_udp_recvmmsg_tcp r False (buf # bufs) len = (-1, [], bufs', r'))"
proof -
  let ?n = "unat (a_domain_len a)"
  have al: "hev_socks5_addr_len a = int (4 + ?n)" using assms(4) by (simp add: hev_socks5_addr_len_def)
  obtain a0 a1 as where a: "take (4 + ?n) a = a0 # a1 # as" using assms(7) two_more [of "take (4 + ?n) a"] by auto
  let ?h = "be16 (of_nat (m_len m)) @ [of_nat (3 + (4 + ?n)), a0, a1]"
  have i: "of_int (3 + int (4 + ?n)) = (of_nat (3 + (4 + ?n)) :: u8)" by simp
  obtain v where v: "udp_tcp_vec m = Some v" "concat v = ?h @ as @ msg_data m"
    using assms(3) a i by (simp add: udp_tcp_vec_def le16_htons Let_def al nat_4_plus eval_nat_numeral)
  have ne: "concat v \<noteq> []" by (simp add: v(2) be16_def)
  from send_live [of udp_task_io_yielder s, OF yielder_live(2) assms(1) ne] obtain q e where
    "hev_task_io_socket_send udp_task_io_yielder True False (concat v) s =
      (int (length (concat v)), s\<lparr>sent := sent s @ concat v, txq := q, eagain := e\<rparr>)" by blast
  with v(1) ne assms(2,8) have k: "k = 1" "sent s' = concat v"
    by (auto simp: hev_socks5_udp_sendmmsg_tcp_def sendmsg_eq_send split: if_splits)
  have "rx_data (rxq r) = ?h @ as @ msg_data m" using assms(10) k(2) v(2) by simp
  from udp_read_head_live [OF assms(9) this] obtain q2 e2 where
    h: "udp_read_head r False = (5, ?h, r\<lparr>rxq := q2, eagain := e2\<rparr>)" by auto
  have "unat (?h ! 2) = (7 + ?n) mod 256"
    by (simp add: be16_def unat_of_nat numeral_2_eq_2 del: of_nat_add of_nat_Suc)
  also have "\<dots> = ?n - 249" using assms(5,6) by (simp add: mod_if)
  finally have "unat (?h ! 2) < 5" using assms(6) by simp
  with h have "udp_recv_tcp_one r False buf len = (Return (-1), buf, r\<lparr>rxq := q2, eagain := e2\<rparr>)"
    by (simp add: udp_recv_tcp_one_def)
  with k(1) show ?thesis by (simp add: hev_socks5_udp_recvmmsg_tcp_def)
qed

definition demo_long :: HevSocks5UDPMsg where
  "demo_long = \<lparr>m_addr = Some ([3, 250] @ replicate 258 97), m_buf = [7], m_len = 1\<rparr>"

theorem udp_tcp_long_name_refused_witness:
  "fst (hev_socks5_udp_sendmmsg_tcp (demo_udp\<lparr>txq := []\<rparr>) [demo_long]) = 1 \<and>
   fst (hev_socks5_udp_recvmmsg_tcp (demo_udp\<lparr>rxq := [RxData (sent (snd (hev_socks5_udp_sendmmsg_tcp
     (demo_udp\<lparr>txq := []\<rparr>) [demo_long])))]\<rparr>) False [replicate 1500 0] 1500) = -1"
proof -
  obtain k s' where s: "hev_socks5_udp_sendmmsg_tcp (demo_udp\<lparr>txq := []\<rparr>) [demo_long] = (k, s')" by (metis prod.exhaust)
  have ne: "sent s' \<noteq> []"
    using s by (auto simp: hev_socks5_udp_sendmmsg_tcp_def udp_tcp_vec_def demo_long_def demo_udp_def
      hev_socks5_addr_len_def a_atype_def a_domain_len_def sendmsg_eq_send hev_task_io_socket_send_def Let_def)
  from udp_tcp_long_name_refused [OF _ _ _ _ _ _ _ s, of "[3, 250] @ replicate 258 97"
      "demo_udp\<lparr>rxq := [RxData (sent s')]\<rparr>" "replicate 1500 0" "[]" 1500] ne
  show ?thesis unfolding s by (auto simp: demo_udp_def demo_long_def a_atype_def a_domain_len_def)
qed

text \<open>C27 UDP through a datagram socket loses nothing either: a datagram built by the sender for an
  address and a payload, received whole into a large enough buffer, is parsed back to that address
  and that payload.\<close>

theorem udp_udp_roundtrip:
  assumes "msg_ok m" "d_tx D = []" "d_sent D = []"
    and "hev_socks5_udp_sendmmsg_udp s D [m] = (k, s', D')"
    and "3 + length (msg_addr m) + m_len m \<le> len" "len \<le> length buf"
    and "d_rx E = [DxMsgs (map (\<lambda>(_, bs). (src, bs)) (d_sent D'))]" "d_conn E = 0"
  shows "k = 1 \<and> (\<exists>m' bufs' r' E'. hev_socks5_udp_recvmmsg_udp r E nb [buf] len = (1, [m'], bufs', r', E') \<and>
    msg_addr m' = msg_addr m \<and> msg_data m' = msg_data m)"
proof -
  from assms(1) obtain a where a: "m_addr m = Some a" "0 < hev_socks5_addr_len a"
    "nat (hev_socks5_addr_len a) \<le> length a" "m_len m \<le> length (m_buf m)"
    by (auto simp: msg_ok_def split: option.splits)
  note v = msg_ok_vec [OF assms(1)]
  let ?d = "[0, 0, 0] @ msg_addr m @ msg_data m"
  have s: "k = 1" "d_sent D' = [(None, ?d)]"
    using assms(2-4) a by (auto simp: hev_socks5_udp_sendmmsg_udp_def udp_udp_vec_def Let_def
      hev_task_io_socket_sendmmsg_def addr_wire_def)
  have l: "length ?d \<le> len" using assms(5) v(4) by simp
  let ?b = "store_dgram len buf ?d"
  have b: "?b = ?d @ drop (length ?d) buf" using l by (simp add: store_dgram_def mem_write_def)
  have w: "addr_wire (msg_addr m @ xs) = msg_addr m \<and> hev_socks5_addr_len (msg_addr m @ xs) = hev_socks5_addr_len a" for xs
  proof -
    have "(msg_addr m @ xs) ! 0 = a ! 0" "(msg_addr m @ xs) ! 1 = a ! 1"
      using v(2,5) a(1) by (auto simp: nth_append addr_wire_def)
    then have "hev_socks5_addr_len (msg_addr m @ xs) = hev_socks5_addr_len a"
      by (simp add: hev_socks5_addr_len_def a_atype_def a_domain_len_def)
    with v(5) a(1) show ?thesis by (simp add: addr_wire_def)
  qed
  let ?m = "\<lparr>m_addr = Some (drop 3 ?b), m_buf = drop (3 + length (msg_addr m)) ?b, m_len = m_len m\<rparr>"
  have d3: "drop 3 ?b = msg_addr m @ msg_data m @ drop (length ?d) buf" unfolding b by simp
  have "udp_parse_loop [(?b, length ?d)] 1 = (1, [?m])"
    using a(1,2) v(2,4,5) w unfolding udp_parse_loop.simps d3 by (simp add: Let_def)
  moreover have "msg_addr ?m = msg_addr m \<and> msg_data ?m = msg_data m"
    using w v(4) unfolding d3 b by (simp add: numeral_3_eq_3)
  ultimately show ?thesis using s assms(7,8) l
    by (simp add: hev_socks5_udp_recvmmsg_udp_def hev_task_io_socket_recvmmsg_def)
qed

theorem udp_udp_roundtrip_witness:
  "\<exists>m' bufs' r' E'. hev_socks5_udp_recvmmsg_udp demo_udp (demo_sock\<lparr>d_rx := [DxMsgs [(demo_sa,
      [0, 0, 0, 1, 10, 0, 0, 1, 0, 53, 9, 8])]]\<rparr>) True [replicate 1500 0] 1500 = (1, [m'], bufs', r', E') \<and>
     msg_addr m' = [1, 10, 0, 0, 1, 0, 53] \<and> msg_data m' = [9, 8]"
proof -
  obtain k s' D' where s: "hev_socks5_udp_sendmmsg_udp demo_udp demo_sock [hd demo_msgs] = (k, s', D')"
    by (metis prod_cases3)
  then have "d_sent D' = [(None, [0, 0, 0, 1, 10, 0, 0, 1, 0, 53, 9, 8])]"
    by (auto simp: hev_socks5_udp_sendmmsg_udp_def udp_udp_vec_def demo_msgs_def demo_sock_def Let_def
      hev_task_io_socket_sendmmsg_def hev_socks5_addr_len_def a_atype_def)
  with udp_udp_roundtrip [OF _ _ _ s, of 1500 "replicate 1500 0" "demo_sock\<lparr>d_rx := [DxMsgs [(demo_sa,
      [0, 0, 0, 1, 10, 0, 0, 1, 0, 53, 9, 8])]]\<rparr>" demo_sa demo_udp True]
  show ?thesis
    by (simp add: demo_sock_def demo_msgs_def msg_ok_def hev_socks5_addr_len_def a_atype_def addr_wire_def)
qed

end
