(* ===== verification/Session_UDP.thy ===== *)
theory Session_UDP
  imports Hev_List Socks5_UDP Lwip_Addr
begin

text \<open>
  A UDP session of the tunnel (\<^verbatim>\<open>hev-socks5-session-udp.c\<close>): datagrams of an application wait as
  frames in an intrusive list until the task of the session forwards them to the proxy in batches;
  replies are given back to lwIP. Besides the fields of the C structure the record holds the frames
  by address, the datagram socket of the client, what was handed to lwIP and which frames were
  freed. Frames that arrive while a batch is being sent are appended behind the batch, so they are
  modelled as arriving after it.
\<close>

record HevSocks5UDPFrame =
  fr_addr :: HevSocks5Addr
  fr_data :: "u8 list"

record HevSocks5SessionUDP =
  us_base :: HevSocks5ClientUDP
  us_frame_list :: lstate
  us_frame :: "ptr \<Rightarrow> HevSocks5UDPFrame"
  us_pcb :: bool
  us_frames :: int
  us_addr :: "u8 list"
  us_port :: u16
  us_sock :: udp_sock
  us_out :: "(ip_addr \<times> u16 \<times> u8 list) list"
  us_freed :: "ptr list"

definition UDP_POOL_SIZE :: int where
  "UDP_POOL_SIZE = 512"

subsection \<open>To the proxy\<close>

text \<open>The batch: \<open>None\<close> when the list ends before \<open>n\<close> frames.\<close>

fun udp_collect :: "HevSocks5SessionUDP \<Rightarrow> ptr \<Rightarrow> nat \<Rightarrow> HevSocks5UDPMsg list option" where
  "udp_collect self node 0 = Some []"
| "udp_collect self node (Suc n) =
     (if node = NULL then None
      else case udp_collect self (hev_list_node_next (us_frame_list self) node) n of
             None \<Rightarrow> None
           | Some ms \<Rightarrow>
               (let f = us_frame self node
                in Some (\<lparr>m_addr = Some (fr_addr f), m_buf = fr_data f, m_len = length (fr_data f)\<rparr> # ms)))"

text \<open>Removing the first \<open>n\<close> frames.\<close>

fun udp_release :: "HevSocks5SessionUDP \<Rightarrow> nat \<Rightarrow> HevSocks5SessionUDP option" where
  "udp_release self 0 = Some self"
| "udp_release self (Suc n) =
     (let node = hev_list_first (us_frame_list self)
      in if node = NULL then None
         else udp_release (self\<lparr>us_frame_list := hev_list_del (us_frame_list self) node,
                                us_freed := us_freed self @ [node], us_frames := us_frames self - 1\<rparr>) n)"

definition hev_socks5_session_udp_fwd_f :: "HevSocks5SessionUDP \<Rightarrow> nat \<Rightarrow> (int \<times> HevSocks5SessionUDP) option" where
  "hev_socks5_session_udp_fwd_f self num =
     (let res = us_frames self
      in if res \<le> 0 then Some (0, self)
         else let res = (if res > int num then int num else res)
              in case udp_collect self (hev_list_first (us_frame_list self)) (nat res) of
                   None \<Rightarrow> None
                 | Some msgv \<Rightarrow>
                     (let (res, base, D) = hev_socks5_udp_sendmmsg (us_base self) (us_sock self) msgv;
                          self = self\<lparr>us_base := base, us_sock := D\<rparr>
                      in if res \<le> 0 then Some (-1, self)
                         else case udp_release self (nat res) of
                                None \<Rightarrow> None
                              | Some self \<Rightarrow> Some (1, self)))"

subsection \<open>To the application\<close>

text \<open>
  The loop over the received messages. \<open>undef\<close> is the uninitialised stack variable \<^verbatim>\<open>saddr\<close>, whose
  type tag stays as it is when the session answers for a mapped name; the scripts are the results of
  \<^verbatim>\<open>pbuf_alloc_reference\<close> and \<^verbatim>\<open>udp_sendfrom\<close>, which succeed past their end. \<open>None\<close> is the use of a null
  address or of a message that was not stored.
\<close>

fun udp_deliver ::
  "ip_addr \<Rightarrow> bool list \<Rightarrow> HevSocks5SessionUDP \<Rightarrow> HevSocks5UDPMsg list \<Rightarrow> (int \<times> HevSocks5SessionUDP) option" where
  "udp_deliver undef script self [] = Some (1, self)"
| "udp_deliver undef script self (m # ms) =
     (let dst = (if us_addr self \<noteq> [0, 0, 0, 0] \<and> us_port self \<noteq> 0
                 then Some (0, undef\<lparr>ip_bytes := mem_write (ip_bytes undef) 0 (us_addr self)\<rparr>, us_port self)
                 else case m_addr m of None \<Rightarrow> None | Some a \<Rightarrow> Some (hev_socks5_addr_into_lwip a undef 0))
      in case dst of
           None \<Rightarrow> None
         | Some (ret, saddr, port) \<Rightarrow>
             if ret < 0 then Some (-1, self)
             else if script \<noteq> [] \<and> \<not> hd script then Some (-1, self)
             else if tl script \<noteq> [] \<and> \<not> hd (tl script) then Some (-1, self)
             else udp_deliver undef (tl (tl script))
                    (self\<lparr>us_out := us_out self @ [(saddr, port, take (m_len m) (m_buf m))]\<rparr>) ms)"

definition hev_socks5_session_udp_fwd_b ::
  "ip_addr \<Rightarrow> bool list \<Rightarrow> u8 list list \<Rightarrow> HevSocks5SessionUDP \<Rightarrow> (int \<times> HevSocks5SessionUDP) option" where
  "hev_socks5_session_udp_fwd_b undef script bufs self =
     (let (res, msgv, bufs, base, D) =
            hev_socks5_udp_recvmmsg (us_base self) (us_sock self) True bufs UDP_BUF_SIZE;
          self = self\<lparr>us_base := base, us_sock := D\<rparr>
      in if res \<le> 0 then Some (if res = -1 \<and> eagain base then 0 else -1, self)
         else if length msgv < nat res then None
         else udp_deliver undef script self (take (nat res) msgv))"

subsection \<open>Callbacks and loop\<close>

definition session_udp_terminate :: "HevSocks5SessionUDP \<Rightarrow> HevSocks5SessionUDP" where
  "session_udp_terminate self = self\<lparr>us_base := hev_socks5_set_timeout (us_base self) 0\<rparr>"

text \<open>
  \<^verbatim>\<open>udp_recv_handler\<close> of the session: \<open>p\<close> the first pbuf of the datagram, \<open>new\<close> the result of
  \<^verbatim>\<open>hev_malloc\<close> with its contents \<open>mem\<close>. The lookup in the mapped DNS may change it.
\<close>

definition session_udp_recv_handler ::
  "HevMappedDNS option \<Rightarrow> ptr \<Rightarrow> HevSocks5Addr \<Rightarrow> ip_addr \<Rightarrow> u16 \<Rightarrow> u8 list option \<Rightarrow> HevSocks5SessionUDP \<Rightarrow>
   (HevSocks5SessionUDP \<times> HevMappedDNS option) option" where
  "session_udp_recv_handler dns new mem local_ip local_port p self =
     (case p of
        None \<Rightarrow> Some (session_udp_terminate self, dns)
      | Some data \<Rightarrow>
          if us_frames self > UDP_POOL_SIZE then Some (self, dns)
          else if new = NULL then Some (self, dns)
          else case hev_socks5_addr_from_lwip dns mem local_ip local_port of
                 None \<Rightarrow> None
               | Some (_, addr, dns) \<Rightarrow>
                   (let self = self\<lparr>us_frame := (us_frame self)(new := \<lparr>fr_addr = addr, fr_data = data\<rparr>)\<rparr>;
                        self = (if a_atype addr = HEV_SOCKS5_ADDR_TYPE_NAME
                                then self\<lparr>us_addr := take 4 (ip_bytes local_ip), us_port := local_port\<rparr> else self);
                        self = self\<lparr>us_frames := us_frames self + 1\<rparr>
                    in Some (self\<lparr>us_frame_list := hev_list_add_tail (us_frame_list self) new\<rparr>, dns)))"

text \<open>The yielder first polls the control connection, like the one of the SOCKS5 core.\<close>

definition session_udp_yielder :: "HevTaskYieldType \<Rightarrow> wait \<Rightarrow> HevSocks5SessionUDP \<Rightarrow> int \<times> HevSocks5SessionUDP" where
  "session_udp_yielder type w self =
     (if s_type (us_base self) = HEV_SOCKS5_TYPE_UDP_IN_UDP \<and> (w_ctl w = CtlEof \<or> w_ctl w = CtlErr)
      then (-1, self\<lparr>us_base := hev_socks5_set_timeout (us_base self) 0\<rparr>)
      else let (r, base) = hev_socks5_task_io_yielder type w (us_base self)
           in (r, self\<lparr>us_base := base\<rparr>))"

text \<open>
  The loop over the suspensions of the task: how it is resumed, the datagrams that arrive meanwhile
  (the arguments of the callback) and the answers of lwIP to the next deliveries. \<open>Inr\<close>: the list is used up and the
  task still suspended.
\<close>

type_synonym udp_arrival = "HevMappedDNS option \<times> ptr \<times> HevSocks5Addr \<times> ip_addr \<times> u16 \<times> u8 list option"

fun udp_arrivals :: "udp_arrival list \<Rightarrow> HevSocks5SessionUDP \<Rightarrow> HevSocks5SessionUDP option" where
  "udp_arrivals [] self = Some self"
| "udp_arrivals ((dns, new, mem, ip, port, p) # as) self =
     (case session_udp_recv_handler dns new mem ip port p self of
        None \<Rightarrow> None
      | Some (self, dns) \<Rightarrow> udp_arrivals as self)"

fun session_udp_loop ::
  "nat \<Rightarrow> ip_addr \<Rightarrow> u8 list list \<Rightarrow> bool list \<Rightarrow> (wait \<times> udp_arrival list \<times> bool list) list \<Rightarrow>
   int \<Rightarrow> int \<Rightarrow> HevSocks5SessionUDP \<Rightarrow> (HevSocks5SessionUDP + HevSocks5SessionUDP) option" where
  "session_udp_loop num undef bufs script ts res_f res_b self =
     (case (if res_f \<ge> 0 then hev_socks5_session_udp_fwd_f self num else Some (res_f, self)) of
        None \<Rightarrow> None
      | Some (res_f, self) \<Rightarrow>
          (case (if res_b \<ge> 0 then hev_socks5_session_udp_fwd_b undef script bufs self else Some (res_b, self)) of
             None \<Rightarrow> None
           | Some (res_b, self) \<Rightarrow>
               if \<not> (res_f > 0 \<or> res_b > 0) \<and> res_f AND res_b \<noteq> 0 then Some (Inl self)
               else let type = (if res_f > 0 \<or> res_b > 0 then HEV_TASK_YIELD else HEV_TASK_WAITIO)
                    in case ts of
                         [] \<Rightarrow> Some (Inr self)
                       | (w, as, script) # ts \<Rightarrow>
                           (let (r, self) = session_udp_yielder type w self
                            in case udp_arrivals as self of
                                 None \<Rightarrow> None
                               | Some self \<Rightarrow>
                                   if r \<noteq> 0 then Some (Inl self)
                                   else session_udp_loop num undef bufs script ts res_f res_b self)))"

declare session_udp_loop.simps [simp del]

text \<open>\<^verbatim>\<open>hev_socks5_session_udp_splice\<close> with \<^verbatim>\<open>hev_config_get_misc_udp_copy_buffer_nums\<close> buffers.\<close>

definition hev_socks5_session_udp_splice ::
  "nat \<Rightarrow> ip_addr \<Rightarrow> u8 list list \<Rightarrow> bool list \<Rightarrow> (wait \<times> udp_arrival list \<times> bool list) list \<Rightarrow>
   HevSocks5SessionUDP \<Rightarrow> (HevSocks5SessionUDP + HevSocks5SessionUDP) option" where
  "hev_socks5_session_udp_splice num undef bufs script ts self = session_udp_loop num undef bufs script ts 1 1 self"

subsection \<open>Creation and destruction\<close>

definition hev_socks5_session_udp_bind :: "(int \<Rightarrow> nat \<Rightarrow> int) \<Rightarrow> nat \<Rightarrow> HevSocks5ClientUDP \<Rightarrow> int \<Rightarrow> int" where
  "hev_socks5_session_udp_bind set_sock_mark srv_mark self sock =
     (if srv_mark \<noteq> 0 then (if set_sock_mark sock srv_mark < 0 then -1 else 0) else 0)"

text \<open>\<open>udp_addr\<close>: the configured address that replaces the host of the relay address.\<close>

definition hev_socks5_session_udp_set_upstream_addr ::
  "resolver \<Rightarrow> net_env \<Rightarrow> (HevSocks5ClientUDP \<Rightarrow> int \<Rightarrow> sockaddr_in6 \<Rightarrow> int) \<Rightarrow> bool \<Rightarrow> u8 list \<Rightarrow>
   HevSocks5ClientUDP \<Rightarrow> HevSocks5Addr \<Rightarrow> int \<times> HevSocks5ClientUDP" where
  "hev_socks5_session_udp_set_upstream_addr R E bnd udp_in_udp udp_addr base addr =
     (let addr = (if udp_in_udp \<and> udp_addr \<noteq> []
                  then snd (hev_socks5_addr_from_name addr udp_addr (hev_socks5_addr_get_port addr)) else addr)
      in hev_socks5_client_udp_set_upstream_addr R E bnd base addr)"

definition session_udp0 :: "lheap \<Rightarrow> (ptr \<Rightarrow> HevSocks5UDPFrame) \<Rightarrow> udp_sock \<Rightarrow> HevSocks5SessionUDP" where
  "session_udp0 lh fh D =
     \<lparr>us_base = client_udp0, us_frame_list = empty_list lh, us_frame = fh, us_pcb = False, us_frames = 0,
      us_addr = [0, 0, 0, 0], us_port = 0, us_sock = D, us_out = [], us_freed = []\<rparr>"

definition hev_socks5_session_udp_construct :: "bool \<Rightarrow> HevSocks5SessionUDP \<Rightarrow> int \<times> HevSocks5SessionUDP" where
  "hev_socks5_session_udp_construct udp_in_udp self =
     (let type = (if udp_in_udp then HEV_SOCKS5_TYPE_UDP_IN_UDP else HEV_SOCKS5_TYPE_UDP_IN_TCP);
          (res, base) = hev_socks5_client_udp_construct (us_base self) type;
          self = self\<lparr>us_base := base\<rparr>
      in if res < 0 then (-1, self) else (0, self\<lparr>us_pcb := True\<rparr>))"

definition hev_socks5_session_udp_new ::
  "bool \<Rightarrow> bool \<Rightarrow> lheap \<Rightarrow> (ptr \<Rightarrow> HevSocks5UDPFrame) \<Rightarrow> udp_sock \<Rightarrow> HevSocks5SessionUDP option" where
  "hev_socks5_session_udp_new malloc_ok udp_in_udp lh fh D =
     (if \<not> malloc_ok then None
      else let (res, self) = hev_socks5_session_udp_construct udp_in_udp (session_udp0 lh fh D)
           in if res < 0 then None else Some self)"

text \<open>The frames the destructor frees, and whether it removes the connection from lwIP.\<close>

definition hev_socks5_session_udp_destruct :: "nat \<Rightarrow> HevSocks5SessionUDP \<Rightarrow> bool \<times> HevSocks5SessionUDP" where
  "hev_socks5_session_udp_destruct fuel self =
     (us_pcb self,
      self\<lparr>us_freed := us_freed self @ hev_list_walk fuel (us_frame_list self) (hev_list_first (us_frame_list self)),
           us_base := hev_socks5_client_udp_destruct (us_base self)\<rparr>)"

subsection \<open>The frame queue\<close>

definition udp_inv :: "HevSocks5SessionUDP \<Rightarrow> ptr list \<Rightarrow> bool" where
  "udp_inv self ps \<longleftrightarrow>
     list_rep (us_frame_list self) ps \<and> us_frames self = int (length ps) \<and> int (length ps) \<le> UDP_POOL_SIZE + 1"

definition frame_msg :: "HevSocks5UDPFrame \<Rightarrow> HevSocks5UDPMsg" where
  "frame_msg f = \<lparr>m_addr = Some (fr_addr f), m_buf = fr_data f, m_len = length (fr_data f)\<rparr>"

lemma collect_lseg:
  "lseg (snd (us_frame_list self)) pr ps NULL \<Longrightarrow> n \<le> length ps \<Longrightarrow>
   udp_collect self (first_or ps NULL) n = Some (map (\<lambda>p. frame_msg (us_frame self p)) (take n ps))"
proof (induction ps arbitrary: pr n)
  case (Cons p ps)
  then show ?case by (cases n) (auto simp: hev_list_node_next_def frame_msg_def Let_def)
qed simp

lemma collect_rep:
  assumes "list_rep (us_frame_list self) ps" "n \<le> length ps"
  shows "udp_collect self (hev_list_first (us_frame_list self)) n = Some (map (\<lambda>p. frame_msg (us_frame self p)) (take n ps))"
  using collect_lseg [of self NULL ps n] assms first_rep [OF assms(1)] by (simp add: list_rep_def)

lemma release_rep:
  assumes "list_rep (us_frame_list self) ps" "n \<le> length ps"
  shows "\<exists>l. udp_release self n = Some (self\<lparr>us_frame_list := l, us_freed := us_freed self @ take n ps,
      us_frames := us_frames self - int n\<rparr>) \<and> list_rep l (drop n ps)"
  using assms
proof (induction n arbitrary: self ps)
  case 0
  then show ?case by (intro exI [of _ "us_frame_list self"]) simp
next
  case (Suc n)
  then obtain p ps' where ps: "ps = p # ps'" by (cases ps) auto
  have p: "hev_list_first (us_frame_list self) = p" "p \<noteq> NULL"
    using hl.rep_first [OF Suc.prems(1)] hl.rep_nonnull [OF Suc.prems(1)] ps by simp_all
  let ?l = "hev_list_del (us_frame_list self) p"
  let ?s = "self\<lparr>us_frame_list := ?l, us_freed := us_freed self @ [p], us_frames := us_frames self - 1\<rparr>"
  have "list_rep ?l ps'" using hl.rep_del [OF Suc.prems(1), of p] ps by simp
  then have "list_rep (us_frame_list ?s) ps'" "n \<le> length ps'" using Suc.prems(2) ps by simp_all
  from Suc.IH [OF this] obtain l where
    "udp_release ?s n = Some (?s\<lparr>us_frame_list := l, us_freed := us_freed ?s @ take n ps',
      us_frames := us_frames ?s - int n\<rparr>)" "list_rep l (drop n ps')" by blast
  then show ?case using p by (intro exI [of _ l]) (simp add: ps algebra_simps)
qed

lemma sendmmsg_loop_count:
  "sendmmsg_loop y wa dw ms c q self = (r, out, q', self') \<Longrightarrow> r \<le> int (c + length ms)"
proof (induction q arbitrary: c self r out ms q' self')
  case (Cons a q)
  show ?case
  proof (cases a)
    case (TxAgain w)
    obtain k s1 where "y HEV_TASK_WAITIO w (self\<lparr>eagain := True\<rparr>) = (k, s1)" by fastforce
    with TxAgain Cons show ?thesis by (auto simp: Let_def split: if_splits)
  next
    case (TxOk k)
    let ?r = "min k (length ms)"
    obtain k2 rest q2 s2 where l: "sendmmsg_loop y wa dw (drop ?r ms) (c + ?r) q self = (k2, rest, q2, s2)"
      by (metis prod_cases4)
    from Cons.IH [OF l] TxOk Cons.prems l show ?thesis by (auto simp: Let_def split: if_splits)
  qed (use Cons in auto)
qed (auto split: if_splits)

lemma those_length: "those xs = Some ys \<Longrightarrow> length ys = length xs"
  by (induction xs arbitrary: ys) (auto split: option.splits)

lemma udp_sendmmsg_count:
  assumes "hev_socks5_udp_sendmmsg base D msgv = (r, base', D')"
  shows "r \<le> int (length msgv)"
proof (cases "s_type base")
  case HEV_SOCKS5_TYPE_UDP_IN_TCP
  with assms show ?thesis
    by (auto simp: hev_socks5_udp_sendmmsg_def hev_socks5_udp_sendmmsg_tcp_def split: option.splits prod.splits if_splits)
next
  case HEV_SOCKS5_TYPE_UDP_IN_UDP
  show ?thesis
  proof (cases "those (map udp_udp_vec msgv)")
    case None
    with assms HEV_SOCKS5_TYPE_UDP_IN_UDP show ?thesis
      by (simp add: hev_socks5_udp_sendmmsg_def hev_socks5_udp_sendmmsg_udp_def)
  next
    case (Some vecs)
    have "length vecs = length msgv" using those_length [OF Some] by simp
    obtain k out q s where l: "sendmmsg_loop udp_task_io_yielder True False (map (\<lambda>v. (None :: sockaddr_in6 option, concat v)) vecs) 0 (d_tx D) base = (k, out, q, s)"
      by (metis prod_cases4)
    have "r = k" using assms HEV_SOCKS5_TYPE_UDP_IN_UDP Some l
      by (simp add: hev_socks5_udp_sendmmsg_def hev_socks5_udp_sendmmsg_udp_def hev_task_io_socket_sendmmsg_def)
    with sendmmsg_loop_count [OF l] \<open>length vecs = length msgv\<close> show ?thesis by simp
  qed
qed (use assms in \<open>auto simp: hev_socks5_udp_sendmmsg_def\<close>)

text \<open>What the forwarding does to the queue: \<open>res\<close> is the result of sending the batch.\<close>

lemma fwd_f_queue:
  assumes "udp_inv self ps" "ps \<noteq> []"
    and "hev_socks5_udp_sendmmsg (us_base self) (us_sock self) (map (\<lambda>p. frame_msg (us_frame self p)) (take num ps)) = (res, base, D)"
  shows "\<exists>self'. hev_socks5_session_udp_fwd_f self num = Some (if res \<le> 0 then -1 else 1, self') \<and>
    udp_inv self' (drop (nat res) ps) \<and> us_freed self' = us_freed self @ take (nat res) ps \<and>
    us_frame self' = us_frame self \<and> us_base self' = base \<and> us_sock self' = D \<and> nat res \<le> num"
proof -
  note i = assms(1) [unfolded udp_inv_def]
  define n where "n = min num (length ps)"
  have n: "nat (if us_frames self > int num then int num else us_frames self) = n" "n \<le> length ps" "take num ps = take n ps"
    using i by (auto simp: n_def min_def)
  have c: "udp_collect self (hev_list_first (us_frame_list self)) n = Some (map (\<lambda>p. frame_msg (us_frame self p)) (take num ps))"
    using collect_rep [of self ps n] i n(2,3) by simp
  have cnt: "nat res \<le> n" using udp_sendmmsg_count [OF assms(3)] by (auto simp: n_def)
  let ?s = "self\<lparr>us_base := base, us_sock := D\<rparr>"
  have fr: "\<not> us_frames self \<le> 0" using i assms(2) by (cases ps) auto
  show ?thesis
  proof (cases "res \<le> 0")
    case True
    then have "hev_socks5_session_udp_fwd_f self num = Some (-1, ?s)"
      using fr c assms(3) unfolding hev_socks5_session_udp_fwd_f_def Let_def n(1) by simp
    with True i show ?thesis by (simp add: udp_inv_def)
  next
    case False
    have "list_rep (us_frame_list ?s) ps" "nat res \<le> length ps" using i cnt n(2) by simp_all
    from release_rep [OF this] obtain l where
      r: "udp_release ?s (nat res) = Some (?s\<lparr>us_frame_list := l, us_freed := us_freed ?s @ take (nat res) ps,
        us_frames := us_frames ?s - int (nat res)\<rparr>)" "list_rep l (drop (nat res) ps)" by blast
    let ?t = "?s\<lparr>us_frame_list := l, us_freed := us_freed ?s @ take (nat res) ps, us_frames := us_frames ?s - int (nat res)\<rparr>"
    have "hev_socks5_session_udp_fwd_f self num = Some (1, ?t)"
      using fr c assms(3) False r(1) unfolding hev_socks5_session_udp_fwd_f_def Let_def n(1) by simp
    moreover have "udp_inv ?t (drop (nat res) ps)" using i r(2) cnt n(2) by (simp add: udp_inv_def of_nat_diff)
    moreover have "nat res \<le> num" using cnt by (simp add: n_def)
    ultimately show ?thesis using False by (intro exI [of _ ?t]) simp
  qed
qed

lemma deliver_frame:
  "udp_deliver undef script self ms = Some (r, self') \<Longrightarrow>
   us_frame_list self' = us_frame_list self \<and> us_frames self' = us_frames self \<and> us_frame self' = us_frame self"
  by (induction undef script self ms rule: udp_deliver.induct) (auto simp: Let_def split: if_splits option.splits)

lemma fwd_b_inv:
  assumes "udp_inv self ps" "hev_socks5_session_udp_fwd_b undef script bufs self = Some (r, self')"
  shows "udp_inv self' ps"
proof -
  obtain res msgv bufs' base D where e: "hev_socks5_udp_recvmmsg (us_base self) (us_sock self) True bufs UDP_BUF_SIZE = (res, msgv, bufs', base, D)"
    by (metis prod_cases5)
  let ?s = "self\<lparr>us_base := base, us_sock := D\<rparr>"
  have "self' = ?s \<or> udp_deliver undef script ?s (take (nat res) msgv) = Some (r, self')"
    using assms(2) unfolding hev_socks5_session_udp_fwd_b_def e by (auto simp: Let_def split: if_splits)
  then show ?thesis
  proof
    assume "udp_deliver undef script ?s (take (nat res) msgv) = Some (r, self')"
    from deliver_frame [OF this] assms(1) show ?thesis by (simp add: udp_inv_def)
  qed (use assms(1) in \<open>simp add: udp_inv_def\<close>)
qed

lemma recv_handler_inv:
  assumes "udp_inv self ps" "new = NULL \<or> new \<notin> set ps"
    and "session_udp_recv_handler dns new mem ip port p self = Some (self', dns')"
  shows "\<exists>ps'. udp_inv self' ps'"
proof (cases "\<exists>data. p = Some data \<and> us_frames self \<le> UDP_POOL_SIZE \<and> new \<noteq> NULL")
  case True
  then obtain data where d: "p = Some data" "us_frames self \<le> UDP_POOL_SIZE" "new \<noteq> NULL" by blast
  note i = assms(1) [unfolded udp_inv_def]
  have "list_rep (hev_list_add_tail (us_frame_list self) new) (ps @ [new])"
    using hl.rep_add_tail [of "us_frame_list self" ps new] i assms(2) d(3) by auto
  then have "udp_inv self' (ps @ [new])"
    using assms(3) d i by (auto simp: session_udp_recv_handler_def Let_def udp_inv_def split: option.splits)
  then show ?thesis by blast
next
  case False
  then have "self' = self \<or> self' = session_udp_terminate self"
    using assms(3) by (auto simp: session_udp_recv_handler_def split: option.splits if_splits)
  then show ?thesis using assms(1) by (auto simp: udp_inv_def session_udp_terminate_def)
qed

text \<open>
  The states a session goes through, in whatever order its task and lwIP act: it is created, a
  datagram arrives (the allocator returns no frame that is still queued), a batch is forwarded, replies are delivered, the task
  sleeps.
\<close>

inductive udp_reach :: "HevSocks5SessionUDP \<Rightarrow> bool" where
  udp_start: "hev_socks5_session_udp_new True uu lh fh D = Some self \<Longrightarrow> udp_reach self"
| udp_arrive: "udp_reach self \<Longrightarrow> list_rep (us_frame_list self) ps \<Longrightarrow> new = NULL \<or> new \<notin> set ps \<Longrightarrow>
    session_udp_recv_handler dns new mem ip port p self = Some (self', dns') \<Longrightarrow> udp_reach self'"
| udp_forward: "udp_reach self \<Longrightarrow> hev_socks5_session_udp_fwd_f self num = Some (r, self') \<Longrightarrow> udp_reach self'"
| udp_reply: "udp_reach self \<Longrightarrow> hev_socks5_session_udp_fwd_b undef script bufs self = Some (r, self') \<Longrightarrow> udp_reach self'"
| udp_yield: "udp_reach self \<Longrightarrow> session_udp_yielder type w self = (r, self') \<Longrightarrow> udp_reach self'"

lemma list_rep_unique:
  assumes "list_rep s ps" "list_rep s qs"
  shows "ps = qs"
proof -
  let ?f = "Suc (length ps + length qs)"
  have "hev_list_walk ?f s (hev_list_first s) = ps" "hev_list_walk ?f s (hev_list_first s) = qs"
    by (rule walk_rep [OF assms(1)], simp) (rule walk_rep [OF assms(2)], simp)
  then show ?thesis by (rule box_equals [OF refl])
qed

lemma fwd_f_inv:
  assumes "udp_inv self ps" "hev_socks5_session_udp_fwd_f self num = Some (r, self')"
  shows "\<exists>ps'. udp_inv self' ps'"
proof (cases "ps = []")
  case True
  with assms have "self' = self" by (simp add: hev_socks5_session_udp_fwd_f_def udp_inv_def)
  with assms(1) show ?thesis by blast
next
  case False
  obtain res base D where
    "hev_socks5_udp_sendmmsg (us_base self) (us_sock self) (map (\<lambda>p. frame_msg (us_frame self p)) (take num ps)) = (res, base, D)"
    by (metis prod_cases3)
  from fwd_f_queue [OF assms(1) False this] assms(2) show ?thesis by auto
qed

lemma udp_reach_inv: "udp_reach self \<Longrightarrow> \<exists>ps. udp_inv self ps"
proof (induction rule: udp_reach.induct)
  case (udp_start uu lh fh D self)
  then have "udp_inv self []"
    by (auto simp: hev_socks5_session_udp_new_def hev_socks5_session_udp_construct_def session_udp0_def udp_inv_def
        UDP_POOL_SIZE_def Let_def split: prod.splits if_splits)
  then show ?case by blast
next
  case (udp_arrive self ps new dns mem ip port p self' dns')
  then obtain qs where q: "udp_inv self qs" by blast
  then have "qs = ps" using list_rep_unique [OF _ udp_arrive(2)] unfolding udp_inv_def by blast
  with q recv_handler_inv udp_arrive(3,4) show ?case by blast
next
  case (udp_forward self num r self')
  then show ?case using fwd_f_inv by blast
next
  case (udp_reply self undef script bufs r self')
  then show ?case using fwd_b_inv by blast
next
  case (udp_yield self type w r self')
  then obtain ps where "udp_inv self ps" by blast
  with udp_yield(2) have "udp_inv self' ps"
    by (auto simp: session_udp_yielder_def udp_inv_def Let_def split: if_splits prod.splits)
  then show ?case by blast
qed

subsection \<open>Properties\<close>


definition demo_udp_session :: HevSocks5SessionUDP where
  "demo_udp_session = the (hev_socks5_session_udp_new True False (\<lambda>_. \<lparr>n_next = 0, n_prev = 0\<rparr>)
     (\<lambda>_. \<lparr>fr_addr = [], fr_data = []\<rparr>) \<lparr>d_rx = [], d_tx = [], d_conn = 0, d_sent = []\<rparr>)"

lemma demo_udp_session_new:
  "hev_socks5_session_udp_new True False (\<lambda>_. \<lparr>n_next = 0, n_prev = 0\<rparr>)
     (\<lambda>_. \<lparr>fr_addr = [], fr_data = []\<rparr>) \<lparr>d_rx = [], d_tx = [], d_conn = 0, d_sent = []\<rparr> = Some demo_udp_session"
  by (simp add: demo_udp_session_def hev_socks5_session_udp_new_def hev_socks5_session_udp_construct_def
      hev_socks5_client_udp_construct_def hev_socks5_client_construct_def hev_socks5_construct_def Let_def)




text \<open>C40 A datagram of fewer than four bytes on the datagram socket of a session that has not seen a
  mapped name stops the program: the receiver reports it with a null address, and the session
  converts that address without a check.\<close>

theorem session_udp_runt_crash:
  assumes "s_type (us_base self) = HEV_SOCKS5_TYPE_UDP_IN_UDP" "udp_associated (us_base self)"
    and "d_rx (us_sock self) = DxMsgs [(from, bs)] # q" "length bs < 4" "bufs \<noteq> []"
    and "us_addr self = [0, 0, 0, 0] \<or> us_port self = 0"
  shows "hev_socks5_session_udp_fwd_b undef script bufs self = None"
proof -
  obtain b bs' where bufs: "bufs = b # bs'" using assms(5) by (cases bufs) auto
  show ?thesis
    using assms by (auto simp: hev_socks5_session_udp_fwd_b_def hev_socks5_udp_recvmmsg_def hev_socks5_udp_recvmmsg_udp_def
        hev_task_io_socket_recvmmsg_def bufs Let_def UDP_BUF_SIZE_def)
qed

theorem session_udp_runt_crash_witness:
  "hev_socks5_session_udp_fwd_b \<lparr>ip_bytes = replicate 16 0, ip_type = 0\<rparr> [] [replicate 1500 0]
     (demo_udp_session\<lparr>us_base := client_udp0\<lparr>s_type := HEV_SOCKS5_TYPE_UDP_IN_UDP, udp_associated := True\<rparr>, us_port := 0,
        us_sock := \<lparr>d_rx = [DxMsgs [(\<lparr>sin6_family = 10, sin6_port = 0, sin6_addr = replicate 16 0\<rparr>, [0, 0])]],
                    d_tx = [], d_conn = 0, d_sent = []\<rparr>\<rparr>) = None"
  by (rule session_udp_runt_crash [where bs = "[0, 0]" and q = "[]"]) simp_all

end
