(* ===== verification/Config.thy ===== *)
theory Config
  imports Socks5_Addr
begin

text \<open>
  The configuration (\<^verbatim>\<open>hev-config.c\<close>): the settings as one record, standing for the static
  variables of the file, and the functions that read them from a YAML document. The YAML library
  delivers the document as a table of nodes; a scalar is read as a C string. Numbers go through
  \<^verbatim>\<open>strtoul\<close> and are cut to 32 bits. The settings outlive a run of the tunnel: a second
  configuration is read on top of the first.
\<close>

subsection \<open>Documents\<close>

datatype yaml_node = YScalar "u8 list" | YMapping "(nat \<times> nat) list" | YSequence "nat list"

type_synonym yaml_document = "yaml_node list"

text \<open>Nodes are numbered from 1.\<close>

definition yaml_document_get_node :: "yaml_document \<Rightarrow> nat \<Rightarrow> yaml_node option" where
  "yaml_document_get_node doc i = (if 0 < i \<and> i \<le> length doc then Some (doc ! (i - 1)) else None)"

definition yaml_document_get_root_node :: "yaml_document \<Rightarrow> yaml_node option" where
  "yaml_document_get_root_node doc = yaml_document_get_node doc 1"

definition yaml_scalar :: "yaml_document \<Rightarrow> nat \<Rightarrow> u8 list option" where
  "yaml_scalar doc i = (case yaml_document_get_node doc i of Some (YScalar s) \<Rightarrow> Some (c_string s) | _ \<Rightarrow> None)"

text \<open>The loop head the parsers share: keys with their value nodes, up to the first pair it breaks at.\<close>

fun yaml_pairs :: "yaml_document \<Rightarrow> (nat \<times> nat) list \<Rightarrow> (u8 list \<times> nat) list" where
  "yaml_pairs doc [] = []"
| "yaml_pairs doc ((k, v) # ps) =
     (if k = 0 \<or> v = 0 then []
      else case yaml_scalar doc k of
             None \<Rightarrow> []
           | Some key \<Rightarrow> (key, v) # yaml_pairs doc ps)"

fun yaml_scalars :: "yaml_document \<Rightarrow> (u8 list \<times> nat) list \<Rightarrow> (u8 list \<times> u8 list) list" where
  "yaml_scalars doc [] = []"
| "yaml_scalars doc ((key, v) # ps) =
     (case yaml_scalar doc v of
        None \<Rightarrow> []
      | Some s \<Rightarrow> (key, s) # yaml_scalars doc ps)"

subsection \<open>Numbers and words\<close>

definition str :: "string \<Rightarrow> u8 list" where
  "str s = map of_char s"

definition is_space :: "u8 \<Rightarrow> bool" where
  "is_space b \<longleftrightarrow> b = 32 \<or> (9 \<le> b \<and> b \<le> 13)"

definition digit_val :: "u8 \<Rightarrow> nat option" where
  "digit_val b = (if 48 \<le> b \<and> b \<le> 57 then Some (unat b - 48)
     else if 97 \<le> b \<and> b \<le> 122 then Some (unat b - 87)
     else if 65 \<le> b \<and> b \<le> 90 then Some (unat b - 55) else None)"

fun digits :: "nat \<Rightarrow> u8 list \<Rightarrow> nat list" where
  "digits base [] = []"
| "digits base (b # bs) = (case digit_val b of Some d \<Rightarrow> if d < base then d # digits base bs else [] | None \<Rightarrow> [])"

definition ULONG_MAX :: nat where
  "ULONG_MAX = 2 ^ 64 - 1"

definition strtoul :: "u8 list \<Rightarrow> nat \<Rightarrow> nat" where
  "strtoul s base =
     (let s = dropWhile is_space s;
          neg = (s \<noteq> [] \<and> hd s = 45);
          s = (if s \<noteq> [] \<and> (hd s = 43 \<or> hd s = 45) then tl s else s);
          hex = (base = 0 \<and> (take 2 s = [48, 120] \<or> take 2 s = [48, 88]) \<and> digits 16 (drop 2 s) \<noteq> []);
          base = (if base \<noteq> 0 then base else if hex then 16 else if take 1 s = [48] then 8 else 10);
          v = foldl (\<lambda>n d. n * base + d) 0 (digits base (if hex then drop 2 s else s))
      in if v > ULONG_MAX then ULONG_MAX else if neg then (2 ^ 64 - v) mod 2 ^ 64 else v)"

text \<open>The conversion of a \<^verbatim>\<open>long\<close> to an \<^verbatim>\<open>int\<close>.\<close>

definition to_int32 :: "int \<Rightarrow> int" where
  "to_int32 n = sint (of_int n :: u32)"

definition num :: "u8 list \<Rightarrow> int" where
  "num s = to_int32 (int (strtoul s 10))"

text \<open>\<^verbatim>\<open>strtol\<close> in base 10, cut to an \<^verbatim>\<open>int\<close>.\<close>

definition strtol :: "u8 list \<Rightarrow> int" where
  "strtol s =
     (let s = dropWhile is_space s;
          neg = (s \<noteq> [] \<and> hd s = 45);
          s = (if s \<noteq> [] \<and> (hd s = 43 \<or> hd s = 45) then tl s else s);
          v = int (foldl (\<lambda>n d. n * 10 + d) 0 (digits 10 s))
      in if neg then max (- v) (- (2 ^ 63)) else min v (2 ^ 63 - 1))"

definition lower :: "u8 \<Rightarrow> u8" where
  "lower b = (if 65 \<le> b \<and> b \<le> 90 then b + 32 else b)"

definition strcaseeq :: "u8 list \<Rightarrow> u8 list \<Rightarrow> bool" where
  "strcaseeq a b \<longleftrightarrow> map lower a = map lower b"

subsection \<open>Settings\<close>

record HevConfigServer =
  s_user :: "u8 list option"
  s_pass :: "u8 list option"
  s_mark :: nat
  s_port :: u16
  s_pipeline :: bool
  s_udp_in_udp :: bool
  s_addr :: "u8 list"
  s_udp_addr :: "u8 list"

record HevConfig =
  tun_name :: "u8 list"
  tun_mtu :: nat
  multi_queue :: bool
  tun_ipv4_address :: "u8 list"
  tun_ipv6_address :: "u8 list"
  tun_post_up_script :: "u8 list"
  tun_pre_down_script :: "u8 list"
  srv :: HevConfigServer
  mapdns_address :: u32
  mapdns_port :: int
  mapdns_network :: u32
  mapdns_netmask :: u32
  mapdns_cache_size :: int
  log_file :: "u8 list"
  pid_file :: "u8 list"
  max_session_count :: int
  c_task_stack_size :: int
  tcp_buffer_size :: int
  c_udp_recv_buffer_size :: int
  c_udp_copy_buffer_nums :: int
  c_connect_timeout :: int
  tcp_read_write_timeout :: int
  udp_read_write_timeout :: int
  limit_nofile :: int
  log_level :: int

definition hev_config_static :: HevConfig where
  "hev_config_static =
     \<lparr>tun_name = [], tun_mtu = 8500, multi_queue = False, tun_ipv4_address = [], tun_ipv6_address = [],
      tun_post_up_script = [], tun_pre_down_script = [],
      srv = \<lparr>s_user = None, s_pass = None, s_mark = 0, s_port = 0, s_pipeline = False, s_udp_in_udp = False,
             s_addr = [], s_udp_addr = []\<rparr>,
      mapdns_address = 0, mapdns_port = 0, mapdns_network = 0, mapdns_netmask = 0, mapdns_cache_size = 0,
      log_file = [], pid_file = [], max_session_count = 0, c_task_stack_size = 86016, tcp_buffer_size = 65536,
      c_udp_recv_buffer_size = 524288, c_udp_copy_buffer_nums = 10, c_connect_timeout = 10000,
      tcp_read_write_timeout = 300000, udp_read_write_timeout = 60000, limit_nofile = 65535, log_level = 2\<rparr>"

text \<open>\<^verbatim>\<open>strncpy (buf, value, size - 1)\<close> into a buffer whose last byte is never written: the string it holds.\<close>

definition strncpy_str :: "u8 list \<Rightarrow> nat \<Rightarrow> u8 list" where
  "strncpy_str value n = take n value"

subsection \<open>Sections\<close>

definition hev_config_parse_tunnel_ipv4 :: "yaml_document \<Rightarrow> yaml_node option \<Rightarrow> HevConfig \<Rightarrow> int \<times> HevConfig" where
  "hev_config_parse_tunnel_ipv4 doc base C =
     (case base of
        Some (YMapping ps) \<Rightarrow>
          (0, foldl (\<lambda>C (key, value).
                if key = str ''address'' then C\<lparr>tun_ipv4_address := strncpy_str value 15\<rparr> else C)
              C (yaml_scalars doc (yaml_pairs doc ps)))
      | _ \<Rightarrow> (-1, C))"

definition hev_config_parse_tunnel_ipv6 :: "yaml_document \<Rightarrow> yaml_node option \<Rightarrow> HevConfig \<Rightarrow> int \<times> HevConfig" where
  "hev_config_parse_tunnel_ipv6 doc base C =
     (case base of
        Some (YMapping ps) \<Rightarrow>
          (0, foldl (\<lambda>C (key, value).
                if key = str ''address'' then C\<lparr>tun_ipv6_address := strncpy_str value 63\<rparr> else C)
              C (yaml_scalars doc (yaml_pairs doc ps)))
      | _ \<Rightarrow> (-1, C))"

text \<open>One pair of the tunnel section, and the loop, which breaks at a missing value node.\<close>

definition parse_tunnel_pair :: "yaml_document \<Rightarrow> u8 list \<Rightarrow> yaml_node \<Rightarrow> HevConfig \<Rightarrow> HevConfig" where
  "parse_tunnel_pair doc key node C =
     (case node of
        YScalar s \<Rightarrow>
          (let value = c_string s
           in if key = str ''name'' then C\<lparr>tun_name := strncpy_str value 63\<rparr>
              else if key = str ''mtu'' then C\<lparr>tun_mtu := strtoul value 10 mod 2 ^ 32\<rparr>
              else if key = str ''multi-queue'' then C\<lparr>multi_queue := \<not> strcaseeq value (str ''false'')\<rparr>
              else if key = str ''ipv4'' then C\<lparr>tun_ipv4_address := strncpy_str value 15\<rparr>
              else if key = str ''ipv6'' then C\<lparr>tun_ipv6_address := strncpy_str value 63\<rparr>
              else if key = str ''post-up-script'' then C\<lparr>tun_post_up_script := strncpy_str value 63\<rparr>
              else if key = str ''pre-down-script'' then C\<lparr>tun_pre_down_script := strncpy_str value 63\<rparr>
              else C)
      | _ \<Rightarrow>
          (if key = str ''ipv4'' then snd (hev_config_parse_tunnel_ipv4 doc (Some node) C)
           else if key = str ''ipv6'' then snd (hev_config_parse_tunnel_ipv6 doc (Some node) C)
           else C))"

fun parse_tunnel_loop :: "yaml_document \<Rightarrow> (u8 list \<times> nat) list \<Rightarrow> HevConfig \<Rightarrow> HevConfig" where
  "parse_tunnel_loop doc [] C = C"
| "parse_tunnel_loop doc ((key, v) # ps) C =
     (case yaml_document_get_node doc v of
        None \<Rightarrow> C
      | Some node \<Rightarrow> parse_tunnel_loop doc ps (parse_tunnel_pair doc key node C))"

definition hev_config_parse_tunnel :: "yaml_document \<Rightarrow> yaml_node option \<Rightarrow> HevConfig \<Rightarrow> int \<times> HevConfig" where
  "hev_config_parse_tunnel doc base C =
     (case base of
        Some (YMapping ps) \<Rightarrow> (0, parse_tunnel_loop doc (yaml_pairs doc ps) C)
      | _ \<Rightarrow> (-1, C))"

text \<open>The value the loop leaves in the local variable of a key: that of its last occurrence.\<close>

definition last_value :: "string \<Rightarrow> (u8 list \<times> u8 list) list \<Rightarrow> u8 list option" where
  "last_value key kvs = map_of (rev kvs) (str key)"

text \<open>The assignments behind the checks.\<close>

definition parse_socks5_server ::
  "u8 list \<Rightarrow> u8 list \<Rightarrow> u8 list option \<Rightarrow> u8 list option \<Rightarrow> u8 list option \<Rightarrow> u8 list option \<Rightarrow> u8 list option \<Rightarrow>
   u8 list option \<Rightarrow> HevConfigServer \<Rightarrow> HevConfigServer" where
  "parse_socks5_server port addr pipe udpm udpa user pass mark s =
     (let s = s\<lparr>s_addr := strncpy_str addr 255, s_port := of_nat (strtoul port 10)\<rparr>;
          s = (case pipe of Some p \<Rightarrow> if strcaseeq p (str ''true'') then s\<lparr>s_pipeline := True\<rparr> else s | None \<Rightarrow> s);
          s = (case udpm of Some u \<Rightarrow> if strcaseeq u (str ''udp'') then s\<lparr>s_udp_in_udp := True\<rparr> else s | None \<Rightarrow> s);
          s = (case udpa of Some u \<Rightarrow> s\<lparr>s_udp_addr := strncpy_str u 255\<rparr> | None \<Rightarrow> s);
          s = (case (user, pass) of
                 (Some u, Some p) \<Rightarrow> s\<lparr>s_user := Some (strncpy_str u 255), s_pass := Some (strncpy_str p 255)\<rparr>
               | _ \<Rightarrow> s)
      in case mark of Some m \<Rightarrow> s\<lparr>s_mark := strtoul m 0 mod 2 ^ 32\<rparr> | None \<Rightarrow> s)"

definition hev_config_parse_socks5 :: "yaml_document \<Rightarrow> yaml_node option \<Rightarrow> HevConfig \<Rightarrow> int \<times> HevConfig" where
  "hev_config_parse_socks5 doc base C =
     (case base of
        Some (YMapping ps) \<Rightarrow>
          (let kvs = yaml_scalars doc (yaml_pairs doc ps);
               port = last_value ''port'' kvs; addr = last_value ''address'' kvs;
               udpm = last_value ''udp'' kvs; udpa = last_value ''udp-address'' kvs;
               pipe = last_value ''pipeline'' kvs; user = last_value ''username'' kvs;
               pass = last_value ''password'' kvs; mark = last_value ''mark'' kvs
           in case (port, addr) of
                (Some port, Some addr) \<Rightarrow>
                  if (user \<noteq> None \<and> pass = None) \<or> (user = None \<and> pass \<noteq> None) then (-1, C)
                  else (0, C\<lparr>srv := parse_socks5_server port addr pipe udpm udpa user pass mark (srv C)\<rparr>)
              | _ \<Rightarrow> (-1, C))
      | _ \<Rightarrow> (-1, C))"

text \<open>\<open>pton\<close> is \<^verbatim>\<open>inet_pton\<close> for IPv4: the stored 32 bits, unless the text is no address.\<close>

definition bswap32 :: "u32 \<Rightarrow> u32" where
  "bswap32 w = push_bit 24 (w AND 0xFF) OR push_bit 8 (w AND 0xFF00) OR (drop_bit 8 w AND 0xFF00) OR drop_bit 24 w"

definition parse_mapdns_pair :: "(u8 list \<Rightarrow> u32 option) \<Rightarrow> HevConfig \<Rightarrow> u8 list \<times> u8 list \<Rightarrow> HevConfig" where
  "parse_mapdns_pair pton C kv =
     (case kv of (key, value) \<Rightarrow>
        if key = str ''address'' then (case pton value of Some a \<Rightarrow> C\<lparr>mapdns_address := a\<rparr> | None \<Rightarrow> C)
        else if key = str ''port'' then C\<lparr>mapdns_port := num value\<rparr>
        else if key = str ''network'' then (case pton value of Some a \<Rightarrow> C\<lparr>mapdns_network := a\<rparr> | None \<Rightarrow> C)
        else if key = str ''netmask'' then (case pton value of Some a \<Rightarrow> C\<lparr>mapdns_netmask := a\<rparr> | None \<Rightarrow> C)
        else if key = str ''cache-size'' then C\<lparr>mapdns_cache_size := num value\<rparr>
        else C)"

definition hev_config_parse_mapdns ::
  "(u8 list \<Rightarrow> u32 option) \<Rightarrow> yaml_document \<Rightarrow> yaml_node option \<Rightarrow> HevConfig \<Rightarrow> int \<times> HevConfig" where
  "hev_config_parse_mapdns pton doc base C =
     (case base of
        Some (YMapping ps) \<Rightarrow>
          (let C = foldl (parse_mapdns_pair pton) C (yaml_scalars doc (yaml_pairs doc ps))
           in (0, C\<lparr>mapdns_network := bswap32 (mapdns_network C), mapdns_netmask := bswap32 (mapdns_netmask C)\<rparr>))
      | _ \<Rightarrow> (-1, C))"

definition hev_config_parse_log_level :: "u8 list \<Rightarrow> int" where
  "hev_config_parse_log_level value =
     (if value = str ''debug'' then 0 else if value = str ''info'' then 1 else if value = str ''error'' then 3 else 2)"

definition parse_misc_pair :: "HevConfig \<Rightarrow> u8 list \<times> u8 list \<Rightarrow> HevConfig" where
  "parse_misc_pair C kv =
     (case kv of (key, value) \<Rightarrow>
        if key = str ''task-stack-size'' then C\<lparr>c_task_stack_size := num value\<rparr>
        else if key = str ''tcp-buffer-size'' then C\<lparr>tcp_buffer_size := num value\<rparr>
        else if key = str ''udp-recv-buffer-size'' then C\<lparr>c_udp_recv_buffer_size := num value\<rparr>
        else if key = str ''udp-copy-buffer-nums'' then C\<lparr>c_udp_copy_buffer_nums := num value\<rparr>
        else if key = str ''max-session-count'' then C\<lparr>max_session_count := num value\<rparr>
        else if key = str ''connect-timeout'' then C\<lparr>c_connect_timeout := num value\<rparr>
        else if key = str ''pid-file'' then C\<lparr>pid_file := strncpy_str value 1023\<rparr>
        else if key = str ''log-file'' then C\<lparr>log_file := strncpy_str value 1023\<rparr>
        else if key = str ''log-level'' then C\<lparr>log_level := hev_config_parse_log_level value\<rparr>
        else if key = str ''limit-nofile'' then C\<lparr>limit_nofile := to_int32 (strtol value)\<rparr>
        else C)"

text \<open>The timeouts behind the loop: a specific one, else the common one, else what was set before.\<close>

definition misc_timeouts :: "int \<Rightarrow> int \<Rightarrow> int \<Rightarrow> HevConfig \<Rightarrow> HevConfig" where
  "misc_timeouts rw_timeout tcp_rw_timeout udp_rw_timeout C =
     (let tcp_rw_timeout = (if tcp_rw_timeout \<le> 0 then rw_timeout else tcp_rw_timeout);
          udp_rw_timeout = (if udp_rw_timeout \<le> 0 then rw_timeout else udp_rw_timeout);
          C = (if tcp_rw_timeout > 0 then C\<lparr>tcp_read_write_timeout := tcp_rw_timeout\<rparr> else C)
      in if udp_rw_timeout > 0 then C\<lparr>udp_read_write_timeout := udp_rw_timeout\<rparr> else C)"

definition hev_config_parse_misc :: "yaml_document \<Rightarrow> yaml_node option \<Rightarrow> HevConfig \<Rightarrow> int \<times> HevConfig" where
  "hev_config_parse_misc doc base C =
     (case base of
        Some (YMapping ps) \<Rightarrow>
          (let kvs = yaml_scalars doc (yaml_pairs doc ps);
               C = foldl parse_misc_pair C kvs;
               local = (\<lambda>key. case last_value key kvs of Some v \<Rightarrow> num v | None \<Rightarrow> -1);
               C = misc_timeouts (local ''read-write-timeout'') (local ''tcp-read-write-timeout'')
                     (local ''udp-read-write-timeout'') C
           in (0, C))
      | _ \<Rightarrow> (-1, C))"

subsection \<open>The document\<close>

abbreviation (input) TCP_SND_BUF :: int where "TCP_SND_BUF \<equiv> 65528"
abbreviation (input) TASK_STACK_SIZE :: int where "TASK_STACK_SIZE \<equiv> 20480"

fun parse_doc_loop ::
  "(u8 list \<Rightarrow> u32 option) \<Rightarrow> yaml_document \<Rightarrow> (u8 list \<times> nat) list \<Rightarrow> HevConfig \<Rightarrow> int \<times> HevConfig" where
  "parse_doc_loop pton doc [] C = (0, C)"
| "parse_doc_loop pton doc ((key, v) # ps) C =
     (let node = yaml_document_get_node doc v;
          (res, C) = (if key = str ''tunnel'' then hev_config_parse_tunnel doc node C
                      else if key = str ''socks5'' then hev_config_parse_socks5 doc node C
                      else if key = str ''mapdns'' then hev_config_parse_mapdns pton doc node C
                      else if key = str ''misc'' then hev_config_parse_misc doc node C
                      else (0, C))
      in if res < 0 then (-1, C) else parse_doc_loop pton doc ps C)"

definition clamp_buffers :: "HevConfig \<Rightarrow> HevConfig" where
  "clamp_buffers C =
     (let C = (if tcp_buffer_size C > TCP_SND_BUF then C\<lparr>tcp_buffer_size := TCP_SND_BUF\<rparr> else C);
          udp_buffer_size = to_int32 (1500 * c_udp_copy_buffer_nums C);
          min_task_stack_size = (if tcp_buffer_size C > udp_buffer_size
                                 then to_int32 (TASK_STACK_SIZE + tcp_buffer_size C)
                                 else to_int32 (TASK_STACK_SIZE + udp_buffer_size))
      in if c_task_stack_size C < min_task_stack_size then C\<lparr>c_task_stack_size := min_task_stack_size\<rparr> else C)"

definition hev_config_parse_doc :: "(u8 list \<Rightarrow> u32 option) \<Rightarrow> yaml_document \<Rightarrow> HevConfig \<Rightarrow> int \<times> HevConfig" where
  "hev_config_parse_doc pton doc C =
     (case yaml_document_get_root_node doc of
        Some (YMapping ps) \<Rightarrow>
          (case parse_doc_loop pton doc (yaml_pairs doc ps) C of
             (res, C) \<Rightarrow> if res < 0 then (-1, C) else (0, clamp_buffers C))
      | _ \<Rightarrow> (-1, C))"

text \<open>\<open>load\<close> is the YAML parser on the text; \<open>init_ok\<close> whether it could be set up, \<open>contents\<close> the file.\<close>

definition hev_config_init_from_str ::
  "bool \<Rightarrow> (u8 list \<Rightarrow> yaml_document option) \<Rightarrow> (u8 list \<Rightarrow> u32 option) \<Rightarrow> u8 list \<Rightarrow> HevConfig \<Rightarrow> int \<times> HevConfig" where
  "hev_config_init_from_str init_ok load pton config_str C =
     (if \<not> init_ok then (-1, C)
      else case load config_str of None \<Rightarrow> (-1, C) | Some doc \<Rightarrow> hev_config_parse_doc pton doc C)"

definition hev_config_init_from_file ::
  "bool \<Rightarrow> (u8 list \<Rightarrow> yaml_document option) \<Rightarrow> (u8 list \<Rightarrow> u32 option) \<Rightarrow> u8 list option \<Rightarrow> HevConfig \<Rightarrow> int \<times> HevConfig" where
  "hev_config_init_from_file init_ok load pton contents C =
     (if \<not> init_ok then (-1, C)
      else case contents of
             None \<Rightarrow> (-1, C)
           | Some text \<Rightarrow> (case load text of None \<Rightarrow> (-1, C) | Some doc \<Rightarrow> hev_config_parse_doc pton doc C))"

subsection \<open>Access\<close>

definition c_opt :: "u8 list \<Rightarrow> u8 list option" where
  "c_opt s = (if s = [] then None else Some s)"

definition hev_config_get_tunnel_name :: "HevConfig \<Rightarrow> u8 list option" where
  "hev_config_get_tunnel_name C = c_opt (tun_name C)"

definition hev_config_get_tunnel_mtu :: "HevConfig \<Rightarrow> nat" where
  "hev_config_get_tunnel_mtu C = tun_mtu C"

definition hev_config_get_tunnel_multi_queue :: "HevConfig \<Rightarrow> bool" where
  "hev_config_get_tunnel_multi_queue C = multi_queue C"

definition hev_config_get_tunnel_ipv4_address :: "HevConfig \<Rightarrow> u8 list option" where
  "hev_config_get_tunnel_ipv4_address C = c_opt (tun_ipv4_address C)"

definition hev_config_get_tunnel_ipv6_address :: "HevConfig \<Rightarrow> u8 list option" where
  "hev_config_get_tunnel_ipv6_address C = c_opt (tun_ipv6_address C)"

definition hev_config_get_tunnel_post_up_script :: "HevConfig \<Rightarrow> u8 list option" where
  "hev_config_get_tunnel_post_up_script C = c_opt (tun_post_up_script C)"

definition hev_config_get_tunnel_pre_down_script :: "HevConfig \<Rightarrow> u8 list option" where
  "hev_config_get_tunnel_pre_down_script C = c_opt (tun_pre_down_script C)"

definition hev_config_get_socks5_server :: "HevConfig \<Rightarrow> HevConfigServer" where
  "hev_config_get_socks5_server C = srv C"

definition hev_config_get_mapdns_address :: "HevConfig \<Rightarrow> u32" where
  "hev_config_get_mapdns_address C = mapdns_address C"

definition hev_config_get_mapdns_port :: "HevConfig \<Rightarrow> int" where
  "hev_config_get_mapdns_port C = mapdns_port C"

definition hev_config_get_mapdns_network :: "HevConfig \<Rightarrow> u32" where
  "hev_config_get_mapdns_network C = mapdns_network C"

definition hev_config_get_mapdns_netmask :: "HevConfig \<Rightarrow> u32" where
  "hev_config_get_mapdns_netmask C = mapdns_netmask C"

definition hev_config_get_mapdns_cache_size :: "HevConfig \<Rightarrow> int" where
  "hev_config_get_mapdns_cache_size C = mapdns_cache_size C"

definition hev_config_get_misc_task_stack_size :: "HevConfig \<Rightarrow> int" where
  "hev_config_get_misc_task_stack_size C = c_task_stack_size C"

definition hev_config_get_misc_tcp_buffer_size :: "HevConfig \<Rightarrow> int" where
  "hev_config_get_misc_tcp_buffer_size C = tcp_buffer_size C"

definition hev_config_get_misc_udp_recv_buffer_size :: "HevConfig \<Rightarrow> int" where
  "hev_config_get_misc_udp_recv_buffer_size C = c_udp_recv_buffer_size C"

definition hev_config_get_misc_udp_copy_buffer_nums :: "HevConfig \<Rightarrow> int" where
  "hev_config_get_misc_udp_copy_buffer_nums C = c_udp_copy_buffer_nums C"

definition hev_config_get_misc_max_session_count :: "HevConfig \<Rightarrow> int" where
  "hev_config_get_misc_max_session_count C = max_session_count C"

definition hev_config_get_misc_connect_timeout :: "HevConfig \<Rightarrow> int" where
  "hev_config_get_misc_connect_timeout C = c_connect_timeout C"

definition hev_config_get_misc_tcp_read_write_timeout :: "HevConfig \<Rightarrow> int" where
  "hev_config_get_misc_tcp_read_write_timeout C = tcp_read_write_timeout C"

definition hev_config_get_misc_udp_read_write_timeout :: "HevConfig \<Rightarrow> int" where
  "hev_config_get_misc_udp_read_write_timeout C = udp_read_write_timeout C"

definition hev_config_get_misc_limit_nofile :: "HevConfig \<Rightarrow> int" where
  "hev_config_get_misc_limit_nofile C = limit_nofile C"

definition hev_config_get_misc_pid_file :: "HevConfig \<Rightarrow> u8 list option" where
  "hev_config_get_misc_pid_file C = c_opt (pid_file C)"

definition hev_config_get_misc_log_file :: "HevConfig \<Rightarrow> u8 list" where
  "hev_config_get_misc_log_file C = (if log_file C = [] then str ''stderr'' else log_file C)"

definition hev_config_get_misc_log_level :: "HevConfig \<Rightarrow> int" where
  "hev_config_get_misc_log_level C = log_level C"

subsection \<open>Well-formed settings\<close>

definition cstr :: "nat \<Rightarrow> u8 list \<Rightarrow> bool" where
  "cstr n s \<longleftrightarrow> length s \<le> n \<and> 0 \<notin> set s"

definition is_int32 :: "int \<Rightarrow> bool" where
  "is_int32 n \<longleftrightarrow> - (2 ^ 31) \<le> n \<and> n < 2 ^ 31"

definition server_ok :: "HevConfigServer \<Rightarrow> bool" where
  "server_ok s \<longleftrightarrow>
     cstr 255 (s_addr s) \<and> cstr 255 (s_udp_addr s) \<and> s_mark s < 2 ^ 32 \<and>
     (s_user s = None \<longleftrightarrow> s_pass s = None) \<and> pred_option (cstr 255) (s_user s) \<and> pred_option (cstr 255) (s_pass s)"

text \<open>Every string fits the buffer it is kept in, with its terminator, every number its type, and a user
  name comes with a password.\<close>

definition config_ok :: "HevConfig \<Rightarrow> bool" where
  "config_ok C \<longleftrightarrow>
     cstr 63 (tun_name C) \<and> tun_mtu C < 2 ^ 32 \<and> cstr 15 (tun_ipv4_address C) \<and> cstr 63 (tun_ipv6_address C) \<and>
     cstr 1023 (tun_post_up_script C) \<and> cstr 1023 (tun_pre_down_script C) \<and> server_ok (srv C) \<and>
     is_int32 (mapdns_port C) \<and> is_int32 (mapdns_cache_size C) \<and> cstr 1023 (log_file C) \<and> cstr 1023 (pid_file C) \<and>
     is_int32 (max_session_count C) \<and> is_int32 (c_task_stack_size C) \<and> is_int32 (tcp_buffer_size C) \<and>
     is_int32 (c_udp_recv_buffer_size C) \<and> is_int32 (c_udp_copy_buffer_nums C) \<and> is_int32 (c_connect_timeout C) \<and>
     is_int32 (tcp_read_write_timeout C) \<and> is_int32 (udp_read_write_timeout C) \<and> is_int32 (limit_nofile C) \<and>
     0 \<le> log_level C \<and> log_level C \<le> 3"

lemma is_int32_to_int32 [simp]: "is_int32 (to_int32 n)"
  using sint_lt [of "of_int n :: u32"] sint_ge [of "of_int n :: u32"] by (simp add: is_int32_def to_int32_def)

lemma is_int32_num [simp]: "is_int32 (num s)"
  by (simp add: num_def)

lemma to_int32_id: "is_int32 n \<Longrightarrow> to_int32 n = n"
  by (simp add: to_int32_def is_int32_def sint_sbintrunc' signed_take_bit_int_eq_self)

lemma cstr_strncpy: "0 \<notin> set v \<Longrightarrow> n \<le> m \<Longrightarrow> cstr m (strncpy_str v n)"
  by (auto simp: cstr_def strncpy_str_def dest: in_set_takeD)

lemma log_level_range: "0 \<le> hev_config_parse_log_level v \<and> hev_config_parse_log_level v \<le> 3"
  by (simp add: hev_config_parse_log_level_def)

lemma c_string_nul: "0 \<notin> set (c_string s)"
  by (auto simp: c_string_def dest: set_takeWhileD)

lemma yaml_scalar_nul: "yaml_scalar doc i = Some s \<Longrightarrow> 0 \<notin> set s"
  by (auto simp: yaml_scalar_def c_string_nul split: option.splits yaml_node.splits)

lemma yaml_scalars_nul: "(k, v) \<in> set (yaml_scalars doc ps) \<Longrightarrow> 0 \<notin> set v"
proof (induction doc ps rule: yaml_scalars.induct)
  case (2 doc key i ps)
  then show ?case using yaml_scalar_nul [of doc i] by (cases "yaml_scalar doc i") auto
qed simp

lemma last_value_nul: "last_value key (yaml_scalars doc ps) = Some v \<Longrightarrow> 0 \<notin> set v"
  using yaml_scalars_nul by (auto simp: last_value_def dest!: map_of_SomeD)

lemma foldl_config:
  assumes "P C" "\<And>C k v. (k, v) \<in> set kvs \<Longrightarrow> P C \<Longrightarrow> P (f C (k, v))"
  shows "P (foldl f C kvs)"
  using assms by (induction kvs arbitrary: C) auto

lemma parse_misc_pair_ok: "config_ok C \<Longrightarrow> 0 \<notin> set v \<Longrightarrow> config_ok (parse_misc_pair C (k, v))"
  using log_level_range [of v] cstr_strncpy [of v 1023 1023]
  by (simp add: parse_misc_pair_def config_ok_def)

lemma parse_mapdns_pair_ok: "config_ok C \<Longrightarrow> config_ok (parse_mapdns_pair pton C (k, v))"
  by (simp add: parse_mapdns_pair_def config_ok_def split: option.split)

lemma misc_timeouts_ok:
  "config_ok C \<Longrightarrow> is_int32 a \<Longrightarrow> is_int32 b \<Longrightarrow> is_int32 c \<Longrightarrow> config_ok (misc_timeouts a b c C)"
  by (simp add: misc_timeouts_def Let_def config_ok_def)

lemma parse_misc_ok:
  assumes "config_ok C"
  shows "config_ok (snd (hev_config_parse_misc doc base C))"
proof (cases "\<exists>ps. base = Some (YMapping ps)")
  case True
  then obtain ps where b: "base = Some (YMapping ps)" by blast
  define C1 where "C1 = foldl parse_misc_pair C (yaml_scalars doc (yaml_pairs doc ps))"
  have 1: "config_ok C1" unfolding C1_def
    by (rule foldl_config [where P = config_ok, OF assms]) (blast intro: parse_misc_pair_ok dest: yaml_scalars_nul)
  have 4: "is_int32 (case x of Some v \<Rightarrow> num v | None \<Rightarrow> -1)" for x :: "u8 list option"
    by (cases x) (simp_all add: is_int32_def [of "-1"])
  show ?thesis unfolding b hev_config_parse_misc_def Let_def option.case yaml_node.case C1_def [symmetric] snd_conv
    by (intro misc_timeouts_ok 1 4)
next
  case False
  then show ?thesis using assms
    by (cases base) (auto simp: hev_config_parse_misc_def split: yaml_node.split)
qed

lemma parse_mapdns_ok:
  assumes "config_ok C"
  shows "config_ok (snd (hev_config_parse_mapdns pton doc base C))"
proof (cases "\<exists>ps. base = Some (YMapping ps)")
  case True
  then obtain ps where b: "base = Some (YMapping ps)" by blast
  have "config_ok (foldl (parse_mapdns_pair pton) C (yaml_scalars doc (yaml_pairs doc ps)))"
    by (rule foldl_config [where P = config_ok, OF assms]) (rule parse_mapdns_pair_ok)
  then show ?thesis by (simp add: b hev_config_parse_mapdns_def Let_def config_ok_def)
next
  case False
  then show ?thesis using assms
    by (cases base) (auto simp: hev_config_parse_mapdns_def split: yaml_node.split)
qed

lemma parse_address_ok:
  assumes "config_ok C"
  shows "config_ok (snd (hev_config_parse_tunnel_ipv4 doc base C))" "config_ok (snd (hev_config_parse_tunnel_ipv6 doc base C))"
proof -
  have 4: "config_ok (C\<lparr>tun_ipv4_address := strncpy_str v 15\<rparr>)" "config_ok (C\<lparr>tun_ipv6_address := strncpy_str v 63\<rparr>)"
    if "config_ok C" "0 \<notin> set v" for C v
    using that cstr_strncpy [of v 15 15] cstr_strncpy [of v 63 63] by (simp_all add: config_ok_def)
  show "config_ok (snd (hev_config_parse_tunnel_ipv4 doc base C))" "config_ok (snd (hev_config_parse_tunnel_ipv6 doc base C))"
    using assms
    by (auto simp: hev_config_parse_tunnel_ipv4_def hev_config_parse_tunnel_ipv6_def split: option.split yaml_node.split
        intro!: foldl_config [where P = config_ok] 4 dest: yaml_scalars_nul)
qed

lemma parse_tunnel_pair_ok:
  assumes "config_ok C"
  shows "config_ok (parse_tunnel_pair doc key node C)"
proof (cases node)
  case (YScalar s)
  have v: "0 \<notin> set (c_string s)" by (rule c_string_nul)
  have "strtoul (c_string s) 10 mod 2 ^ 32 < (2 ^ 32 :: nat)" by simp
  then show ?thesis
    unfolding YScalar parse_tunnel_pair_def Let_def yaml_node.case
    using assms cstr_strncpy [OF v, of 63 63] cstr_strncpy [OF v, of 15 15] cstr_strncpy [OF v, of 63 1023]
    by (simp add: config_ok_def)
qed (use assms parse_address_ok in \<open>simp_all add: parse_tunnel_pair_def\<close>)

lemma parse_tunnel_ok:
  assumes "config_ok C"
  shows "config_ok (snd (hev_config_parse_tunnel doc base C))"
proof -
  have "config_ok C \<Longrightarrow> config_ok (parse_tunnel_loop doc ps C)" for ps C
    by (induction doc ps C rule: parse_tunnel_loop.induct) (auto simp: parse_tunnel_pair_ok split: option.split)
  then show ?thesis using assms by (auto simp: hev_config_parse_tunnel_def split: option.split yaml_node.split)
qed

lemma config_ok_srv: "config_ok C \<Longrightarrow> server_ok s \<Longrightarrow> config_ok (C\<lparr>srv := s\<rparr>)"
  by (simp add: config_ok_def)

lemma parse_socks5_server_ok:
  assumes "server_ok s" "0 \<notin> set addr" "\<And>v. udpa = Some v \<Longrightarrow> 0 \<notin> set v"
    "\<And>v. user = Some v \<Longrightarrow> 0 \<notin> set v" "\<And>v. pass = Some v \<Longrightarrow> 0 \<notin> set v"
  shows "server_ok (parse_socks5_server port addr pipe udpm udpa user pass mark s)"
proof -
  have 1: "server_ok (s\<lparr>s_addr := strncpy_str addr 255, s_port := p\<rparr>)" for p
    using assms(1,2) by (simp add: server_ok_def cstr_strncpy)
  have 2: "server_ok (case pipe of Some p \<Rightarrow> if b p then s\<lparr>s_pipeline := True\<rparr> else s | None \<Rightarrow> s)" if "server_ok s" for s b
    using that by (cases pipe) (simp_all add: server_ok_def)
  have 3: "server_ok (case udpm of Some p \<Rightarrow> if b p then s\<lparr>s_udp_in_udp := True\<rparr> else s | None \<Rightarrow> s)" if "server_ok s" for s b
    using that by (cases udpm) (simp_all add: server_ok_def)
  have 4: "server_ok (case udpa of Some u \<Rightarrow> s\<lparr>s_udp_addr := strncpy_str u 255\<rparr> | None \<Rightarrow> s)" if "server_ok s" for s
    using that assms(3) by (cases udpa) (simp_all add: server_ok_def cstr_strncpy)
  have 5: "server_ok (case (user, pass) of
      (Some u, Some p) \<Rightarrow> s\<lparr>s_user := Some (strncpy_str u 255), s_pass := Some (strncpy_str p 255)\<rparr> | _ \<Rightarrow> s)"
    if "server_ok s" for s
    using that assms(4,5) by (cases user; cases pass) (simp_all add: server_ok_def cstr_strncpy)
  have 6: "server_ok (case mark of Some m \<Rightarrow> s\<lparr>s_mark := f m mod 2 ^ 32\<rparr> | None \<Rightarrow> s)" if "server_ok s" for s f
    using that by (cases mark) (simp_all add: server_ok_def)
  show ?thesis unfolding parse_socks5_server_def Let_def by (intro 6 5 4 3 2 1)
qed

lemma parse_socks5_ok:
  assumes "config_ok C"
  shows "config_ok (snd (hev_config_parse_socks5 doc base C))"
proof (cases "\<exists>ps. base = Some (YMapping ps)")
  case True
  then obtain ps where b: "base = Some (YMapping ps)" by blast
  define kvs where "kvs = yaml_scalars doc (yaml_pairs doc ps)"
  have nul: "last_value key kvs = Some v \<Longrightarrow> 0 \<notin> set v" for key v unfolding kvs_def by (rule last_value_nul)
  have s0: "server_ok (srv C)" using assms by (simp add: config_ok_def)
  show ?thesis
  proof (cases "last_value ''port'' kvs")
    case None
    then show ?thesis using assms by (simp add: b hev_config_parse_socks5_def kvs_def)
  next
    case port: (Some p)
    show ?thesis
    proof (cases "last_value ''address'' kvs")
      case None
      then show ?thesis using assms by (simp add: b hev_config_parse_socks5_def kvs_def port [unfolded kvs_def])
    next
      case (Some a)
      have "config_ok (C\<lparr>srv := parse_socks5_server p a (last_value ''pipeline'' kvs) (last_value ''udp'' kvs)
          (last_value ''udp-address'' kvs) (last_value ''username'' kvs) (last_value ''password'' kvs) (last_value ''mark'' kvs) (srv C)\<rparr>)"
        by (intro config_ok_srv assms parse_socks5_server_ok s0) (rule nul, (rule Some | assumption))+
      then show ?thesis using assms
        unfolding b hev_config_parse_socks5_def Let_def option.case yaml_node.case kvs_def [symmetric] port Some prod.case
        by (simp only: snd_conv split: if_split) simp
    qed
  qed
next
  case False
  then show ?thesis using assms
    by (cases base) (auto simp: hev_config_parse_socks5_def split: yaml_node.split)
qed

lemma parse_doc_loop_ok: "config_ok C \<Longrightarrow> config_ok (snd (parse_doc_loop pton doc ps C))"
proof (induction pton doc ps C rule: parse_doc_loop.induct)
  case (2 pton doc key v ps C)
  let ?n = "yaml_document_get_node doc v"
  obtain r C1 where e: "(if key = str ''tunnel'' then hev_config_parse_tunnel doc ?n C
      else if key = str ''socks5'' then hev_config_parse_socks5 doc ?n C
      else if key = str ''mapdns'' then hev_config_parse_mapdns pton doc ?n C
      else if key = str ''misc'' then hev_config_parse_misc doc ?n C else (0, C)) = (r, C1)" by fastforce
  have "config_ok C1"
    using parse_tunnel_ok [OF 2(2), of doc ?n] parse_socks5_ok [OF 2(2), of doc ?n] parse_mapdns_ok [OF 2(2), of pton doc ?n]
      parse_misc_ok [OF 2(2), of doc ?n] 2(2) e by (metis snd_conv)
  then show ?case using 2(1) [OF refl e [symmetric] refl] by (simp only: parse_doc_loop.simps Let_def e prod.case split: if_split) simp
qed simp

lemma clamp_ok:
  assumes "config_ok C"
  shows "config_ok (clamp_buffers C)" "tcp_buffer_size (clamp_buffers C) \<le> TCP_SND_BUF"
proof -
  have "is_int32 65528" by (simp add: is_int32_def)
  then show "config_ok (clamp_buffers C)" "tcp_buffer_size (clamp_buffers C) \<le> TCP_SND_BUF"
    using assms by (simp_all add: clamp_buffers_def Let_def config_ok_def)
qed

text \<open>With sizes in range, the stack of a session task holds the buffers the session puts there.\<close>

lemma clamp_stack:
  assumes "0 \<le> tcp_buffer_size C" "0 \<le> c_udp_copy_buffer_nums C" "c_udp_copy_buffer_nums C \<le> 1000000"
  shows "TASK_STACK_SIZE + tcp_buffer_size (clamp_buffers C) \<le> c_task_stack_size (clamp_buffers C)"
    "TASK_STACK_SIZE + 1500 * c_udp_copy_buffer_nums C \<le> c_task_stack_size (clamp_buffers C)"
proof -
  have u: "to_int32 (1500 * c_udp_copy_buffer_nums C) = 1500 * c_udp_copy_buffer_nums C"
    by (rule to_int32_id) (use assms(2,3) in \<open>simp add: is_int32_def\<close>)
  have v: "to_int32 (20480 + 1500 * c_udp_copy_buffer_nums C) = 20480 + 1500 * c_udp_copy_buffer_nums C"
    by (rule to_int32_id) (use assms(2,3) in \<open>simp add: is_int32_def\<close>)
  have w: "to_int32 (20480 + n) = 20480 + n" if "0 \<le> n" "n \<le> 65528" for n
    by (rule to_int32_id) (use that in \<open>simp add: is_int32_def\<close>)
  have w': "to_int32 86008 = 86008" using w [of 65528] by simp
  show "TASK_STACK_SIZE + tcp_buffer_size (clamp_buffers C) \<le> c_task_stack_size (clamp_buffers C)"
    "TASK_STACK_SIZE + 1500 * c_udp_copy_buffer_nums C \<le> c_task_stack_size (clamp_buffers C)"
    using assms(1) by (auto simp: clamp_buffers_def Let_def u v w w')
qed

subsection \<open>Properties\<close>

text \<open>C38 Reading a configuration, whatever the YAML document holds and whatever was configured before,
  leaves well-formed settings: every string fits its buffer with the terminator, every number its C
  type, and there is a user name exactly when there is a password. When the document is accepted,
  the TCP buffer is within what lwIP can take at once, and, with sizes that are not negative and at
  most a million UDP buffers, the stack of a session is large enough for both kinds of buffers
  besides the fixed part.\<close>

theorem config_wellformed:
  assumes "config_ok C" "hev_config_parse_doc pton doc C = (res, C')"
  shows "config_ok C' \<and> (res = 0 \<longrightarrow> tcp_buffer_size C' \<le> TCP_SND_BUF \<and>
    (0 \<le> tcp_buffer_size C' \<and> 0 \<le> c_udp_copy_buffer_nums C' \<and> c_udp_copy_buffer_nums C' \<le> 1000000 \<longrightarrow>
      TASK_STACK_SIZE + max (tcp_buffer_size C') (1500 * c_udp_copy_buffer_nums C') \<le> c_task_stack_size C'))"
proof (cases "\<exists>ps. yaml_document_get_root_node doc = Some (YMapping ps)")
  case True
  then obtain ps where ps: "yaml_document_get_root_node doc = Some (YMapping ps)" by blast
  obtain r C1 where l: "parse_doc_loop pton doc (yaml_pairs doc ps) C = (r, C1)" by fastforce
  have C1: "config_ok C1" using parse_doc_loop_ok [OF assms(1), of pton doc "yaml_pairs doc ps"] l by simp
  have n: "c_udp_copy_buffer_nums (clamp_buffers C1) = c_udp_copy_buffer_nums C1"
    "0 \<le> tcp_buffer_size (clamp_buffers C1) \<Longrightarrow> 0 \<le> tcp_buffer_size C1"
    by (auto simp: clamp_buffers_def Let_def split: if_splits)
  show ?thesis
  proof (cases "r < 0")
    case True
    then show ?thesis using assms(2) C1 by (simp add: hev_config_parse_doc_def ps l)
  next
    case False
    then have "res = 0" "C' = clamp_buffers C1" using assms(2) by (simp_all add: hev_config_parse_doc_def ps l)
    then show ?thesis using clamp_ok [OF C1] clamp_stack [of C1] n by (intro conjI impI) (simp_all add: max_def)
  qed
next
  case False
  then show ?thesis using assms by (cases "yaml_document_get_root_node doc")
      (auto simp: hev_config_parse_doc_def split: yaml_node.splits)
qed

definition demo_doc :: yaml_document where
  "demo_doc = [YMapping [(2, 3), (4, 5)], YScalar (str ''socks5''), YMapping [(6, 7), (8, 9)], YScalar (str ''misc''),
     YMapping [(10, 11)], YScalar (str ''port''), YScalar (str ''1080''), YScalar (str ''address''), YScalar (str ''127.0.0.1''),
     YScalar (str ''tcp-buffer-size''), YScalar (str ''99999'')]"

lemma config_static_ok: "config_ok hev_config_static"
  by (simp add: hev_config_static_def config_ok_def server_ok_def cstr_def is_int32_def)

theorem config_wellformed_witness:
  "\<exists>res C'. hev_config_parse_doc (\<lambda>_. None) demo_doc hev_config_static = (res, C') \<and> config_ok C' \<and>
     (res = 0 \<longrightarrow> tcp_buffer_size C' \<le> 65528)"
  using config_wellformed [OF config_static_ok, of "\<lambda>_. None" demo_doc] by (metis prod.exhaust)

text \<open>Settings survive a restart: a configuration whose SOCKS5 section names no user keeps the
  credentials an earlier configuration set, so that they are sent to the new proxy, and the pipeline
  and UDP modes can be switched on but never off.\<close>

theorem config_keeps_credentials:
  assumes "hev_config_parse_socks5 doc (Some (YMapping ps)) C = (0, C')"
    and "last_value ''username'' (yaml_scalars doc (yaml_pairs doc ps)) = None"
  shows "s_user (srv C') = s_user (srv C) \<and> s_pass (srv C') = s_pass (srv C) \<and>
    (s_pipeline (srv C) \<longrightarrow> s_pipeline (srv C')) \<and> (s_udp_in_udp (srv C) \<longrightarrow> s_udp_in_udp (srv C'))"
proof -
  define kvs where "kvs = yaml_scalars doc (yaml_pairs doc ps)"
  have "\<exists>port addr pipe udpm udpa pass mark.
      C' = C\<lparr>srv := parse_socks5_server port addr pipe udpm udpa None pass mark (srv C)\<rparr>"
  proof (cases "last_value ''port'' kvs"; cases "last_value ''address'' kvs")
    fix p a
    assume "last_value ''port'' kvs = Some p" "last_value ''address'' kvs = Some a"
    then have "C' = C\<lparr>srv := parse_socks5_server p a (last_value ''pipeline'' kvs) (last_value ''udp'' kvs)
        (last_value ''udp-address'' kvs) None (last_value ''password'' kvs) (last_value ''mark'' kvs) (srv C)\<rparr>"
      using assms unfolding hev_config_parse_socks5_def Let_def option.case yaml_node.case kvs_def [symmetric]
      by (simp split: if_splits)
    then show ?thesis by blast
  qed (use assms in \<open>simp_all add: hev_config_parse_socks5_def Let_def kvs_def [symmetric] split: if_splits\<close>)
  then obtain port addr pipe udpm udpa pass mark where
    c: "C' = C\<lparr>srv := parse_socks5_server port addr pipe udpm udpa None pass mark (srv C)\<rparr>" by blast
  show ?thesis unfolding c parse_socks5_server_def Let_def
    by (cases pipe; cases udpm; cases udpa; cases mark) simp_all
qed

theorem config_keeps_credentials_witness:
  "\<exists>C'. hev_config_parse_socks5 demo_doc (Some (YMapping [(6, 7), (8, 9)]))
       (hev_config_static\<lparr>srv := (srv hev_config_static)\<lparr>s_user := Some (str ''me''), s_pass := Some (str ''pw'')\<rparr>\<rparr>) = (0, C') \<and>
     s_user (srv C') = Some (str ''me'')"
proof -
  let ?C = "hev_config_static\<lparr>srv := (srv hev_config_static)\<lparr>s_user := Some (str ''me''), s_pass := Some (str ''pw'')\<rparr>\<rparr>"
  let ?kvs = "[(str ''port'', str ''1080''), (str ''address'', str ''127.0.0.1'')]"
  have k: "yaml_scalars demo_doc (yaml_pairs demo_doc [(6, 7), (8, 9)]) = ?kvs" by code_simp
  have l: "last_value ''username'' ?kvs = None" "last_value ''password'' ?kvs = None"
      "last_value ''port'' ?kvs = Some (str ''1080'')" "last_value ''address'' ?kvs = Some (str ''127.0.0.1'')"
    by code_simp+
  have "\<exists>C'. hev_config_parse_socks5 demo_doc (Some (YMapping [(6, 7), (8, 9)])) ?C = (0, C')"
    unfolding hev_config_parse_socks5_def Let_def option.case yaml_node.case k l by simp
  moreover have "last_value ''username'' (yaml_scalars demo_doc (yaml_pairs demo_doc [(6, 7), (8, 9)])) = None"
    unfolding k by (rule l)
  ultimately show ?thesis using config_keeps_credentials [of demo_doc "[(6, 7), (8, 9)]" ?C] by fastforce
qed

end
