(* ===== verification/Session_Run.thy ===== *)
theory Session_Run
  imports Session_TCP Session_UDP Config
begin

text \<open>
  The life of a session from its start to its end (\<^verbatim>\<open>hev_socks5_session_run\<close> of
  \<^verbatim>\<open>hev-socks5-session.c\<close>): connect to the configured proxy, take over the credentials, shake hands,
  and forward until either side ends. The function is generic over the session interface; it is given
  here for each of the two classes, with the configuration as it was parsed. What lwIP does while the
  session connects and shakes hands (\<open>es\<close>, or arrivals \<open>as\<close>) touches only fields the handshake does not read, so it
  is applied before the splice; that it may terminate the session meanwhile is part of the waits of
  the handshake itself.
\<close>

definition session_auth :: "HevConfigServer \<Rightarrow> 'a HevSocks5Client_scheme \<Rightarrow> 'a HevSocks5Client_scheme" where
  "session_auth sv self =
     (if s_user sv \<noteq> None \<and> s_pass sv \<noteq> None then hev_socks5_client_set_auth self (s_user sv) (s_pass sv) else self)"

definition hev_socks5_session_run_tcp ::
  "HevSocks5Misc \<Rightarrow> resolver \<Rightarrow> net_env \<Rightarrow> (int \<Rightarrow> nat \<Rightarrow> int) \<Rightarrow> HevConfig \<Rightarrow> lw_event list \<Rightarrow> u8 list \<Rightarrow> turn list \<Rightarrow>
   HevSocks5SessionTCP \<Rightarrow> (HevSocks5SessionTCP + HevSocks5SessionTCP) option" where
  "hev_socks5_session_run_tcp G R E set_mark C es mem ts self =
     (let sv = hev_config_get_socks5_server C;
          klass = hev_socks5_session_tcp_class set_mark (s_mark sv);
          (res, self) = hev_socks5_client_connect G R E klass self (s_addr sv) (int (unat (s_port sv)))
      in if res < 0 then Some (Inl self)
         else case hev_socks5_client_handshake G klass (s_pipeline sv) (session_auth sv self) of
                None \<Rightarrow> None
              | Some (res, self) \<Rightarrow>
                  (let self = fold lw_event es self
                   in if res < 0 then Some (Inl self)
                      else Some (hev_socks5_session_tcp_splice (nat (hev_config_get_misc_tcp_buffer_size C)) mem ts self)))"

definition hev_socks5_session_udp_class ::
  "(nat \<Rightarrow> bool) \<Rightarrow> resolver \<Rightarrow> net_env \<Rightarrow> (int \<Rightarrow> nat \<Rightarrow> int) \<Rightarrow> HevConfigServer \<Rightarrow> HevSocks5ClientUDP HevSocks5ClientClass" where
  "hev_socks5_session_udp_class mok R E set_mark sv =
     (let bnd = (\<lambda>self s sa. hev_socks5_session_udp_bind set_mark (s_mark sv) self s)
      in (hev_socks5_client_udp_class mok R E)
           \<lparr>k_binder := bnd,
            set_upstream_addr := hev_socks5_session_udp_set_upstream_addr R E bnd (s_udp_in_udp sv) (s_udp_addr sv)\<rparr>)"

definition hev_socks5_session_run_udp ::
  "HevSocks5Misc \<Rightarrow> (nat \<Rightarrow> bool) \<Rightarrow> resolver \<Rightarrow> net_env \<Rightarrow> net_env \<Rightarrow> (int \<Rightarrow> nat \<Rightarrow> int) \<Rightarrow> HevConfig \<Rightarrow> udp_arrival list \<Rightarrow>
   ip_addr \<Rightarrow> u8 list list \<Rightarrow> bool list \<Rightarrow> (wait \<times> udp_arrival list \<times> bool list) list \<Rightarrow>
   HevSocks5SessionUDP \<Rightarrow> (HevSocks5SessionUDP + HevSocks5SessionUDP) option" where
  "hev_socks5_session_run_udp G mok R E E' set_mark C as undef bufs script ts self =
     (let sv = hev_config_get_socks5_server C;
          klass = hev_socks5_session_udp_class mok R E' set_mark sv;
          (res, base) = hev_socks5_client_connect G R E klass (us_base self) (s_addr sv) (int (unat (s_port sv)))
      in if res < 0 then Some (Inl (self\<lparr>us_base := base\<rparr>))
         else case hev_socks5_client_handshake G klass (s_pipeline sv) (session_auth sv base) of
                None \<Rightarrow> None
              | Some (res, base) \<Rightarrow>
                  (case udp_arrivals as (self\<lparr>us_base := base\<rparr>) of
                     None \<Rightarrow> None
                   | Some self \<Rightarrow>
                       if res < 0 then Some (Inl self)
                       else hev_socks5_session_udp_splice (nat (hev_config_get_misc_udp_copy_buffer_nums C)) undef bufs script ts self))"

subsection \<open>The session classes are client classes\<close>

interpretation tcp_session: client_class
  "hev_socks5_session_tcp_class set_mark mark :: 'a HevSocks5ClientTCP_scheme HevSocks5ClientClass"
  for set_mark mark
proof unfold_locales
  fix s t :: "'a HevSocks5ClientTCP_scheme"
  assume "HevSocks5.more s = HevSocks5.more t" "addr_family s = addr_family t"
  from tcp_client.get_stable [OF this]
  show "fst (get_upstream_addr (hev_socks5_session_tcp_class set_mark mark) s) =
      fst (get_upstream_addr (hev_socks5_session_tcp_class set_mark mark) t)"
    by (simp add: hev_socks5_session_tcp_class_def)
qed (auto simp: hev_socks5_session_tcp_class_def dest: tcp_client.get_keeps tcp_client.set_keeps)

lemma session_udp_set_keeps:
  assumes "hev_socks5_session_udp_set_upstream_addr R E bnd uu ua self addr = (r, self')"
  shows "rxq self' = rxq self \<and> txq self' = txq self \<and> sent self' = sent self \<and>
    s_type self' = s_type self \<and> addr_family self' = addr_family self"
  using assms udp_set_upstream_keeps unfolding hev_socks5_session_udp_set_upstream_addr_def Let_def by blast

interpretation udp_session: client_class "hev_socks5_session_udp_class mok R E set_mark sv"
  for mok R E set_mark sv
proof unfold_locales
  fix s t :: HevSocks5ClientUDP
  assume "HevSocks5.more s = HevSocks5.more t" "addr_family s = addr_family t"
  from udp_client.get_stable [OF this, of mok R E]
  show "fst (get_upstream_addr (hev_socks5_session_udp_class mok R E set_mark sv) s) =
      fst (get_upstream_addr (hev_socks5_session_udp_class mok R E set_mark sv) t)"
    by (simp add: hev_socks5_session_udp_class_def Let_def)
qed (auto simp: hev_socks5_session_udp_class_def Let_def dest: udp_client.get_keeps session_udp_set_keeps)

subsection \<open>The handshake leaves the session's own fields\<close>

lemma more_session:
  fixes a b :: "'a HevSocks5ClientTCP_scheme"
  assumes "HevSocks5.more a = HevSocks5.more b"
  shows "HevSocks5ClientTCP.more a = HevSocks5ClientTCP.more b"
  using assms by (cases a; cases b) simp

lemma write_request_session:
  fixes self :: "'a HevSocks5ClientTCP_scheme"
  assumes "hev_socks5_client_write_request (hev_socks5_session_tcp_class f m) self = Some (r, self')"
  shows "HevSocks5ClientTCP.more self' = HevSocks5ClientTCP.more self"
  using assms
  by (auto simp: write_request_eq hev_socks5_session_tcp_class_def hev_socks5_client_tcp_class_def
      hev_socks5_client_tcp_get_upstream_addr_def split: if_splits option.splits prod.splits
      dest!: send_keeps(4) [THEN more_session])

lemma read_response_session:
  fixes self :: "'a HevSocks5ClientTCP_scheme"
  assumes "hev_socks5_client_read_response (hev_socks5_session_tcp_class f m) self = (r, self')"
  shows "HevSocks5ClientTCP.more self' = HevSocks5ClientTCP.more self"
  using assms
  by (auto simp: hev_socks5_client_read_response_def hev_socks5_session_tcp_class_def hev_socks5_client_tcp_class_def
      hev_socks5_client_tcp_set_upstream_addr_def Let_def split: if_splits prod.splits
      dest!: recv_keeps(4) [THEN more_session])

lemmas auth_session = write_auth_methods_keeps(2) [THEN more_session] write_auth_creds_keeps(2) [THEN more_session]
  read_auth_method_keeps(2) [THEN more_session] read_auth_creds_keeps(2) [THEN more_session]
  write_request_session read_response_session

lemma handshake_standard_session:
  fixes self :: "'a HevSocks5ClientTCP_scheme"
  assumes "hev_socks5_client_handshake_standard (hev_socks5_session_tcp_class f m) self = Some (r, self')"
  shows "HevSocks5ClientTCP.more self' = HevSocks5ClientTCP.more self"
  using assms unfolding hev_socks5_client_handshake_standard_def Let_def
  by (auto split: if_splits option.splits prod.splits dest!: auth_session)

lemma handshake_pipeline_session:
  fixes self :: "'a HevSocks5ClientTCP_scheme"
  assumes "hev_socks5_client_handshake_pipeline (hev_socks5_session_tcp_class f m) self = Some (r, self')"
  shows "HevSocks5ClientTCP.more self' = HevSocks5ClientTCP.more self"
  using assms unfolding hev_socks5_client_handshake_pipeline_def Let_def
  by (auto split: if_splits option.splits prod.splits dest!: auth_session)

lemma handshake_session:
  fixes self :: "'a HevSocks5ClientTCP_scheme"
  assumes "hev_socks5_client_handshake G (hev_socks5_session_tcp_class f m) p self = Some (r, self')"
  shows "HevSocks5ClientTCP.more self' = HevSocks5ClientTCP.more self"
  using assms unfolding hev_socks5_client_handshake_def Let_def hev_socks5_set_timeout_def
  by (auto split: if_splits option.splits HevSocks5Type.splits dest!: handshake_standard_session handshake_pipeline_session)

lemma connect_session:
  fixes self :: "'a HevSocks5ClientTCP_scheme"
  assumes "hev_socks5_client_connect G R E klass self name port = (r, self')"
  shows "HevSocks5ClientTCP.more self' = HevSocks5ClientTCP.more self"
proof -
  have c: "HevSocks5ClientTCP.more b = HevSocks5ClientTCP.more a"
    if "hev_task_io_socket_connect task_io_yielder q a = (x, q', b)" for a b :: "'a HevSocks5ClientTCP_scheme" and q x q'
    using connect_keeps [OF that, THEN frz_fields] more_session [of b a] by blast
  show ?thesis using assms
    by (auto simp: hev_socks5_client_connect_def hev_socks5_set_timeout_def hev_socks5_set_addr_family_def Let_def
        split: prod.splits if_splits dest!: c)
qed

lemma connect_ok:
  "hev_socks5_client_connect G R E klass self name port = (0, self') \<Longrightarrow> rxq self' = e_rx E \<and> sent self' = []"
  by (auto simp: hev_socks5_client_connect_def hev_socks5_set_addr_family_def Let_def split: prod.splits if_splits)

text \<open>A session that is terminated before its task runs connects all the same: connecting sets the
  time-out anew.\<close>

theorem early_termination_lost:
  "hev_socks5_client_connect G R E klass (hev_socks5_session_terminate self) name port =
   hev_socks5_client_connect G R E klass self name port"
  by (simp add: hev_socks5_client_connect_def hev_socks5_session_terminate_def hev_socks5_set_timeout_def
      hev_socks5_get_addr_family_def)

subsection \<open>Properties\<close>

lemma session_fields:
  fixes a b :: HevSocks5SessionTCP
  assumes "HevSocks5ClientTCP.more a = HevSocks5ClientTCP.more b"
  shows "ts_queue a = ts_queue b \<and> ts_pcb a = ts_pcb b \<and> ts_pcb_eof a = ts_pcb_eof b \<and> lw_in a = lw_in b \<and>
    lw_window a = lw_window b \<and> lw_out a = lw_out b \<and> lw_acked a = lw_acked b \<and> lw_fin a = lw_fin b \<and>
    lw_script a = lw_script b \<and> net_in a = net_in b \<and> net_shut a = net_shut b"
  using assms by (cases a; cases b) simp

text \<open>A session that has exchanged nothing yet.\<close>

definition unused :: "HevSocks5SessionTCP \<Rightarrow> bool" where
  "unused self \<longleftrightarrow> lw_out self = [] \<and> lw_acked self = 0 \<and> net_in self = [] \<and> \<not> lw_fin self \<and> lw_script self = []"

lemma unused_event: "unused self \<Longrightarrow> unused (lw_event e self)"
  using lw_event_data [of _ self]
  by (cases e) (auto simp: unused_def lw_event_def tcp_recv_handler_def tcp_sent_handler_def tcp_err_handler_def
      hev_socks5_session_terminate_def hev_socks5_set_timeout_def Let_def split: if_splits)

lemma unused_events: "unused self \<Longrightarrow> unused (fold lw_event es self)"
  by (induction es arbitrary: self) (simp_all add: unused_event)

lemma session_new_unused:
  assumes "hev_socks5_session_tcp_new dns mok sz m ip port = Some (Some self, dns')"
  shows "unused self" "ts_queue self = []" "lw_in self = []" "lw_window self = 0" "\<not> net_shut self" "sent self = []"
  using assms
  by (auto simp: hev_socks5_session_tcp_new_def hev_socks5_session_tcp_construct_def hev_socks5_client_tcp_construct_def
      hev_socks5_client_construct_def hev_socks5_construct_def session_tcp0_def client_tcp0_def unused_def
      HevSocks5ClientTCP.defs Let_def split: if_splits option.splits prod.splits)

lemma connect_result: "hev_socks5_client_connect G R E klass self name port = (r, self') \<Longrightarrow> r = 0 \<or> r < 0"
  by (auto simp: hev_socks5_client_connect_def Let_def split: prod.splits if_splits)

lemma lw_event_sent [simp]: "sent (lw_event e self) = sent self"
  using lw_event_data [of _ self]
  by (cases e) (auto simp: lw_event_def tcp_recv_handler_def tcp_sent_handler_def tcp_err_handler_def
      hev_socks5_session_terminate_def hev_socks5_set_timeout_def Let_def split: if_splits)

lemma lw_events_sent [simp]: "sent (fold lw_event es self) = sent self"
  by (induction es arbitrary: self) simp_all

text \<open>The server's side of a handshake that was accepted.\<close>

definition accepted :: "u8 list \<Rightarrow> bool" where
  "accepted bs \<longleftrightarrow> (\<exists>m au rep rest. bs = [5, m] @ au @ rep @ rest \<and> (m = 2 \<and> au = [1, 0] \<or> m = 0 \<and> au = []) \<and> is_reply rep)"

lemma session_handshake_accepted:
  assumes "hev_socks5_client_handshake G (hev_socks5_session_tcp_class f m) p self = Some (r, self')" "0 \<le> r"
  shows "accepted (rx_data (rxq self))"
proof -
  from handshake_cases [OF assms(1)] have "r = 0 \<or> r < 0"
    by (auto simp: hev_socks5_client_handshake_standard_def hev_socks5_client_handshake_pipeline_def Let_def
        split: if_splits option.splits prod.splits)
  then have "r = 0" using assms(2) by simp
  with handshake_cases [OF assms(1)] show ?thesis unfolding accepted_def
    by (fastforce split: if_splits dest!: tcp_session.handshake_pipeline_sound tcp_session.handshake_standard_sound)
qed


definition demo_run_config :: HevConfig where
  "demo_run_config = hev_config_static\<lparr>tcp_buffer_size := 4, srv := (srv hev_config_static)\<lparr>s_addr := [49]\<rparr>\<rparr>"

lemma demo_session_new:
  "\<exists>s. hev_socks5_session_tcp_new None (\<lambda>_. True) 1000 (replicate 260 0) demo_ip 443 = Some (Some s, None)"
  by (simp add: hev_socks5_session_tcp_new_def hev_socks5_session_tcp_construct_def hev_socks5_addr_from_lwip_def
      demo_ip_def hev_socks5_client_tcp_construct_def hev_socks5_client_construct_def hev_socks5_construct_def)


end
