(* ===== verification/Tunnel_Packet.thy ===== *)
theory Tunnel_Packet
  imports Socks5_Addr
begin

text \<open>
  The packet filter of the tunnel (\<^verbatim>\<open>parse_udp_packet\<close> and \<^verbatim>\<open>send_icmp_port_unreachable\<close> of
  \<^verbatim>\<open>hev-socks5-tunnel.c\<close>): recognising IPv4 UDP packets and building the ICMP answer that makes a
  client fall back from UDP. Checksums are computed in \<^verbatim>\<open>uint32_t\<close> as the code does; the
  reference they are compared with is one's complement addition of 16-bit words.
\<close>

subsection \<open>Recognising UDP\<close>

text \<open>The result is the IP header length, 0 for a packet that is not IPv4 UDP, and the port stored
  through \<^verbatim>\<open>dst_port_out\<close>, if any.\<close>

definition parse_udp_packet :: "u8 list \<Rightarrow> nat \<Rightarrow> nat \<times> u16 option" where
  "parse_udp_packet data len =
     (if len < 28 then (0, None)
      else if drop_bit 4 (data ! 0) \<noteq> 4 then (0, None)
      else let iphdr_len = unat (data ! 0 AND 0x0F) * 4
           in if iphdr_len < 20 \<or> len < iphdr_len + 4 then (0, None)
              else if data ! 9 \<noteq> 17 then (0, None)
              else (iphdr_len, Some (mk16 (data ! (iphdr_len + 2)) (data ! (iphdr_len + 3)))))"

subsection \<open>Checksums\<close>

text \<open>The loop that adds the 16-bit words of a buffer, an odd last byte as the high half of a word,
  and the loop that folds the carries.\<close>

fun sum_words :: "u32 \<Rightarrow> u8 list \<Rightarrow> u32" where
  "sum_words s [] = s"
| "sum_words s [b] = s + push_bit 8 (ucast b)"
| "sum_words s (a # b # bs) = sum_words (s + (push_bit 8 (ucast a) OR ucast b)) bs"

function fold_carries :: "u32 \<Rightarrow> u32" where
  "fold_carries s = (if drop_bit 16 s \<noteq> 0 then fold_carries ((s AND 0xFFFF) + drop_bit 16 s) else s)"
  by auto

lemma unat_drop16: "unat (drop_bit 16 (s :: u32)) = unat s div 65536"
proof -
  have "unat (drop_bit 16 s) = drop_bit 16 (unat s)" by (rule unat_drop_bit_eq)
  also have "\<dots> = unat s div 2 ^ 16" by (rule drop_bit_eq_div)
  finally show ?thesis by simp
qed

lemma unat_and16: "unat ((s :: u32) AND 0xFFFF) = unat s mod 65536"
proof -
  have "(0xFFFF :: u32) = mask 16" by (simp add: mask_numeral)
  then have "s AND 0xFFFF = take_bit 16 s" by (simp only: take_bit_eq_mask)
  then have "unat (s AND 0xFFFF) = take_bit 16 (unat s)" by (simp only: unsigned_take_bit_eq)
  also have "\<dots> = unat s mod 2 ^ 16" by (rule take_bit_eq_mod)
  finally show ?thesis by simp
qed

lemma fold_less: "m \<noteq> 0 \<Longrightarrow> s div m \<noteq> 0 \<Longrightarrow> 1 < m \<Longrightarrow> s mod m + s div m < s" for s m :: nat
proof -
  assume a: "m \<noteq> 0" "s div m \<noteq> 0" "1 < m"
  have "s = m * (s div m) + s mod m" by simp
  moreover have "s div m < m * (s div m)" using a by simp
  ultimately show ?thesis by linarith
qed

lemma fold_le: "s mod m + s div m \<le> s" for s m :: nat
proof (cases "s div m = 0 \<or> m \<le> 1")
  case True
  then show ?thesis by (cases "m = 0") (auto simp: le_Suc_eq)
next
  case False
  then show ?thesis using fold_less [of m s] by simp
qed

lemma unat_fold_step: "unat (((s :: u32) AND 0xFFFF) + drop_bit 16 s) = unat s mod 65536 + unat s div 65536"
proof -
  have "unat s mod 65536 + unat s div 65536 < 2 ^ 32"
    using fold_le [of "unat s" 65536] unsigned_less [of s, where 'a = nat] by simp
  then show ?thesis by (simp only: unat_word_ariths(1) unat_drop16 unat_and16) simp
qed

termination fold_carries
proof (relation "measure unat")
  fix s :: u32
  assume "drop_bit 16 s \<noteq> 0"
  then have "unat s div 65536 \<noteq> 0" by (metis unat_drop16 unat_eq_zero)
  then have "unat s mod 65536 + unat s div 65536 < unat s" by (intro fold_less) simp_all
  then show "((s AND 0xFFFF) + drop_bit 16 s, s) \<in> measure unat" by (simp only: in_measure unat_fold_step)
qed simp

declare fold_carries.simps [simp del]

text \<open>\<^verbatim>\<open>cksum = ~sum & 0xFFFF\<close> after folding.\<close>

definition checksum :: "u8 list \<Rightarrow> u16" where
  "checksum bs = ucast (NOT (fold_carries (sum_words 0 bs)) AND 0xFFFF)"

definition cksum_bytes :: "u16 \<Rightarrow> u8 list" where
  "cksum_bytes c = [ucast (drop_bit 8 c AND 0xFF), ucast (c AND 0xFF)]"

subsection \<open>The ICMP answer\<close>

text \<open>
  The buffer filled by \<^verbatim>\<open>send_icmp_port_unreachable\<close> and handed to the interface: \<open>None\<close> when the
  function returns without sending (a packet shorter than the part to quote, or no buffer). The
  lengths are \<^verbatim>\<open>uint16_t\<close> and at most 96 for the header lengths an IPv4 packet can have.
\<close>

definition send_icmp_port_unreachable :: "bool \<Rightarrow> u8 list \<Rightarrow> nat \<Rightarrow> nat \<Rightarrow> u8 list option" where
  "send_icmp_port_unreachable pbuf_ok orig orig_len iphdr_len =
     (let icmp_data_len = iphdr_len + 8
      in if orig_len < icmp_data_len then None
         else let icmp_total = 8 + icmp_data_len;
                  ip_total = 20 + icmp_total
              in if \<not> pbuf_ok then None
                 else let out = replicate ip_total 0;
                          out = out[0 := 0x45];
                          out = mem_write out 2 (cksum_bytes (of_nat ip_total));
                          out = out[8 := 64];
                          out = out[9 := 1];
                          out = mem_write out 12 (mem_read orig 16 4);
                          out = mem_write out 16 (mem_read orig 12 4);
                          out = mem_write out 10 (cksum_bytes (checksum (mem_read out 0 20)));
                          out = out[20 := 3];
                          out = out[21 := 3];
                          out = mem_write out 28 (mem_read orig 0 icmp_data_len);
                          out = mem_write out 22 (cksum_bytes (checksum (mem_read out 20 icmp_total)))
                      in Some out)"

subsection \<open>The reference: one's complement sums\<close>

text \<open>The sum of the big-endian 16-bit words of a buffer, and one's complement addition as the
  internet checksum (RFC 1071) uses it; a receiver accepts a buffer when the words, the checksum
  among them, add up to \<open>0xFFFF\<close>.\<close>

fun words :: "u8 list \<Rightarrow> nat list" where
  "words [] = []"
| "words [b] = [256 * unat b]"
| "words (a # b # bs) = (256 * unat a + unat b) # words bs"

definition ones_add :: "nat \<Rightarrow> nat \<Rightarrow> nat" where
  "ones_add a b = (if a + b < 65536 then a + b else a + b - 65535)"

definition inet_valid :: "u8 list \<Rightarrow> bool" where
  "inet_valid bs \<longleftrightarrow> foldl ones_add 0 (words bs) = 65535"

definition canon :: "nat \<Rightarrow> nat" where
  "canon s = (if s = 0 then 0 else (s - 1) mod 65535 + 1)"

lemma canon_small: "s \<le> 65535 \<Longrightarrow> canon s = s"
  by (auto simp: canon_def)

lemma canon_fold: "canon (s mod 65536 + s div 65536) = canon s"
proof (cases "s = 0")
  case False
  define q r where "q = s div 65536" and "r = s mod 65536"
  have s: "s = 65536 * q + r" unfolding q_def r_def by simp
  then have t: "r + q \<noteq> 0" using False by auto
  have "s - 1 = r + q - 1 + 65535 * q" using s t by linarith
  then have "(s - 1) mod 65535 = (r + q - 1) mod 65535" by simp
  with False t show ?thesis unfolding q_def r_def by (simp add: canon_def)
qed (simp add: canon_def)

lemma canon_ones_add:
  assumes "b \<le> 65535"
  shows "ones_add (canon s) b = canon (s + b)"
proof (cases "s = 0")
  case True
  with assms show ?thesis by (simp add: canon_small ones_add_def)
next
  case False
  define r where "r = (s - 1) mod 65535"
  have "(s + b - 1) mod 65535 = (s - 1 + b) mod 65535" using False by simp
  also have "\<dots> = (r + b) mod 65535" by (simp add: r_def mod_add_left_eq)
  also have "\<dots> = (if r + b < 65535 then r + b else r + b - 65535)"
    by (rule mod_wrap) (use assms mod_less_divisor [of 65535 "s - 1"] in \<open>simp add: r_def\<close>)
  finally have m: "(s + b - 1) mod 65535 = (if r + b < 65535 then r + b else r + b - 65535)" .
  have "canon s = r + 1" "canon (s + b) = (s + b - 1) mod 65535 + 1" using False by (simp_all add: canon_def r_def)
  then show ?thesis unfolding m ones_add_def by auto
qed

lemma words_bound: "\<forall>w\<in>set (words bs). w \<le> 65535"
proof (induction bs rule: words.induct)
  case (2 b)
  then show ?case using unat_u8_less [of b] by simp
next
  case (3 a b bs)
  then show ?case using unat_u8_less [of a] unat_u8_less [of b] by simp
qed simp

lemma foldl_ones_add:
  "\<forall>w\<in>set ws. w \<le> 65535 \<Longrightarrow> foldl ones_add (canon s) ws = canon (s + sum_list ws)"
  by (induction ws arbitrary: s) (simp_all add: canon_ones_add add.assoc)

lemma inet_valid_iff: "inet_valid bs \<longleftrightarrow> sum_list (words bs) \<noteq> 0 \<and> 65535 dvd sum_list (words bs)"
proof -
  have "foldl ones_add 0 (words bs) = canon (sum_list (words bs))"
    using foldl_ones_add [OF words_bound, of 0 bs] by (simp add: canon_small)
  moreover have "canon s = 65535 \<longleftrightarrow> s \<noteq> 0 \<and> 65535 dvd s" for s
  proof (cases "s = 0")
    case False
    obtain u where u: "s = Suc u" using False by (cases s) auto
    have "Suc u mod 65535 = (if Suc (u mod 65535) = 65535 then 0 else Suc (u mod 65535))" by (rule mod_Suc)
    with u show ?thesis by (auto simp: canon_def dvd_eq_mod_eq_0 split: if_splits)
  qed (simp add: canon_def)
  ultimately show ?thesis unfolding inet_valid_def by (simp only:)
qed

subsection \<open>The code's checksum against the reference\<close>

lemma sum_list_words_bound: "sum_list (words bs) \<le> 65535 * length bs"
proof (induction bs rule: words.induct)
  case (2 b)
  then show ?case using unat_u8_less [of b] by simp
next
  case (3 a b bs)
  then show ?case using unat_u8_less [of a] unat_u8_less [of b] by simp
qed simp

lemma unat_pair: "unat (push_bit 8 (ucast a :: u32) OR ucast (b :: u8)) = 256 * unat (a :: u8) + unat b"
proof -
  have "push_bit 8 (ucast a :: u32) OR ucast b = push_bit 8 (ucast a) + ucast b"
    by (rule disjunctive_add [symmetric]) (auto simp: bit_simps dest: bit_imp_le_length)
  moreover have "unat a < 256" "unat b < 256" by (rule unat_u8_less)+
  ultimately show ?thesis
    by (simp add: unat_word_ariths push_bit_eq_mult unsigned_ucast_eq take_bit_eq_mod)
qed

lemma unat_sum_words:
  "unat s + 65535 * length bs < 2 ^ 32 \<Longrightarrow> unat (sum_words s bs) = unat s + sum_list (words bs)"
proof (induction s bs rule: sum_words.induct)
  case (2 s b)
  have b: "unat b < 256" by (rule unat_u8_less)
  have "unat (push_bit 8 (ucast b :: u32)) = 256 * unat b"
    using b by (simp add: push_bit_eq_mult unat_word_ariths unsigned_ucast_eq take_bit_eq_mod)
  with 2 b show ?case by (simp add: unat_word_ariths)
next
  case (3 s a b bs)
  have b: "unat a < 256" "unat b < 256" by (rule unat_u8_less)+
  have p: "unat (s + (push_bit 8 (ucast a) OR ucast b)) = unat s + (256 * unat a + unat b)"
    using b 3(2) by (simp add: unat_word_ariths(1) unat_pair)
  have "unat (s + (push_bit 8 (ucast a) OR ucast b)) + 65535 * length bs < 2 ^ 32"
    using 3(2) b unfolding p by simp
  from 3(1) [OF this] show ?case by (simp add: p)
qed simp

lemma unat_fold_carries: "unat (fold_carries s) = canon (unat s)"
proof (induction s rule: fold_carries.induct)
  case (1 s)
  show ?case
  proof (cases "drop_bit 16 s = 0")
    case True
    then have "unat s div 65536 = 0" by (metis unat_drop16 unat_0)
    then have "unat s \<le> 65535" by (simp add: div_eq_0_iff)
    with True show ?thesis by (simp add: fold_carries.simps canon_small)
  next
    case False
    from 1 [OF False] have "unat (fold_carries s) = canon (unat ((s AND 0xFFFF) + drop_bit 16 s))"
      using False by (subst fold_carries.simps) simp
    then show ?thesis unfolding unat_fold_step canon_fold .
  qed
qed

lemma canon_le: "canon s \<le> 65535"
proof (cases "s = 0")
  case False
  have "(s - 1) mod 65535 < 65535" by simp
  with False show ?thesis by (simp add: canon_def)
qed (simp add: canon_def)

lemma unat_not_u32: "unat (NOT (s :: u32)) = 2 ^ 32 - 1 - unat s"
proof -
  have "NOT s = -1 - s" by (simp add: not_eq_complement)
  moreover have "s \<le> -1" by simp
  moreover have "unat (-1 :: u32) = 2 ^ 32 - 1" by (simp add: unsigned_minus_1_eq_mask mask_eq_exp_minus_1)
  ultimately show ?thesis by (simp add: unat_sub)
qed

lemma unat_checksum:
  assumes "65535 * length bs < 2 ^ 32"
  shows "unat (checksum bs) = 65535 - canon (sum_list (words bs))"
proof -
  define s where "s = fold_carries (sum_words 0 bs)"
  have s: "unat s = canon (sum_list (words bs))"
    using unat_sum_words [of 0 bs] assms by (simp add: s_def unat_fold_carries)
  have le: "unat s \<le> 65535" unfolding s by (rule canon_le)
  have "unat (NOT s AND 0xFFFF) = (2 ^ 32 - 1 - unat s) mod 65536" by (simp only: unat_and16 unat_not_u32)
  also have "2 ^ 32 - 1 - unat s = 65535 - unat s + 65535 * 65536" using le by simp
  also have "(65535 - unat s + 65535 * 65536) mod 65536 = 65535 - unat s" by (simp only: mod_mult_self1) simp
  finally have u: "unat (NOT s AND 0xFFFF) = 65535 - unat s" .
  then have "unat (checksum bs) = (65535 - unat s) mod 65536"
    by (simp add: checksum_def s_def unsigned_ucast_eq take_bit_eq_mod)
  then show ?thesis using s by simp
qed

lemma sum_words_put:
  "2 * k + 2 \<le> length bs \<Longrightarrow> bs ! (2 * k) = 0 \<Longrightarrow> bs ! Suc (2 * k) = 0 \<Longrightarrow>
   sum_list (words (mem_write bs (2 * k) [h, l])) = sum_list (words bs) + (256 * unat h + unat l)"
proof (induction k arbitrary: bs)
  case 0
  then obtain bs' where "bs = 0 # 0 # bs'" by (cases bs; cases "tl bs") auto
  then show ?case by (simp add: mem_write_def)
next
  case (Suc k)
  then obtain a b bs' where bs: "bs = a # b # bs'" by (cases bs; cases "tl bs") auto
  with Suc.prems have "2 * k + 2 \<le> length bs'" "bs' ! (2 * k) = 0" "bs' ! Suc (2 * k) = 0" by simp_all
  from Suc.IH [OF this] show ?case by (simp add: bs mem_write_def)
qed

lemma cksum_bytes_be16: "cksum_bytes c = be16 c"
proof -
  have "ucast (w AND 0xFF) = (ucast w :: u8)" for w :: u16
  proof -
    have m: "(0xFF :: u16) = mask 8" by (simp add: mask_numeral)
    show ?thesis unfolding m by (rule bit_word_eqI) (auto simp: bit_simps simp del: mask_numeral)
  qed
  then show ?thesis by (simp add: cksum_bytes_def be16_def hi8_def lo8_def)
qed

lemma canon_cong: "65535 dvd s + (65535 - canon s)"
proof (cases "s = 0")
  case False
  define u where "u = s - 1"
  have s: "s = u + 1" using False by (simp add: u_def)
  have "u mod 65535 < 65535" "u = 65535 * (u div 65535) + u mod 65535" by simp_all
  then have "u + 65534 - u mod 65535 = 65534 + 65535 * (u div 65535)" by linarith
  then have "s + (65535 - canon s) = 65535 * (u div 65535) + 65535" by (simp add: s canon_def)
  also have "\<dots> = 65535 * (u div 65535 + 1)" by simp
  finally show ?thesis by (metis dvd_triv_left)
qed (simp add: canon_def)

lemma checksum_valid:
  assumes "2 * k + 2 \<le> length bs" "bs ! (2 * k) = 0" "bs ! (2 * k + 1) = 0" "65535 * length bs < 2 ^ 32"
  shows "inet_valid (mem_write bs (2 * k) (cksum_bytes (checksum bs)))"
proof -
  let ?c = "checksum bs" and ?s = "sum_list (words bs)"
  have "256 * unat (hi8 ?c) + unat (lo8 ?c) = unat ?c" using unat_mk16 [of "hi8 ?c" "lo8 ?c"] by simp
  then have e: "sum_list (words (mem_write bs (2 * k) (cksum_bytes ?c))) = ?s + (65535 - canon ?s)"
    using sum_words_put [OF assms(1,2) assms(3) [unfolded Suc_eq_plus1 [symmetric]], of "hi8 ?c" "lo8 ?c"] unat_checksum [OF assms(4)]
    by (simp add: cksum_bytes_be16 be16_def)
  have "?s + (65535 - canon ?s) \<noteq> 0" by (cases "?s = 0") (simp_all add: canon_def)
  then show ?thesis unfolding inet_valid_iff e using canon_cong by blast
qed

subsection \<open>The shape of the answer\<close>

definition icmp_ip_head :: "u16 \<Rightarrow> u8 list \<Rightarrow> u8 list \<Rightarrow> u8 list" where
  "icmp_ip_head len src dst = [0x45, 0] @ be16 len @ [0, 0, 0, 0, 64, 1, 0, 0] @ src @ dst"

definition icmp_body :: "u8 list \<Rightarrow> u8 list" where
  "icmp_body quoted = [3, 3, 0, 0, 0, 0, 0, 0] @ quoted"

lemma mem_write_append_left:
  "off + length xs \<le> length a \<Longrightarrow> mem_write (a @ b) off xs = mem_write a off xs @ b"
  by (simp add: mem_write_def)

lemma mem_write_append_right:
  "mem_write (a @ b) (length a + off) xs = a @ mem_write b off xs"
  by (simp add: mem_write_def)

lemma four_cells:
  assumes "length xs = 4"
  obtains a b c d where "xs = [a, b, c, d]"
  using assms by (auto simp: length_Suc_conv eval_nat_numeral)

lemma send_icmp_shape:
  assumes "20 \<le> n" "n + 8 \<le> orig_len" "orig_len \<le> length orig"
  defines "H \<equiv> icmp_ip_head (of_nat (36 + n)) (mem_read orig 16 4) (mem_read orig 12 4)"
    and "I \<equiv> icmp_body (mem_read orig 0 (n + 8))"
  shows "send_icmp_port_unreachable True orig orig_len n =
    Some (mem_write H 10 (cksum_bytes (checksum H)) @ mem_write I 2 (cksum_bytes (checksum I)))"
proof -
  obtain s1 s2 s3 s4 where s: "mem_read orig 16 4 = [s1, s2, s3, s4]"
    by (rule four_cells [of "mem_read orig 16 4"]) (use assms(1-3) in simp_all)
  obtain d1 d2 d3 d4 where d: "mem_read orig 12 4 = [d1, d2, d3, d4]"
    by (rule four_cells [of "mem_read orig 12 4"]) (use assms(1-3) in simp_all)
  obtain t1 t2 where c: "be16 (of_nat (36 + n)) = [t1, t2]" by (simp add: be16_def)
  define Q where "Q = mem_read orig 0 (n + 8)"
  have Q: "length Q = n + 8" using assms(2,3) by (simp add: Q_def)
  have r: "replicate (20 + (8 + (n + 8))) (0 :: u8) = replicate 20 0 @ replicate 8 0 @ replicate (n + 8) 0"
    by (simp only: replicate_add)
  have H: "H = [0x45, 0, t1, t2, 0, 0, 0, 0, 64, 1, 0, 0, s1, s2, s3, s4, d1, d2, d3, d4]"
    unfolding H_def icmp_ip_head_def s d c by simp
  have e1: "mem_write (mem_write ((mem_write ((replicate 20 0 @ X)[0 := 0x45]) 2 [t1, t2])[8 := 64, 9 := 1])
      12 [s1, s2, s3, s4]) 16 [d1, d2, d3, d4] = H @ X" for X
    by (simp add: H mem_write_def eval_nat_numeral)
  have lH: "length H = 20" by (simp add: H)
  have I: "I = [3, 3, 0, 0, 0, 0, 0, 0] @ Q" by (simp add: I_def icmp_body_def Q_def)
  define H' where "H' = mem_write H 10 (cksum_bytes (checksum H))"
  have lH': "length H' = 20" by (simp add: H'_def lH cksum_bytes_be16)
  have e2: "mem_write (H @ X) 10 (cksum_bytes (checksum (mem_read (H @ X) 0 20))) = H' @ X" for X
    using lH by (simp add: H'_def mem_read_def mem_write_append_left cksum_bytes_be16)
  have e3: "mem_write ((H' @ replicate 8 0 @ replicate (n + 8) 0)[20 := 3, 21 := 3]) 28 Q = H' @ I"
  proof -
    have "(H' @ replicate 8 0 @ replicate (n + 8) 0)[20 := 3, 21 := 3] = H' @ [3, 3, 0, 0, 0, 0, 0, 0] @ replicate (n + 8) 0"
      using lH' by (simp add: list_update_append eval_nat_numeral)
    then show ?thesis
      using mem_write_append_right [of H' "[3, 3, 0, 0, 0, 0, 0, 0] @ replicate (n + 8) 0" 8 Q] lH' Q
      by (simp add: I mem_write_def)
  qed
  have e4: "mem_write (H' @ I) 22 (cksum_bytes (checksum (mem_read (H' @ I) 20 (8 + (n + 8))))) =
      H' @ mem_write I 2 (cksum_bytes (checksum I))"
    using mem_write_append_right [of H' I 2 "cksum_bytes (checksum I)"] lH' Q
    by (simp add: mem_read_def I)
  have "(36 + n :: nat) = 20 + (8 + (n + 8))" by simp
  then have c': "cksum_bytes (of_nat (20 + (8 + (n + 8)))) = [t1, t2]" using c unfolding cksum_bytes_be16 by metis
  show ?thesis
    unfolding send_icmp_port_unreachable_def Let_def r s d c' Q_def [symmetric] e1 e2 e3 e4 H'_def [symmetric]
    using assms(2) by simp
qed

lemma unat_and_0F: "unat ((b :: u8) AND 0x0F) < 16"
proof -
  have "(0x0F :: u8) = mask 4" by (simp add: mask_numeral)
  then have "b AND 0x0F = take_bit 4 b" by (simp only: take_bit_eq_mask)
  then have "unat (b AND 0x0F) = take_bit 4 (unat b)" by (simp only: unsigned_take_bit_eq)
  then show ?thesis using take_bit_nat_less_exp [of 4 "unat b"] by simp
qed

text \<open>The parser never reads past the packet, and accepts exactly the IPv4 UDP packets whose header
  and destination port are in it.\<close>

lemma parse_udp_within: "parse_udp_packet (take len data) len = parse_udp_packet data len"
  by (auto simp: parse_udp_packet_def Let_def)

lemma parse_udp_accepts:
  assumes "parse_udp_packet data len = (n, port)"
  shows "n \<noteq> 0 \<longleftrightarrow> 28 \<le> len \<and> drop_bit 4 (data ! 0) = 4 \<and> data ! 9 = 17 \<and>
      20 \<le> 4 * unat (data ! 0 AND 0x0F) \<and> 4 * unat (data ! 0 AND 0x0F) + 4 \<le> len"
    and "n \<noteq> 0 \<Longrightarrow> n = 4 * unat (data ! 0 AND 0x0F) \<and> 20 \<le> n \<and> n \<le> 60 \<and>
      port = Some (mk16 (data ! (n + 2)) (data ! (n + 3)))"
    and "n = 0 \<Longrightarrow> port = None"
  using assms unat_and_0F [of "data ! 0"]
  by (auto simp: parse_udp_packet_def Let_def not_less split: if_splits)

subsection \<open>Properties\<close>

text \<open>C33 The ICMP answer to a rejected packet is a well-formed IPv4 packet: its length field is its
  length, the IP header and the ICMP message both carry a checksum that a receiver accepts, it goes
  from the destination of the rejected packet to its source, says port unreachable, and quotes the
  IP header and the first eight bytes behind it.\<close>

theorem icmp_answer_wellformed:
  assumes "parse_udp_packet data len = (n, port)" "n \<noteq> 0" "n + 8 \<le> len" "len \<le> length data"
  shows "\<exists>p. send_icmp_port_unreachable True data len n = Some p \<and> length p = 36 + n \<and>
    mem_read p 2 2 = be16 (of_nat (length p)) \<and> p ! 9 = 1 \<and> mem_read p 20 2 = [3, 3] \<and>
    inet_valid (take 20 p) \<and> inet_valid (drop 20 p) \<and>
    mem_read p 12 4 = mem_read data 16 4 \<and> mem_read p 16 4 = mem_read data 12 4 \<and>
    drop 28 p = take (n + 8) data"
proof -
  have n: "20 \<le> n" "n \<le> 60" using parse_udp_accepts(2) [OF assms(1,2)] by simp_all
  define H where "H = icmp_ip_head (of_nat (36 + n)) (mem_read data 16 4) (mem_read data 12 4)"
  define I where "I = icmp_body (mem_read data 0 (n + 8))"
  have lH: "length H = 20" using n assms(3,4) by (simp add: H_def icmp_ip_head_def)
  have lI: "length I = n + 16" using n assms(3,4) by (simp add: I_def icmp_body_def)
  have zH: "H ! 10 = 0" "H ! 11 = 0" by (simp_all add: H_def icmp_ip_head_def be16_def)
  have zI: "I ! 2 = 0" "I ! 3 = 0" by (simp_all add: I_def icmp_body_def)
  define H' I' where "H' = mem_write H 10 (cksum_bytes (checksum H))" and "I' = mem_write I 2 (cksum_bytes (checksum I))"
  have v: "inet_valid H'" "inet_valid I'"
    unfolding H'_def I'_def using checksum_valid [of 5 H] checksum_valid [of 1 I] lH lI zH zI n by simp_all
  have l: "length H' = 20" "length I' = n + 16" using lH lI by (simp_all add: H'_def I'_def cksum_bytes_be16)
  have "send_icmp_port_unreachable True data len n = Some (H' @ I')"
    using send_icmp_shape [OF n(1) assms(3,4)] by (simp add: H'_def I'_def H_def I_def)
  moreover have "mem_read H' 2 2 = be16 (of_nat (36 + n))" "H' ! 9 = 1"
      "mem_read H' 12 4 = mem_read data 16 4" "mem_read H' 16 4 = mem_read data 12 4"
    using n assms(3,4)
    by (simp_all add: H'_def mem_write_def H_def icmp_ip_head_def cksum_bytes_be16 mem_read_def be16_def)
  moreover have "mem_read I' 0 2 = [3, 3]" "drop 8 I' = take (n + 8) data"
    by (simp_all add: I'_def mem_write_def I_def icmp_body_def cksum_bytes_be16 mem_read_def)
  ultimately show ?thesis
    using v l n assms(3,4) by (intro exI [of _ "H' @ I'"]) (simp add: mem_read_def nth_append)
qed

definition demo_quic :: "u8 list" where
  "demo_quic = [0x45, 0, 0, 30, 0, 0, 0, 0, 64, 17, 0, 0, 10, 0, 0, 2, 8, 8, 8, 8] @ [200, 1, 1, 187, 0, 10, 0, 0, 1, 2]"

lemma parse_demo_quic: "parse_udp_packet demo_quic 30 = (20, Some 443)"
  by code_simp

theorem icmp_answer_wellformed_witness:
  "\<exists>p. send_icmp_port_unreachable True demo_quic 30 20 = Some p \<and> length p = 56 \<and>
     inet_valid (take 20 p) \<and> inet_valid (drop 20 p) \<and> mem_read p 16 4 = [10, 0, 0, 2]"
proof -
  have "mem_read demo_quic 12 4 = [10, 0, 0, 2]" by (simp add: demo_quic_def mem_read_def)
  then show ?thesis using icmp_answer_wellformed [OF parse_demo_quic] by (fastforce simp: demo_quic_def)
qed

end
