(* ===== verification/Tunnel.thy ===== *)
theory Tunnel
  imports Session_Run Tunnel_Packet
begin

text \<open>
  The tunnel (\<^verbatim>\<open>hev-socks5-tunnel.c\<close>): it reads packets from the TUN device, rejects the UDP it is told
  to reject, gives the rest to lwIP, and starts a session for every TCP connection and UDP flow lwIP
  reports. The static variables of the file are a record; behind them stand the objects the tunnel
  shares with others: the session objects by address (\<open>None\<close>: no object there), the descriptors it
  opened, the protocol control blocks of the gateway, the reference counts of its tasks, and the
  packets that left it in either direction. All code runs in the tasks of one thread, which switch
  only where they yield, so each operation below is one step.
\<close>

datatype session = SessTCP HevSocks5SessionTCP | SessUDP HevSocks5SessionUDP

datatype lw_err = ERR_OK | ERR_MEM | ERR_WOULDBLOCK | ERR_RST | ERR_ABRT | ERR_IF

record HevSocks5Tunnel =
  t_run :: bool
  t_reject_quic :: int
  t_reject_non_dns_udp :: int
  t_tun_fd :: int
  t_tun_fd_local :: bool
  t_session_count :: int
  t_event_fds :: "int \<times> int"
  t_tx_packets :: "64 word"
  t_rx_packets :: "64 word"
  t_tx_bytes :: "64 word"
  t_rx_bytes :: "64 word"
  t_tcp :: ptr
  t_udp :: ptr
  t_task_event :: ptr
  t_task_lwip_io :: ptr
  t_task_lwip_timer :: ptr
  t_session_set :: lstate
  t_dns :: "HevMappedDNS option"
  t_sess :: "ptr \<Rightarrow> session option"
  t_task :: "ptr \<Rightarrow> ptr"
  t_destroyed :: "(ptr \<times> session) list"
  t_aborted :: "ptr list"
  t_open :: "int list"
  t_pcbs :: "ptr list"
  t_refs :: "ptr \<Rightarrow> nat"
  t_scripts :: "(u8 list \<times> bool) list"
  t_wire :: "u8 list list"
  t_stack :: "u8 list list"

subsection \<open>Packets to the device\<close>

text \<open>The answer of \<^verbatim>\<open>hev_tunnel_write\<close>: its result, and whether \<^verbatim>\<open>errno\<close> is \<^verbatim>\<open>EAGAIN\<close>.\<close>

definition netif_output_handler :: "int \<times> bool \<Rightarrow> u8 list \<Rightarrow> HevSocks5Tunnel \<Rightarrow> lw_err \<times> HevSocks5Tunnel" where
  "netif_output_handler ans p T =
     (let (s, again) = ans
      in if s \<le> 0 then (if again then ERR_WOULDBLOCK else ERR_IF, T)
         else (ERR_OK, T\<lparr>t_rx_packets := t_rx_packets T + 1, t_rx_bytes := t_rx_bytes T + of_int s,
                         t_wire := t_wire T @ [p]\<rparr>))"

subsection \<open>The session set\<close>

text \<open>The method table of a session object: termination and destruction, which also says whether a TCP
  connection was aborted. \<open>fuel\<close> bounds the walk over the frames of a UDP session.\<close>

fun session_terminate :: "session \<Rightarrow> session" where
  "session_terminate (SessTCP s) = SessTCP (hev_socks5_session_terminate s)"
| "session_terminate (SessUDP s) = SessUDP (session_udp_terminate s)"

fun session_timeout :: "session \<Rightarrow> int" where
  "session_timeout (SessTCP s) = timeout s"
| "session_timeout (SessUDP s) = timeout (us_base s)"

fun session_destruct :: "nat \<Rightarrow> session \<Rightarrow> bool \<times> session" where
  "session_destruct fuel (SessTCP s) = map_prod id SessTCP (hev_socks5_session_tcp_destruct s)"
| "session_destruct fuel (SessUDP s) = (False, SessUDP (snd (hev_socks5_session_udp_destruct fuel s)))"

definition terminate_at :: "ptr \<Rightarrow> HevSocks5Tunnel \<Rightarrow> HevSocks5Tunnel" where
  "terminate_at node T = T\<lparr>t_sess := (t_sess T)(node := map_option session_terminate (t_sess T node))\<rparr>"

definition session_unref :: "nat \<Rightarrow> ptr \<Rightarrow> HevSocks5Tunnel \<Rightarrow> HevSocks5Tunnel" where
  "session_unref fuel node T =
     (case t_sess T node of
        None \<Rightarrow> T
      | Some s \<Rightarrow>
          (let (aborted, s) = session_destruct fuel s
           in T\<lparr>t_sess := (t_sess T)(node := None), t_destroyed := t_destroyed T @ [(node, s)],
                t_aborted := t_aborted T @ (if aborted then [node] else [])\<rparr>))"

definition hev_socks5_tunnel_insert_session :: "HevConfig \<Rightarrow> ptr \<Rightarrow> HevSocks5Tunnel \<Rightarrow> HevSocks5Tunnel" where
  "hev_socks5_tunnel_insert_session C node T =
     (let T = T\<lparr>t_session_set := hev_list_add_tail (t_session_set T) node\<rparr>;
          T = T\<lparr>t_session_count := t_session_count T + 1\<rparr>;
          max_session_count = hev_config_get_misc_max_session_count C
      in if max_session_count = 0 \<or> t_session_count T < max_session_count then T
         else terminate_at (hev_list_first (t_session_set T)) T)"

definition hev_socks5_tunnel_delete_session :: "ptr \<Rightarrow> HevSocks5Tunnel \<Rightarrow> HevSocks5Tunnel" where
  "hev_socks5_tunnel_delete_session node T =
     T\<lparr>t_session_set := hev_list_del (t_session_set T) node, t_session_count := t_session_count T - 1\<rparr>"

definition hev_socks5_tunnel_update_session :: "HevConfig \<Rightarrow> ptr \<Rightarrow> HevSocks5Tunnel \<Rightarrow> HevSocks5Tunnel" where
  "hev_socks5_tunnel_update_session C node T =
     (if hev_config_get_misc_max_session_count C = 0 then T
      else let T = T\<lparr>t_session_set := hev_list_del (t_session_set T) node\<rparr>
           in T\<lparr>t_session_set := hev_list_add_tail (t_session_set T) node\<rparr>)"

text \<open>\<open>run_s\<close> stands for everything that happens until \<^verbatim>\<open>hev_socks5_session_run\<close> returns.\<close>

definition hev_socks5_session_task_entry ::
  "nat \<Rightarrow> (HevSocks5Tunnel \<Rightarrow> HevSocks5Tunnel) \<Rightarrow> ptr \<Rightarrow> HevSocks5Tunnel \<Rightarrow> HevSocks5Tunnel" where
  "hev_socks5_session_task_entry fuel run_s s T =
     (let T = run_s T; T = hev_socks5_tunnel_delete_session s T in session_unref fuel s T)"

subsection \<open>What lwIP reports\<close>

text \<open>
  A new TCP connection to \<open>ip\<close>, \<open>port\<close>: \<open>new\<close> is the address of the session object, \<open>task\<close> the result of
  \<^verbatim>\<open>hev_task_new\<close>. \<open>None\<close> only when the lookup in the mapped DNS leaves its array.
\<close>

definition tcp_accept_handler ::
  "HevConfig \<Rightarrow> lw_err \<Rightarrow> (nat \<Rightarrow> bool) \<Rightarrow> nat \<Rightarrow> HevSocks5Addr \<Rightarrow> ip_addr \<Rightarrow> u16 \<Rightarrow> ptr \<Rightarrow> ptr \<Rightarrow> HevSocks5Tunnel \<Rightarrow>
   (lw_err \<times> HevSocks5Tunnel) option" where
  "tcp_accept_handler C err mok sz mem ip port new task T =
     (if err \<noteq> ERR_OK then Some (err, T)
      else if \<not> t_run T then Some (ERR_RST, T)
      else case hev_socks5_session_tcp_new (t_dns T) mok sz mem ip port of
             None \<Rightarrow> None
           | Some (None, dns) \<Rightarrow> Some (ERR_MEM, T\<lparr>t_dns := dns\<rparr>)
           | Some (Some tcp, dns) \<Rightarrow>
               (let T = T\<lparr>t_dns := dns, t_sess := (t_sess T)(new \<mapsto> SessTCP tcp)\<rparr>
                in if task = NULL then Some (ERR_MEM, session_unref 0 new T)
                   else let T = T\<lparr>t_task := (t_task T)(new := task)\<rparr>
                        in Some (ERR_OK, hev_socks5_tunnel_insert_session C new T)))"

text \<open>What \<^verbatim>\<open>tcp_process\<close> of lwIP does with the result: any error but \<^verbatim>\<open>ERR_ABRT\<close> makes it abort the
  connection, which is recorded at the address of the session.\<close>

definition lwip_accepted :: "lw_err \<Rightarrow> ptr \<Rightarrow> HevSocks5Tunnel \<Rightarrow> HevSocks5Tunnel" where
  "lwip_accepted err new T =
     (if err \<noteq> ERR_OK \<and> err \<noteq> ERR_ABRT then T\<lparr>t_aborted := t_aborted T @ [new]\<rparr> else T)"

text \<open>\<^verbatim>\<open>ip_2_ip4 (addr)->addr\<close>: the four address bytes read as a little-endian number.\<close>

definition ip4_raw :: "ip_addr \<Rightarrow> u32" where
  "ip4_raw ip = push_bit 24 (ucast (ip_bytes ip ! 3)) OR push_bit 16 (ucast (ip_bytes ip ! 2)) OR
     push_bit 8 (ucast (ip_bytes ip ! 1)) OR ucast (ip_bytes ip ! 0)"

text \<open>The first datagram of a UDP flow: the flow is removed, given to the mapped DNS, left without an
  owner after its session was destroyed, or owned by a new session.\<close>

datatype udp_verdict = UdpRemove | UdpDns | UdpDestroyed | UdpSession

definition tunnel_udp_recv_handler ::
  "HevConfig \<Rightarrow> bool \<Rightarrow> lheap \<Rightarrow> (ptr \<Rightarrow> HevSocks5UDPFrame) \<Rightarrow> udp_sock \<Rightarrow> ip_addr \<Rightarrow> u16 \<Rightarrow> ptr \<Rightarrow> ptr \<Rightarrow> HevSocks5Tunnel \<Rightarrow>
   udp_verdict \<times> HevSocks5Tunnel" where
  "tunnel_udp_recv_handler C malloc_ok lh fh D addr port new task T =
     (if \<not> t_run T then (UdpRemove, T)
      else if t_dns T \<noteq> None \<and> ip_type addr = IPADDR_TYPE_V4 \<and>
              hev_config_get_mapdns_port C = int (unat port) \<and> hev_config_get_mapdns_address C = ip4_raw addr
        then (UdpDns, T)
      else case hev_socks5_session_udp_new malloc_ok (s_udp_in_udp (hev_config_get_socks5_server C)) lh fh D of
             None \<Rightarrow> (UdpRemove, T)
           | Some udp \<Rightarrow>
               (let T = T\<lparr>t_sess := (t_sess T)(new \<mapsto> SessUDP udp)\<rparr>
                in if task = NULL then (UdpDestroyed, session_unref 0 new T)
                   else let T = T\<lparr>t_task := (t_task T)(new := task)\<rparr>
                        in (UdpSession, hev_socks5_tunnel_insert_session C new T)))"

text \<open>A datagram for the mapped DNS: the answer sent, if any. \<open>b\<close> is the fresh buffer of
  \<^verbatim>\<open>UDP_BUF_SIZE\<close> bytes, \<open>p\<close> the memory that holds the query of \<open>len\<close> bytes.\<close>

definition dns_recv_handler ::
  "(HevMappedDNS \<Rightarrow> ptr) \<Rightarrow> bool \<Rightarrow> u8 list \<Rightarrow> nat \<Rightarrow> u8 list \<Rightarrow> HevSocks5Tunnel \<Rightarrow> (u8 list option \<times> HevSocks5Tunnel) option" where
  "dns_recv_handler malloc pbuf_ok p len b T =
     (if \<not> pbuf_ok then Some (None, T)
      else case t_dns T of
             None \<Rightarrow> None
           | Some dns \<Rightarrow>
               (case hev_mapped_dns_handle malloc dns p len b UDP_BUF_SIZE of
                  None \<Rightarrow> None
                | Some (res, b, dns) \<Rightarrow>
                    Some (if res < 0 then None else Some (take (nat res) b), T\<lparr>t_dns := Some dns\<rparr>)))"

subsection \<open>The tasks\<close>

text \<open>The loop of \<^verbatim>\<open>event_task_entry\<close> over the sessions, with a bound on its steps.\<close>

fun terminate_loop :: "nat \<Rightarrow> ptr \<Rightarrow> HevSocks5Tunnel \<Rightarrow> HevSocks5Tunnel option" where
  "terminate_loop 0 node T = None"
| "terminate_loop (Suc fuel) node T =
     (if node = NULL then Some T
      else let T = terminate_at node T
           in terminate_loop fuel (hev_list_node_next (t_session_set T) node) T)"

text \<open>\<^verbatim>\<open>event_task_entry\<close> from the moment its read returns to the joins.\<close>

definition event_task_entry :: "nat \<Rightarrow> HevSocks5Tunnel \<Rightarrow> HevSocks5Tunnel option" where
  "event_task_entry fuel T =
     (let T = T\<lparr>t_run := False\<rparr> in terminate_loop fuel (hev_list_first (t_session_set T)) T)"

text \<open>One round of \<^verbatim>\<open>lwip_io_task_entry\<close>: \<open>buf\<close> is the packet read, if any; the other parameters are
  whether a buffer for the ICMP answer is available, the answer of the device to it, and whether lwIP takes the packet.\<close>

definition lwip_io_turn :: "bool \<Rightarrow> int \<times> bool \<Rightarrow> bool \<Rightarrow> u8 list option \<Rightarrow> HevSocks5Tunnel \<Rightarrow> HevSocks5Tunnel" where
  "lwip_io_turn pbuf_ok ans input_ok buf T =
     (case buf of
        None \<Rightarrow> T
      | Some data \<Rightarrow>
          (let len = length data mod 65536;
               T = T\<lparr>t_tx_packets := t_tx_packets T + 1, t_tx_bytes := t_tx_bytes T + of_nat len\<rparr>;
               (iphdr_len, port) = parse_udp_packet data len;
               dst_port = (case port of None \<Rightarrow> 0 | Some p \<Rightarrow> p)
           in if iphdr_len \<noteq> 0 \<and> (t_reject_non_dns_udp T \<noteq> 0 \<and> dst_port \<noteq> 53 \<or> t_reject_quic T \<noteq> 0 \<and> dst_port = 443)
              then (case send_icmp_port_unreachable pbuf_ok data len iphdr_len of
                      None \<Rightarrow> T
                    | Some p \<Rightarrow> snd (netif_output_handler ans p T))
              else if input_ok then T\<lparr>t_stack := t_stack T @ [take len data]\<rparr> else T))"

text \<open>Round \<open>i\<close> of \<^verbatim>\<open>lwip_timer_task_entry\<close>: the timers of lwIP that run, and whether the task sleeps for
  an interval or until it is woken.\<close>

datatype lw_timer = TcpTmr | IpReassTmr | Nd6Tmr | Ip6ReassTmr

definition lwip_timer_turn :: "u32 \<Rightarrow> HevSocks5Tunnel \<Rightarrow> lw_timer list \<times> HevTaskYieldType option" where
  "lwip_timer_turn i T =
     (TcpTmr # (if i AND 3 = 0 then [IpReassTmr, Nd6Tmr, Ip6ReassTmr] else []),
      if hev_list_first (t_session_set T) \<noteq> NULL then None else Some HEV_TASK_WAITIO)"

subsection \<open>Start and end\<close>

text \<open>The answers of the system during initialisation: results of \<^verbatim>\<open>ioctl\<close> on the given device, of the
  calls that set up a device of the tunnel's own, the control blocks lwIP allocates, the descriptors
  of the socket pair, the tasks, and the memory of the mapped DNS.\<close>

record tunnel_env =
  te_nonblock :: int
  te_open :: int
  te_mtu :: int
  te_ipv4 :: int
  te_ipv6 :: int
  te_state :: int
  te_tcp :: ptr
  te_listen :: ptr
  te_udp :: ptr
  te_pair :: "(int \<times> int) option"
  te_ev_nonblock :: int
  te_task_event :: ptr
  te_task_io :: ptr
  te_task_timer :: ptr
  te_dns_mem :: "bool \<times> rbheap \<times> lheap"

definition tunnel_init :: "HevConfig \<Rightarrow> tunnel_env \<Rightarrow> int \<Rightarrow> HevSocks5Tunnel \<Rightarrow> int \<times> HevSocks5Tunnel" where
  "tunnel_init C E extern_tun_fd T =
     (if extern_tun_fd \<ge> 0 then
        (if te_nonblock E < 0 then (-1, T) else (0, T\<lparr>t_tun_fd := extern_tun_fd\<rparr>))
      else let T = T\<lparr>t_tun_fd := te_open E\<rparr>
           in if te_open E < 0 then (-1, T)
              else let T = T\<lparr>t_open := te_open E # t_open T\<rparr>
              in if te_mtu E < 0 then (-1, T)
              else if hev_config_get_tunnel_ipv4_address C \<noteq> None \<and> te_ipv4 E < 0 then (-1, T)
              else if hev_config_get_tunnel_ipv6_address C \<noteq> None \<and> te_ipv6 E < 0 then (-1, T)
              else if te_state E < 0 then (-1, T)
              else let T = (case hev_config_get_tunnel_post_up_script C of
                              None \<Rightarrow> T | Some path \<Rightarrow> T\<lparr>t_scripts := t_scripts T @ [(path, False)]\<rparr>)
                   in (0, T\<lparr>t_tun_fd_local := True\<rparr>))"

definition tunnel_fini :: "HevConfig \<Rightarrow> HevSocks5Tunnel \<Rightarrow> HevSocks5Tunnel" where
  "tunnel_fini C T =
     (if \<not> t_tun_fd_local T then T
      else let T = (case hev_config_get_tunnel_pre_down_script C of
                      None \<Rightarrow> T | Some path \<Rightarrow> T\<lparr>t_scripts := t_scripts T @ [(path, True)]\<rparr>)
           in T\<lparr>t_open := remove1 (t_tun_fd T) (t_open T), t_tun_fd_local := False, t_tun_fd := -1\<rparr>)"

text \<open>
  The gateway: a listening TCP and a UDP control block on the interface. \<open>None\<close>: a control block that
  could not be allocated is used. \<^verbatim>\<open>gateway_fini\<close> gives both back; \<open>None\<close>: one of them was given back before.
\<close>

definition gateway_init :: "tunnel_env \<Rightarrow> HevSocks5Tunnel \<Rightarrow> (int \<times> HevSocks5Tunnel) option" where
  "gateway_init E T =
     (if te_tcp E = NULL \<or> te_udp E = NULL then None
      else Some (0, T\<lparr>t_tcp := te_listen E, t_udp := te_udp E,
                      t_pcbs := (if te_listen E = NULL then [te_udp E] else [te_listen E, te_udp E]) @ t_pcbs T\<rparr>))"

definition pcb_free :: "ptr \<Rightarrow> HevSocks5Tunnel \<Rightarrow> HevSocks5Tunnel option" where
  "pcb_free p T =
     (if p = NULL then Some T else if p \<notin> set (t_pcbs T) then None else Some (T\<lparr>t_pcbs := remove1 p (t_pcbs T)\<rparr>))"

definition gateway_fini :: "HevSocks5Tunnel \<Rightarrow> HevSocks5Tunnel option" where
  "gateway_fini T = (case pcb_free (t_udp T) T of None \<Rightarrow> None | Some T \<Rightarrow> pcb_free (t_tcp T) T)"

definition task_new :: "ptr \<Rightarrow> HevSocks5Tunnel \<Rightarrow> HevSocks5Tunnel" where
  "task_new p T = (if p = NULL then T else T\<lparr>t_refs := (t_refs T)(p := 1)\<rparr>)"

definition task_unref :: "ptr \<Rightarrow> HevSocks5Tunnel \<Rightarrow> HevSocks5Tunnel" where
  "task_unref p T = T\<lparr>t_refs := (t_refs T)(p := t_refs T p - 1)\<rparr>"

definition event_task_init :: "tunnel_env \<Rightarrow> HevSocks5Tunnel \<Rightarrow> int \<times> HevSocks5Tunnel" where
  "event_task_init E T =
     (case te_pair E of
        None \<Rightarrow> (-1, T)
      | Some (a, b) \<Rightarrow>
          (let T = T\<lparr>t_event_fds := (a, b), t_open := a # b # t_open T\<rparr>
           in if te_ev_nonblock E < 0 then (-1, T)
              else let T = (task_new (te_task_event E) T)\<lparr>t_task_event := te_task_event E\<rparr>
                   in (if te_task_event E = NULL then -1 else 0, T)))"

definition fd_close :: "int \<Rightarrow> HevSocks5Tunnel \<Rightarrow> HevSocks5Tunnel" where
  "fd_close n T = (if n \<ge> 0 then T\<lparr>t_open := remove1 n (t_open T)\<rparr> else T)"

definition event_task_fini :: "HevSocks5Tunnel \<Rightarrow> HevSocks5Tunnel" where
  "event_task_fini T =
     (let T = (if t_task_event T \<noteq> NULL then (task_unref (t_task_event T) T)\<lparr>t_task_event := NULL\<rparr> else T);
          (a, b) = t_event_fds T;
          T = fd_close b (fd_close a T)
      in T\<lparr>t_event_fds := (if a \<ge> 0 then -1 else a, if b \<ge> 0 then -1 else b)\<rparr>)"

definition lwip_io_task_init :: "tunnel_env \<Rightarrow> HevSocks5Tunnel \<Rightarrow> int \<times> HevSocks5Tunnel" where
  "lwip_io_task_init E T =
     (if te_task_io E = NULL then -1 else 0, (task_new (te_task_io E) T)\<lparr>t_task_lwip_io := te_task_io E\<rparr>)"

definition lwip_io_task_fini :: "HevSocks5Tunnel \<Rightarrow> HevSocks5Tunnel" where
  "lwip_io_task_fini T =
     (if t_task_lwip_io T \<noteq> NULL then (task_unref (t_task_lwip_io T) T)\<lparr>t_task_lwip_io := NULL\<rparr> else T)"

definition lwip_timer_task_init :: "tunnel_env \<Rightarrow> HevSocks5Tunnel \<Rightarrow> int \<times> HevSocks5Tunnel" where
  "lwip_timer_task_init E T =
     (if te_task_timer E = NULL then -1 else 0, (task_new (te_task_timer E) T)\<lparr>t_task_lwip_timer := te_task_timer E\<rparr>)"

definition lwip_timer_task_fini :: "HevSocks5Tunnel \<Rightarrow> HevSocks5Tunnel" where
  "lwip_timer_task_fini T =
     (if t_task_lwip_timer T \<noteq> NULL then (task_unref (t_task_lwip_timer T) T)\<lparr>t_task_lwip_timer := NULL\<rparr> else T)"

definition mapped_dns_init :: "HevConfig \<Rightarrow> tunnel_env \<Rightarrow> HevSocks5Tunnel \<Rightarrow> int \<times> HevSocks5Tunnel" where
  "mapped_dns_init C E T =
     (let cache_size = hev_config_get_mapdns_cache_size C; (malloc_ok, th, lh) = te_dns_mem E
      in if cache_size = 0 then (0, T)
         else case hev_mapped_dns_new malloc_ok th lh (hev_config_get_mapdns_network C)
                     (hev_config_get_mapdns_netmask C) cache_size of
                None \<Rightarrow> (-1, T)
              | Some dns \<Rightarrow> (0, T\<lparr>t_dns := Some dns\<rparr>))"

definition mapped_dns_fini :: "HevSocks5Tunnel \<Rightarrow> HevSocks5Tunnel" where
  "mapped_dns_fini T = T\<lparr>t_dns := None\<rparr>"

definition hev_socks5_tunnel_fini :: "HevConfig \<Rightarrow> HevSocks5Tunnel \<Rightarrow> HevSocks5Tunnel option" where
  "hev_socks5_tunnel_fini C T =
     (let T = mapped_dns_fini T;
          T = lwip_timer_task_fini T;
          T = lwip_io_task_fini T;
          T = event_task_fini T
      in case gateway_fini T of
           None \<Rightarrow> None
         | Some T \<Rightarrow>
             (let T = tunnel_fini C T
              in Some (T\<lparr>t_tx_packets := 0, t_rx_packets := 0, t_tx_bytes := 0, t_rx_bytes := 0,
                         t_reject_quic := 1, t_reject_non_dns_udp := 0\<rparr>)))"

definition hev_socks5_tunnel_init ::
  "HevConfig \<Rightarrow> tunnel_env \<Rightarrow> int \<Rightarrow> HevSocks5Tunnel \<Rightarrow> (int \<times> HevSocks5Tunnel) option" where
  "hev_socks5_tunnel_init C E extern_tun_fd T =
     (let fail = (\<lambda>T. map_option (Pair (-1)) (hev_socks5_tunnel_fini C T));
          (res, T) = tunnel_init C E extern_tun_fd T
      in if res < 0 then fail T
         else case gateway_init E T of
           None \<Rightarrow> None
         | Some (res, T) \<Rightarrow>
             if res < 0 then fail T
             else let (res, T) = event_task_init E T
             in if res < 0 then fail T
             else let (res, T) = lwip_io_task_init E T
             in if res < 0 then fail T
             else let (res, T) = lwip_timer_task_init E T
             in if res < 0 then fail T
             else let (res, T) = mapped_dns_init C E T
             in if res < 0 then fail T else Some (0, T))"

text \<open>\<open>sys\<close> stands for \<^verbatim>\<open>hev_task_system_run\<close>, which returns when every task has ended.\<close>

definition task_ref :: "ptr \<Rightarrow> HevSocks5Tunnel \<Rightarrow> HevSocks5Tunnel" where
  "task_ref p T = T\<lparr>t_refs := (t_refs T)(p := t_refs T p + 1)\<rparr>"

definition hev_socks5_tunnel_run ::
  "(HevSocks5Tunnel \<Rightarrow> HevSocks5Tunnel option) \<Rightarrow> HevSocks5Tunnel \<Rightarrow> HevSocks5Tunnel option" where
  "hev_socks5_tunnel_run sys T =
     (let T = task_ref (t_task_event T) T;
          T = task_ref (t_task_lwip_io T) T;
          T = task_ref (t_task_lwip_timer T) T
      in sys (T\<lparr>t_run := True\<rparr>))"

definition hev_socks5_tunnel_set_reject_quic :: "int \<Rightarrow> HevSocks5Tunnel \<Rightarrow> HevSocks5Tunnel" where
  "hev_socks5_tunnel_set_reject_quic enabled T = T\<lparr>t_reject_quic := enabled\<rparr>"

definition hev_socks5_tunnel_set_reject_non_dns_udp :: "int \<Rightarrow> HevSocks5Tunnel \<Rightarrow> HevSocks5Tunnel" where
  "hev_socks5_tunnel_set_reject_non_dns_udp enabled T = T\<lparr>t_reject_non_dns_udp := enabled\<rparr>"

definition hev_socks5_tunnel_stats :: "HevSocks5Tunnel \<Rightarrow> 64 word \<times> 64 word \<times> 64 word \<times> 64 word" where
  "hev_socks5_tunnel_stats T = (t_tx_packets T, t_tx_bytes T, t_rx_packets T, t_rx_bytes T)"

subsection \<open>Invariant of the session set\<close>

text \<open>The set holds exactly the live session objects, once each, and the counter counts them.\<close>

definition sess_inv :: "HevSocks5Tunnel \<Rightarrow> ptr list \<Rightarrow> bool" where
  "sess_inv T xs \<longleftrightarrow> list_rep (t_session_set T) xs \<and> t_session_count T = int (length xs) \<and>
     (\<forall>x. x \<in> set xs \<longleftrightarrow> t_sess T x \<noteq> None)"

lemma sess_inv_cong:
  "sess_inv T xs \<Longrightarrow> t_session_set T' = t_session_set T \<Longrightarrow> t_session_count T' = t_session_count T \<Longrightarrow>
   (\<And>x. t_sess T' x = None \<longleftrightarrow> t_sess T x = None) \<Longrightarrow> sess_inv T' xs"
  by (simp add: sess_inv_def)

lemma terminate_at_simps [simp]:
  "t_session_set (terminate_at p T) = t_session_set T" "t_session_count (terminate_at p T) = t_session_count T"
  "t_run (terminate_at p T) = t_run T" "t_sess (terminate_at p T) x = None \<longleftrightarrow> t_sess T x = None"
  "dom (t_sess (terminate_at p T)) = dom (t_sess T)"
  by (auto simp: terminate_at_def dom_def)

lemma terminate_at_sess:
  "t_sess (terminate_at p T) x = (if x = p then map_option session_terminate (t_sess T x) else t_sess T x)"
  by (simp add: terminate_at_def)

lemma session_unref_fresh:
  "session_unref f x (T\<lparr>t_sess := (t_sess T)(x \<mapsto> s)\<rparr>) =
   T\<lparr>t_sess := (t_sess T)(x := None), t_destroyed := t_destroyed T @ [(x, snd (session_destruct f s))],
     t_aborted := t_aborted T @ (if fst (session_destruct f s) then [x] else [])\<rparr>"
  by (simp add: session_unref_def split: prod.split)

lemma session_unref_simps [simp]:
  "t_session_set (session_unref f x T) = t_session_set T" "t_session_count (session_unref f x T) = t_session_count T"
  "t_run (session_unref f x T) = t_run T" "t_sess (session_unref f x T) = (t_sess T)(x := None)"
  by (auto simp: session_unref_def split: option.split prod.split)

lemma insert_session_inv:
  assumes "sess_inv T xs" "x \<noteq> NULL" "t_sess T x = None"
  shows "sess_inv (hev_socks5_tunnel_insert_session C x (T\<lparr>t_sess := (t_sess T)(x \<mapsto> s), t_task := k\<rparr>)) (xs @ [x])"
proof -
  have x: "x \<notin> set xs" using assms(1,3) by (simp add: sess_inv_def)
  let ?T = "T\<lparr>t_sess := (t_sess T)(x \<mapsto> s), t_task := k, t_session_set := hev_list_add_tail (t_session_set T) x,
      t_session_count := t_session_count T + 1\<rparr>"
  have i: "sess_inv ?T (xs @ [x])"
    using assms x hl.rep_add_tail [of "t_session_set T" xs x] by (auto simp: sess_inv_def)
  show ?thesis unfolding hev_socks5_tunnel_insert_session_def Let_def
    by (rule sess_inv_cong [OF i]) (simp_all add: terminate_at_sess)
qed

lemma delete_session_inv:
  assumes "sess_inv T xs" "t_sess T x \<noteq> None"
  shows "sess_inv (session_unref f x (hev_socks5_tunnel_delete_session x T)) (remove1 x xs)"
proof -
  have x: "x \<in> set xs" "distinct xs"
    using assms hl.rep_distinct [of "t_session_set T" xs] by (auto simp: sess_inv_def)
  have n: "int (length xs) - 1 = int (length (remove1 x xs))"
    using x(1) length_pos_if_in_set [OF x(1)] by (simp add: length_remove1 of_nat_diff Suc_leI)
  have m: "y \<in> set (remove1 x xs) \<longleftrightarrow> y \<in> set xs \<and> y \<noteq> x" for y using x(2) by simp
  show ?thesis
    using assms(1) hl.rep_del [OF _ x(1), of "t_session_set T"]
    by (simp add: sess_inv_def hev_socks5_tunnel_delete_session_def n m)
qed

lemma update_session_inv:
  assumes "sess_inv T xs" "t_sess T x \<noteq> None"
  shows "sess_inv (hev_socks5_tunnel_update_session C x T)
    (if hev_config_get_misc_max_session_count C = 0 then xs else remove1 x xs @ [x])"
proof -
  have x: "x \<in> set xs" and r: "list_rep (t_session_set T) xs" using assms by (auto simp: sess_inv_def)
  show ?thesis
    using assms(1) hl.rep_touch [OF r x] hl.touch_same_nodes [OF r x]
    by (auto simp: hev_socks5_tunnel_update_session_def Let_def sess_inv_def)
qed

subsection \<open>Stopping\<close>

lemma terminate_loop_ends:
  assumes "lseg (snd (t_session_set T)) pr xs NULL" "length xs < fuel" "distinct xs"
  shows "\<exists>T'. terminate_loop fuel (first_or xs NULL) T = Some T' \<and> t_session_set T' = t_session_set T \<and>
    t_session_count T' = t_session_count T \<and> t_run T' = t_run T \<and>
    (\<forall>x. t_sess T' x = (if x \<in> set xs then map_option session_terminate (t_sess T x) else t_sess T x))"
  using assms
proof (induction xs arbitrary: pr fuel T)
  case Nil
  then show ?case by (cases fuel) auto
next
  case (Cons y ys)
  then obtain f where f: "fuel = Suc f" "length ys < f" by (cases fuel) auto
  let ?T = "terminate_at y T"
  have y: "y \<noteq> NULL" "n_next (snd (t_session_set T) y) = first_or ys NULL" "lseg (snd (t_session_set ?T)) y ys NULL"
    using Cons.prems(1) by simp_all
  from Cons.IH [OF y(3) f(2)] Cons.prems(3) obtain T' where
    T': "terminate_loop f (first_or ys NULL) ?T = Some T'" "t_session_set T' = t_session_set T"
      "t_session_count T' = t_session_count T" "t_run T' = t_run T"
      "\<And>x. t_sess T' x = (if x \<in> set ys then map_option session_terminate (t_sess ?T x) else t_sess ?T x)"
    by auto
  have "terminate_loop fuel (first_or (y # ys) NULL) T = Some T'"
    using y T'(1) by (simp add: f hev_list_node_next_def Let_def)
  with T' Cons.prems(3) show ?case by (intro exI [of _ T']) (auto simp: terminate_at_sess)
qed

lemma terminate_timeout [simp]: "session_timeout (session_terminate s) = 0"
  by (cases s) (simp_all add: hev_socks5_session_terminate_def session_udp_terminate_def hev_socks5_set_timeout_def)

lemma event_task_ends:
  assumes "sess_inv T xs" "length xs < fuel"
  shows "\<exists>T'. event_task_entry fuel T = Some T' \<and> \<not> t_run T' \<and> sess_inv T' xs \<and>
    (\<forall>x. t_sess T' x = map_option session_terminate (t_sess T x))"
proof -
  let ?T = "T\<lparr>t_run := False\<rparr>"
  have r: "list_rep (t_session_set T) xs" and s: "\<And>x. x \<in> set xs \<longleftrightarrow> t_sess T x \<noteq> None"
    using assms(1) by (simp_all add: sess_inv_def)
  from r have l: "lseg (snd (t_session_set ?T)) NULL xs NULL" "distinct xs" by (simp_all add: list_rep_def)
  from terminate_loop_ends [OF l(1) assms(2) l(2)] obtain T' where
    T': "terminate_loop fuel (first_or xs NULL) ?T = Some T'" "t_session_set T' = t_session_set T"
      "t_session_count T' = t_session_count T" "\<not> t_run T'"
      "\<And>x. t_sess T' x = (if x \<in> set xs then map_option session_terminate (t_sess T x) else t_sess T x)"
    by auto
  have e: "t_sess T' x = map_option session_terminate (t_sess T x)" for x using s [of x] T'(5) [of x] by auto
  have "sess_inv T' xs" by (rule sess_inv_cong [OF assms(1) T'(2,3)]) (simp add: e)
  moreover have "event_task_entry fuel T = Some T'"
    using T'(1) first_rep [OF r] by (simp add: event_task_entry_def)
  ultimately show ?thesis using T'(4) e by blast
qed

lemma terminate_loop_mono: "terminate_loop f node T = Some T' \<Longrightarrow> terminate_loop (f + k) node T = Some T'"
  by (induction f node T rule: terminate_loop.induct) (auto simp: Let_def split: if_splits)

lemma event_task_some:
  assumes "sess_inv T xs" "event_task_entry fuel T = Some T'"
  shows "\<not> t_run T' \<and> sess_inv T' xs \<and> (\<forall>x. t_sess T' x = map_option session_terminate (t_sess T x))"
proof -
  have "event_task_entry (fuel + Suc (length xs)) T = Some T'"
    using assms(2) terminate_loop_mono unfolding event_task_entry_def Let_def by blast
  with event_task_ends [OF assms(1), of "fuel + Suc (length xs)"] show ?thesis by auto
qed

subsection \<open>Steps\<close>

text \<open>
  What can happen to a running tunnel, in whatever order: lwIP reports a connection or a flow (the
  allocator returns an address where no session lives), the mapped DNS answers, a packet is read or
  written, a session's own code changes its object and yields, a session ends, the tunnel is told to
  stop, the filters are switched.
\<close>

inductive tunnel_step :: "HevConfig \<Rightarrow> HevSocks5Tunnel \<Rightarrow> HevSocks5Tunnel \<Rightarrow> bool" for C where
  st_accept: "new \<noteq> NULL \<Longrightarrow> t_sess T new = None \<Longrightarrow>
    tcp_accept_handler C err mok sz mem ip port new task T = Some (e, T') \<Longrightarrow> tunnel_step C T T'"
| st_udp: "new \<noteq> NULL \<Longrightarrow> t_sess T new = None \<Longrightarrow>
    tunnel_udp_recv_handler C malloc_ok lh fh D addr port new task T = (v, T') \<Longrightarrow> tunnel_step C T T'"
| st_dns: "dns_recv_handler malloc pbuf_ok p len b T = Some (r, T') \<Longrightarrow> tunnel_step C T T'"
| st_packet: "tunnel_step C T (lwip_io_turn pbuf_ok ans input_ok buf T)"
| st_output: "netif_output_handler ans p T = (e, T') \<Longrightarrow> tunnel_step C T T'"
| st_yield: "t_sess T x \<noteq> None \<Longrightarrow>
    tunnel_step C T (hev_socks5_tunnel_update_session C x (T\<lparr>t_sess := (t_sess T)(x \<mapsto> s)\<rparr>))"
| st_exit: "t_sess T x \<noteq> None \<Longrightarrow> tunnel_step C T (hev_socks5_session_task_entry fuel (\<lambda>T. T) x T)"
| st_stop: "event_task_entry fuel T = Some T' \<Longrightarrow> tunnel_step C T T'"
| st_quic: "tunnel_step C T (hev_socks5_tunnel_set_reject_quic n T)"
| st_udp_filter: "tunnel_step C T (hev_socks5_tunnel_set_reject_non_dns_udp n T)"

definition tunnel_fresh :: "HevSocks5Tunnel \<Rightarrow> bool" where
  "tunnel_fresh T \<longleftrightarrow> l_head (fst (t_session_set T)) = NULL \<and> l_tail (fst (t_session_set T)) = NULL \<and>
     t_session_count T = 0 \<and> t_sess T = (\<lambda>_. None)"

lemma tunnel_fresh_inv: "tunnel_fresh T \<Longrightarrow> sess_inv T []"
  by (simp add: tunnel_fresh_def sess_inv_def list_rep_def)

text \<open>What an operation leaves of the sessions, when it starts none.\<close>

lemma output_frame:
  "netif_output_handler ans p T = (e, T') \<Longrightarrow>
   t_session_set T' = t_session_set T \<and> t_session_count T' = t_session_count T \<and> t_sess T' = t_sess T \<and> t_run T' = t_run T"
  by (auto simp: netif_output_handler_def split: prod.splits if_splits)

lemma io_turn_frame:
  "t_session_set (lwip_io_turn ok ans i buf T) = t_session_set T \<and>
   t_session_count (lwip_io_turn ok ans i buf T) = t_session_count T \<and> t_sess (lwip_io_turn ok ans i buf T) = t_sess T \<and>
   t_run (lwip_io_turn ok ans i buf T) = t_run T"
  by (auto simp: lwip_io_turn_def netif_output_handler_def Let_def split: option.split prod.split)

lemma dns_frame:
  "dns_recv_handler malloc ok p len b T = Some (r, T') \<Longrightarrow>
   t_session_set T' = t_session_set T \<and> t_session_count T' = t_session_count T \<and> t_sess T' = t_sess T \<and> t_run T' = t_run T"
  by (auto simp: dns_recv_handler_def split: if_splits option.splits prod.splits)

text \<open>A connection is refused, its session is destroyed at once, or it is inserted.\<close>

lemma accept_cases:
  assumes "tcp_accept_handler C err mok sz mem ip port new task T = Some (e, T')" "t_sess T new = None"
  shows "(t_session_set T' = t_session_set T \<and> t_session_count T' = t_session_count T \<and> t_sess T' = t_sess T \<and> t_run T' = t_run T) \<or>
    (\<exists>dns s k. e = ERR_OK \<and> t_run T \<and>
       T' = hev_socks5_tunnel_insert_session C new (T\<lparr>t_dns := dns, t_sess := (t_sess T)(new \<mapsto> s), t_task := k\<rparr>))"
  using assms unfolding tcp_accept_handler_def
  by (auto simp: Let_def fun_upd_idem split: if_splits option.splits prod.splits)

lemma udp_cases:
  assumes "tunnel_udp_recv_handler C ok lh fh D addr port new task T = (v, T')" "t_sess T new = None"
  shows "(t_session_set T' = t_session_set T \<and> t_session_count T' = t_session_count T \<and> t_sess T' = t_sess T \<and> t_run T' = t_run T) \<or>
    (\<exists>s k. v = UdpSession \<and> t_run T \<and>
       T' = hev_socks5_tunnel_insert_session C new (T\<lparr>t_sess := (t_sess T)(new \<mapsto> s), t_task := k\<rparr>))"
  using assms unfolding tunnel_udp_recv_handler_def
  by (auto simp: Let_def fun_upd_idem split: if_splits option.splits prod.splits)

lemma sess_inv_same:
  "sess_inv T xs \<Longrightarrow> t_session_set T' = t_session_set T \<and> t_session_count T' = t_session_count T \<and> t_sess T' = t_sess T \<and> r \<Longrightarrow>
   sess_inv T' xs"
  by (simp add: sess_inv_def)

lemma tunnel_step_inv:
  assumes "tunnel_step C T T'" "sess_inv T xs"
  shows "\<exists>ys. sess_inv T' ys"
  using assms
proof cases
  case (st_accept new err mok sz mem ip port task e)
  from accept_cases [OF this(3,2)] show ?thesis
  proof (elim disjE exE conjE)
    fix dns s k
    assume e: "T' = hev_socks5_tunnel_insert_session C new (T\<lparr>t_dns := dns, t_sess := (t_sess T)(new \<mapsto> s), t_task := k\<rparr>)"
    have "sess_inv (T\<lparr>t_dns := dns\<rparr>) xs" using assms(2) by (simp add: sess_inv_def)
    from insert_session_inv [OF this st_accept(1)] st_accept(2) show ?thesis unfolding e by auto
  qed (use sess_inv_same [OF assms(2)] in blast)
next
  case (st_udp new malloc_ok lh fh D addr port task v)
  from udp_cases [OF this(3,2)] show ?thesis
    using sess_inv_same [OF assms(2)] insert_session_inv [OF assms(2) st_udp(1,2)] by blast
next
  case st_dns
  with sess_inv_same [OF assms(2) dns_frame] show ?thesis by blast
next
  case st_packet
  then show ?thesis using sess_inv_same [OF assms(2) io_turn_frame] by blast
next
  case st_output
  with sess_inv_same [OF assms(2) output_frame] show ?thesis by blast
next
  case (st_yield x s)
  have "sess_inv (T\<lparr>t_sess := (t_sess T)(x \<mapsto> s)\<rparr>) xs" using assms(2) st_yield(2) by (auto simp: sess_inv_def)
  from update_session_inv [OF this, of x C] show ?thesis unfolding st_yield(1) by auto
next
  case (st_exit x fuel)
  then show ?thesis using delete_session_inv [OF assms(2), of x fuel]
    by (auto simp: hev_socks5_session_task_entry_def)
next
  case (st_stop fuel)
  then show ?thesis using event_task_some [OF assms(2)] by blast
qed (use assms(2) in \<open>auto simp: sess_inv_def hev_socks5_tunnel_set_reject_quic_def hev_socks5_tunnel_set_reject_non_dns_udp_def\<close>)

lemma tunnel_reach_inv:
  assumes "(tunnel_step C)\<^sup>*\<^sup>* T0 T" "sess_inv T0 xs"
  shows "\<exists>ys. sess_inv T ys"
  using assms by (induction rule: rtranclp_induct) (auto dest: tunnel_step_inv)

lemma insert_session_run [simp]: "t_run (hev_socks5_tunnel_insert_session C x T) = t_run T"
  by (simp add: hev_socks5_tunnel_insert_session_def Let_def)

text \<open>A tunnel that was told to stop stays stopped and starts no session.\<close>

lemma stopped_step:
  assumes "tunnel_step C T T'" "sess_inv T xs" "\<not> t_run T"
  shows "\<not> t_run T' \<and> dom (t_sess T') \<subseteq> dom (t_sess T)"
  using assms(1)
proof cases
  case st_accept
  from accept_cases [OF this(3,2)] assms(3) show ?thesis by auto
next
  case st_udp
  from udp_cases [OF this(3,2)] assms(3) show ?thesis by auto
next
  case st_dns
  from dns_frame [OF this] assms(3) show ?thesis by auto
next
  case (st_packet ok ans i buf)
  then show ?thesis using io_turn_frame [of ok ans i buf T] assms(3) by auto
next
  case st_output
  from output_frame [OF this] assms(3) show ?thesis by auto
next
  case (st_stop fuel)
  from event_task_some [OF assms(2) this] show ?thesis by (auto simp: dom_def)
qed (use assms(3) in \<open>auto simp: hev_socks5_tunnel_update_session_def hev_socks5_session_task_entry_def
  hev_socks5_tunnel_delete_session_def hev_socks5_tunnel_set_reject_quic_def hev_socks5_tunnel_set_reject_non_dns_udp_def Let_def dom_def\<close>)

lemma stopped_steps:
  assumes "(tunnel_step C)\<^sup>*\<^sup>* T T'" "sess_inv T xs" "\<not> t_run T"
  shows "\<not> t_run T' \<and> dom (t_sess T') \<subseteq> dom (t_sess T)"
  using assms(1)
proof (induction rule: rtranclp_induct)
  case (step U V)
  obtain ys where "sess_inv U ys" using tunnel_reach_inv [OF step(1) assms(2)] by blast
  from stopped_step [OF step(2) this] step(3) show ?case by blast
qed (use assms(3) in simp)

subsection \<open>Resources\<close>

text \<open>
  What an initialised, or partly initialised, tunnel holds is what its variables say: the descriptors
  of the event pair in front of \<open>rest\<close>, one reference to each of its tasks, and the two control blocks.
\<close>

definition fds_held :: "HevSocks5Tunnel \<Rightarrow> int list \<Rightarrow> bool" where
  "fds_held T rest \<longleftrightarrow> t_event_fds T = (-1, -1) \<and> t_open T = rest \<or>
     (\<exists>a b. 0 \<le> a \<and> 0 \<le> b \<and> a \<noteq> b \<and> t_event_fds T = (a, b) \<and> t_open T = a # b # rest)"

definition refs_of :: "(ptr \<Rightarrow> nat) \<Rightarrow> ptr \<Rightarrow> ptr \<Rightarrow> ptr \<Rightarrow> bool" where
  "refs_of R e i m \<longleftrightarrow> R = (\<lambda>p. if p \<noteq> NULL \<and> (p = e \<or> p = i \<or> p = m) then 1 else 0) \<and>
     (e = i \<longrightarrow> e = NULL) \<and> (e = m \<longrightarrow> e = NULL) \<and> (i = m \<longrightarrow> i = NULL)"

definition tasks_held :: "HevSocks5Tunnel \<Rightarrow> bool" where
  "tasks_held T \<longleftrightarrow> refs_of (t_refs T) (t_task_event T) (t_task_lwip_io T) (t_task_lwip_timer T)"

definition pcbs_held :: "HevSocks5Tunnel \<Rightarrow> bool" where
  "pcbs_held T \<longleftrightarrow> t_pcbs T = filter (\<lambda>p. p \<noteq> NULL) [t_tcp T, t_udp T] \<and> (t_tcp T = t_udp T \<longrightarrow> t_tcp T = NULL)"

definition released :: "HevSocks5Tunnel \<Rightarrow> bool" where
  "released T \<longleftrightarrow> t_open T = [] \<and> t_pcbs T = [] \<and> (\<forall>p. t_refs T p = 0) \<and> t_dns T = None \<and> t_event_fds T = (-1, -1)"

lemma fd_close_frame [simp]:
  "t_refs (fd_close n T) = t_refs T" "t_tun_fd (fd_close n T) = t_tun_fd T" "t_tun_fd_local (fd_close n T) = t_tun_fd_local T"
  "t_dns (fd_close n T) = t_dns T" "t_pcbs (fd_close n T) = t_pcbs T" "t_tcp (fd_close n T) = t_tcp T" "t_udp (fd_close n T) = t_udp T"
  by (simp_all add: fd_close_def)

lemma event_fini_frame [simp]:
  "t_refs (event_task_fini T) =
     (if t_task_event T \<noteq> NULL then (t_refs T)(t_task_event T := t_refs T (t_task_event T) - 1) else t_refs T)"
  "t_tun_fd (event_task_fini T) = t_tun_fd T" "t_tun_fd_local (event_task_fini T) = t_tun_fd_local T"
  "t_dns (event_task_fini T) = t_dns T" "t_pcbs (event_task_fini T) = t_pcbs T"
  "t_tcp (event_task_fini T) = t_tcp T" "t_udp (event_task_fini T) = t_udp T"
  by (cases "t_event_fds T"; simp add: event_task_fini_def task_unref_def Let_def)+

lemma io_fini_frame [simp]:
  "t_refs (lwip_io_task_fini T) =
     (if t_task_lwip_io T \<noteq> NULL then (t_refs T)(t_task_lwip_io T := t_refs T (t_task_lwip_io T) - 1) else t_refs T)"
  "t_tun_fd (lwip_io_task_fini T) = t_tun_fd T" "t_tun_fd_local (lwip_io_task_fini T) = t_tun_fd_local T"
  "t_dns (lwip_io_task_fini T) = t_dns T" "t_pcbs (lwip_io_task_fini T) = t_pcbs T"
  "t_tcp (lwip_io_task_fini T) = t_tcp T" "t_udp (lwip_io_task_fini T) = t_udp T"
  "t_event_fds (lwip_io_task_fini T) = t_event_fds T" "t_open (lwip_io_task_fini T) = t_open T"
  "t_task_event (lwip_io_task_fini T) = t_task_event T"
  by (simp_all add: lwip_io_task_fini_def task_unref_def)

lemma timer_fini_frame [simp]:
  "t_refs (lwip_timer_task_fini T) =
     (if t_task_lwip_timer T \<noteq> NULL then (t_refs T)(t_task_lwip_timer T := t_refs T (t_task_lwip_timer T) - 1) else t_refs T)"
  "t_tun_fd (lwip_timer_task_fini T) = t_tun_fd T" "t_tun_fd_local (lwip_timer_task_fini T) = t_tun_fd_local T"
  "t_dns (lwip_timer_task_fini T) = t_dns T" "t_pcbs (lwip_timer_task_fini T) = t_pcbs T"
  "t_tcp (lwip_timer_task_fini T) = t_tcp T" "t_udp (lwip_timer_task_fini T) = t_udp T"
  "t_event_fds (lwip_timer_task_fini T) = t_event_fds T" "t_open (lwip_timer_task_fini T) = t_open T"
  "t_task_event (lwip_timer_task_fini T) = t_task_event T" "t_task_lwip_io (lwip_timer_task_fini T) = t_task_lwip_io T"
  by (simp_all add: lwip_timer_task_fini_def task_unref_def)

lemma tasks_fini:
  assumes "tasks_held T"
  shows "t_refs (event_task_fini (lwip_io_task_fini (lwip_timer_task_fini T))) = (\<lambda>_. 0)"
proof -
  define e i m where "e = t_task_event T" and "i = t_task_lwip_io T" and "m = t_task_lwip_timer T"
  have "t_refs T = (\<lambda>p. if p \<noteq> NULL \<and> (p = e \<or> p = i \<or> p = m) then 1 else 0)"
    "e = i \<longrightarrow> e = NULL" "e = m \<longrightarrow> e = NULL" "i = m \<longrightarrow> i = NULL"
    using assms unfolding tasks_held_def refs_of_def e_def i_def m_def by blast+
  then show ?thesis
    by (simp only: event_fini_frame io_fini_frame timer_fini_frame e_def [symmetric] i_def [symmetric] m_def [symmetric])
      (cases "e = NULL"; cases "i = NULL"; cases "m = NULL"; auto simp: fun_eq_iff)
qed

lemma fds_fini:
  assumes "fds_held T rest"
  shows "t_open (event_task_fini T) = rest" "t_event_fds (event_task_fini T) = (-1, -1)"
  using assms by (auto simp: fds_held_def event_task_fini_def task_unref_def fd_close_def)

lemma pcbs_fini:
  assumes "pcbs_held T"
  shows "gateway_fini T = Some (T\<lparr>t_pcbs := []\<rparr>)"
  using assms by (auto simp: pcbs_held_def gateway_fini_def pcb_free_def)

lemma tunnel_fini_held:
  assumes "fds_held T rest" "tasks_held T" "pcbs_held T"
  shows "\<exists>T'. hev_socks5_tunnel_fini C T = Some T' \<and>
    t_open T' = (if t_tun_fd_local T then remove1 (t_tun_fd T) rest else rest) \<and>
    t_pcbs T' = [] \<and> t_refs T' = (\<lambda>_. 0) \<and> t_dns T' = None \<and> t_event_fds T' = (-1, -1)"
proof -
  define U where "U = event_task_fini (lwip_io_task_fini (lwip_timer_task_fini (mapped_dns_fini T)))"
  have f: "t_tun_fd U = t_tun_fd T" "t_tun_fd_local U = t_tun_fd_local T" "t_dns U = None"
      "t_pcbs U = t_pcbs T" "t_tcp U = t_tcp T" "t_udp U = t_udp T"
    by (simp_all add: U_def mapped_dns_fini_def)
  have p: "gateway_fini U = Some (U\<lparr>t_pcbs := []\<rparr>)"
    by (rule pcbs_fini) (use assms(3) f in \<open>simp add: pcbs_held_def\<close>)
  have r: "t_refs U = (\<lambda>_. 0)" unfolding U_def
    by (rule tasks_fini) (use assms(2) in \<open>simp add: tasks_held_def mapped_dns_fini_def\<close>)
  have d: "t_open U = rest" "t_event_fds U = (-1, -1)" unfolding U_def
    by (rule fds_fini; use assms(1) in \<open>simp add: fds_held_def mapped_dns_fini_def\<close>)+
  have "hev_socks5_tunnel_fini C T = Some ((tunnel_fini C (U\<lparr>t_pcbs := []\<rparr>))\<lparr>t_tx_packets := 0, t_rx_packets := 0,
      t_tx_bytes := 0, t_rx_bytes := 0, t_reject_quic := 1, t_reject_non_dns_udp := 0\<rparr>)"
    using p by (simp add: hev_socks5_tunnel_fini_def U_def)
  then show ?thesis using f r d by (auto simp: tunnel_fini_def Let_def split: option.split)
qed

text \<open>Each step of the initialisation keeps what the variables say.\<close>

definition env_ok :: "tunnel_env \<Rightarrow> bool" where
  "env_ok E \<longleftrightarrow> te_tcp E \<noteq> NULL \<and> te_udp E \<noteq> NULL \<and> te_listen E \<noteq> te_udp E \<and>
     pred_option (\<lambda>(a, b). 0 \<le> a \<and> 0 \<le> b \<and> a \<noteq> b) (te_pair E) \<and>
     distinct (filter (\<lambda>p. p \<noteq> NULL) [te_task_event E, te_task_io E, te_task_timer E])"

definition tunnel_idle :: "HevSocks5Tunnel \<Rightarrow> bool" where
  "tunnel_idle T \<longleftrightarrow> released T \<and> t_task_event T = NULL \<and> t_task_lwip_io T = NULL \<and> t_task_lwip_timer T = NULL \<and>
     \<not> t_tun_fd_local T"

lemma idle_held: "tunnel_idle T \<Longrightarrow> fds_held T [] \<and> tasks_held T"
  by (auto simp: tunnel_idle_def released_def fds_held_def tasks_held_def refs_of_def)

lemma event_init_held:
  assumes "env_ok E" "event_task_init E T = (r, T')" "t_event_fds T = (-1, -1)" "t_open T = rest"
    "t_refs T = (\<lambda>_. 0)" "t_task_event T = NULL" "t_task_lwip_io T = NULL" "t_task_lwip_timer T = NULL"
  shows "fds_held T' rest \<and> tasks_held T' \<and> t_task_lwip_io T' = NULL \<and> t_task_lwip_timer T' = NULL \<and>
    (t_task_event T' = NULL \<or> t_task_event T' = te_task_event E) \<and>
    t_tcp T' = t_tcp T \<and> t_udp T' = t_udp T \<and> t_pcbs T' = t_pcbs T \<and> t_tun_fd T' = t_tun_fd T \<and> t_tun_fd_local T' = t_tun_fd_local T"
  using assms
  by (auto simp: event_task_init_def env_ok_def fds_held_def tasks_held_def refs_of_def task_new_def Let_def fun_eq_iff
      split: option.splits if_splits prod.splits)

text \<open>Two states that hold the same descriptors and control blocks.\<close>

definition same_fds :: "HevSocks5Tunnel \<Rightarrow> HevSocks5Tunnel \<Rightarrow> bool" where
  "same_fds T T' \<longleftrightarrow> t_event_fds T' = t_event_fds T \<and> t_open T' = t_open T \<and> t_tcp T' = t_tcp T \<and> t_udp T' = t_udp T \<and>
     t_pcbs T' = t_pcbs T \<and> t_tun_fd T' = t_tun_fd T \<and> t_tun_fd_local T' = t_tun_fd_local T"

lemma same_fds_held:
  "same_fds T T' \<Longrightarrow> fds_held T rest \<Longrightarrow> fds_held T' rest" "same_fds T T' \<Longrightarrow> pcbs_held T \<Longrightarrow> pcbs_held T'"
  by (simp_all add: same_fds_def fds_held_def pcbs_held_def)

lemma refs_of_new:
  assumes "refs_of R e NULL NULL" "e = NULL \<or> i \<noteq> e"
  shows "refs_of (if i = NULL then R else R(i := 1)) e i NULL"
  using assms by (auto simp: refs_of_def fun_eq_iff)

lemma refs_of_last:
  assumes "refs_of R e i NULL" "e = NULL \<or> m \<noteq> e" "i = NULL \<or> m \<noteq> i"
  shows "refs_of (if m = NULL then R else R(m := 1)) e i m"
  using assms by (auto simp: refs_of_def fun_eq_iff)

lemma task_new_frame [simp]:
  "t_refs (task_new p T) = (if p = NULL then t_refs T else (t_refs T)(p := 1))"
  "t_task_event (task_new p T) = t_task_event T" "t_task_lwip_io (task_new p T) = t_task_lwip_io T"
  "t_task_lwip_timer (task_new p T) = t_task_lwip_timer T" "same_fds T (task_new p T)"
  by (simp_all add: task_new_def same_fds_def)

lemma env_ok_tasks:
  assumes "env_ok E" "e = NULL \<or> e = te_task_event E"
  shows "e = NULL \<or> te_task_io E \<noteq> e" "e = NULL \<or> te_task_timer E \<noteq> e" "te_task_io E = NULL \<or> te_task_timer E \<noteq> te_task_io E"
  using assms by (auto simp: env_ok_def split: if_splits)

lemma io_init_held:
  assumes "env_ok E" "lwip_io_task_init E T = (r, T')" "tasks_held T" "t_task_lwip_io T = NULL" "t_task_lwip_timer T = NULL"
    "t_task_event T = NULL \<or> t_task_event T = te_task_event E"
  shows "same_fds T T' \<and> tasks_held T' \<and> t_task_lwip_timer T' = NULL \<and> t_task_event T' = t_task_event T \<and>
    t_task_lwip_io T' = te_task_io E"
proof -
  have T': "T' = (task_new (te_task_io E) T)\<lparr>t_task_lwip_io := te_task_io E\<rparr>"
    using assms(2) by (simp add: lwip_io_task_init_def)
  have "refs_of (t_refs T) (t_task_event T) NULL NULL" using assms(3,4,5) by (simp add: tasks_held_def)
  from refs_of_new [OF this env_ok_tasks(1) [OF assms(1,6)]] show ?thesis
    using assms(5) by (simp add: T' tasks_held_def same_fds_def task_new_def split: if_splits)
qed

lemma timer_init_held:
  assumes "env_ok E" "lwip_timer_task_init E T = (r, T')" "tasks_held T" "t_task_lwip_timer T = NULL"
    "t_task_event T = NULL \<or> t_task_event T = te_task_event E" "t_task_lwip_io T = te_task_io E"
  shows "same_fds T T' \<and> tasks_held T'"
proof -
  have T': "T' = (task_new (te_task_timer E) T)\<lparr>t_task_lwip_timer := te_task_timer E\<rparr>"
    using assms(2) by (simp add: lwip_timer_task_init_def)
  have "refs_of (t_refs T) (t_task_event T) (te_task_io E) NULL" using assms(3,4,6) by (simp add: tasks_held_def)
  from refs_of_last [OF this env_ok_tasks(2,3) [OF assms(1,5)]] show ?thesis
    using assms(6) by (simp add: T' tasks_held_def same_fds_def task_new_def split: if_splits)
qed

lemma dns_init_held:
  assumes "mapped_dns_init C E T = (r, T')" "tasks_held T"
  shows "same_fds T T' \<and> tasks_held T'"
proof -
  have "\<exists>d. T' = T\<lparr>t_dns := d\<rparr>"
    using assms(1) unfolding mapped_dns_init_def Let_def
    by (cases "te_dns_mem E") (auto split: if_splits option.splits intro: exI [of _ "t_dns T"])
  with assms(2) show ?thesis by (auto simp: same_fds_def tasks_held_def)
qed

text \<open>The device: on success \<open>rest\<close> is the descriptor of the tunnel's own device, on failure it may be left behind.\<close>

definition device_leaked :: "HevConfig \<Rightarrow> tunnel_env \<Rightarrow> int \<Rightarrow> bool" where
  "device_leaked C E extern_tun_fd \<longleftrightarrow> extern_tun_fd < 0 \<and> 0 \<le> te_open E \<and>
     (te_mtu E < 0 \<or> hev_config_get_tunnel_ipv4_address C \<noteq> None \<and> te_ipv4 E < 0 \<or>
      hev_config_get_tunnel_ipv6_address C \<noteq> None \<and> te_ipv6 E < 0 \<or> te_state E < 0)"

lemma tunnel_init_device:
  assumes "tunnel_init C E fd0 T = (r, T')" "t_open T = []" "\<not> t_tun_fd_local T"
  shows "t_open T' = (if device_leaked C E fd0 then [te_open E] else if r = 0 \<and> fd0 < 0 then [t_tun_fd T'] else []) \<and>
    (r = 0 \<or> r = -1) \<and> (device_leaked C E fd0 \<longrightarrow> r = -1) \<and> (t_tun_fd_local T' \<longleftrightarrow> r = 0 \<and> fd0 < 0) \<and>
    t_event_fds T' = t_event_fds T \<and> t_refs T' = t_refs T \<and> t_task_event T' = t_task_event T \<and>
    t_task_lwip_io T' = t_task_lwip_io T \<and> t_task_lwip_timer T' = t_task_lwip_timer T \<and> t_pcbs T' = t_pcbs T \<and>
    t_tcp T' = t_tcp T \<and> t_udp T' = t_udp T \<and> t_dns T' = t_dns T"
  using assms unfolding tunnel_init_def device_leaked_def Let_def
  by (auto split: if_splits option.splits)

text \<open>The steps after the device: whatever they return, the state they leave can be torn down.\<close>

definition can_fini :: "HevSocks5Tunnel \<Rightarrow> int list \<Rightarrow> bool" where
  "can_fini T rest \<longleftrightarrow> fds_held T rest \<and> tasks_held T \<and> pcbs_held T"

lemma can_fini_released:
  assumes "can_fini T rest" "rest = (if t_tun_fd_local T then [t_tun_fd T] else [])"
  shows "\<exists>T'. hev_socks5_tunnel_fini C T = Some T' \<and> released T'"
proof -
  from assms(1) have "fds_held T rest" "tasks_held T" "pcbs_held T" by (simp_all add: can_fini_def)
  from tunnel_fini_held [OF this, of C] show ?thesis using assms(2) by (auto simp: released_def)
qed

lemma can_fini_same: "can_fini T rest \<Longrightarrow> same_fds T T' \<Longrightarrow> tasks_held T' \<Longrightarrow> can_fini T' rest"
  by (simp add: can_fini_def same_fds_held)

lemma init_fail:
  assumes "can_fini T rest" "rest = (if t_tun_fd_local T then [t_tun_fd T] else [])"
  shows "\<exists>T'. map_option (Pair (-1)) (hev_socks5_tunnel_fini C T) = Some (-1 :: int, T') \<and> released T'"
  using can_fini_released [OF assms, of C] by auto

lemma init_tail:
  assumes "env_ok E" "gateway_init E T = Some (g, T0)" "tunnel_idle (T\<lparr>t_open := [], t_tun_fd_local := False\<rparr>)"
    "t_open T = (if t_tun_fd_local T then [t_tun_fd T] else [])"
  shows "\<exists>res T'. (let (res, T) = event_task_init E T0
             in if res < 0 then map_option (Pair (-1)) (hev_socks5_tunnel_fini C T)
             else let (res, T) = lwip_io_task_init E T
             in if res < 0 then map_option (Pair (-1)) (hev_socks5_tunnel_fini C T)
             else let (res, T) = lwip_timer_task_init E T
             in if res < 0 then map_option (Pair (-1)) (hev_socks5_tunnel_fini C T)
             else let (res, T) = mapped_dns_init C E T
             in if res < 0 then map_option (Pair (-1)) (hev_socks5_tunnel_fini C T) else Some (0, T)) = Some (res, T') \<and>
     (res = 0 \<and> (\<exists>T''. hev_socks5_tunnel_fini C T' = Some T'' \<and> released T'') \<or> res = -1 \<and> released T')"
proof -
  define rest where "rest = (if t_tun_fd_local T then [t_tun_fd T] else [])"
  have T0: "T0 = T\<lparr>t_tcp := te_listen E, t_udp := te_udp E, t_pcbs := filter (\<lambda>p. p \<noteq> NULL) [te_listen E, te_udp E]\<rparr>"
    using assms(1,2,3) by (simp add: gateway_init_def env_ok_def tunnel_idle_def released_def split: if_splits)
  have g: "t_open T0 = rest" "t_event_fds T0 = (-1, -1)" "t_refs T0 = (\<lambda>_. 0)" "t_task_event T0 = NULL"
      "t_task_lwip_io T0 = NULL" "t_task_lwip_timer T0 = NULL" "pcbs_held T0"
      "t_tun_fd T0 = t_tun_fd T" "t_tun_fd_local T0 = t_tun_fd_local T"
    using assms(1,3,4) by (simp_all add: T0 rest_def env_ok_def tunnel_idle_def released_def pcbs_held_def fun_eq_iff)
  obtain r1 T1 where e1: "event_task_init E T0 = (r1, T1)" by fastforce
  note h1 = event_init_held [OF assms(1) e1 g(2) g(1) g(3) g(4) g(5) g(6)]
  have c1: "can_fini T1 rest" using h1 g(7) by (simp add: can_fini_def pcbs_held_def)
  obtain r2 T2 where e2: "lwip_io_task_init E T1 = (r2, T2)" by fastforce
  note h2 = io_init_held [OF assms(1) e2]
  have s2: "same_fds T1 T2 \<and> tasks_held T2 \<and> t_task_lwip_timer T2 = NULL \<and> t_task_event T2 = t_task_event T1 \<and>
    t_task_lwip_io T2 = te_task_io E" by (rule h2) (use h1 in simp_all)
  obtain r3 T3 where e3: "lwip_timer_task_init E T2 = (r3, T3)" by fastforce
  have s3: "same_fds T2 T3 \<and> tasks_held T3" by (rule timer_init_held [OF assms(1) e3]) (use h1 s2 in simp_all)
  obtain r4 T4 where e4: "mapped_dns_init C E T3 = (r4, T4)" by fastforce
  have s4: "same_fds T3 T4 \<and> tasks_held T4" by (rule dns_init_held [OF e4]) (use s3 in simp)
  have c: "can_fini T2 rest" "can_fini T3 rest" "can_fini T4 rest" using c1 s2 s3 s4 can_fini_same by blast+
  have d: "rest = (if t_tun_fd_local U then [t_tun_fd U] else [])" if "U = T1 \<or> U = T2 \<or> U = T3 \<or> U = T4" for U
    using that h1 s2 s3 s4 g(8,9) by (auto simp: rest_def same_fds_def)
  note f = init_fail [OF c1 d, of C] init_fail [OF c(1) d, of C] init_fail [OF c(2) d, of C] init_fail [OF c(3) d, of C]
    can_fini_released [OF c(3) d, of C]
  show ?thesis unfolding e1 e2 e3 e4 Let_def prod.case using f by simp metis
qed

subsection \<open>Properties\<close>

text \<open>C8 In every state a tunnel reaches, whatever lwIP, the sessions and the device do, the session set
  is a well-formed list that holds exactly the live session objects, each once, and the session
  counter is its length: no session is lost, and none that was destroyed is reachable from the set.\<close>

theorem tunnel_session_set:
  assumes "tunnel_fresh T0" "(tunnel_step C)\<^sup>*\<^sup>* T0 T"
  shows "\<exists>xs. list_rep (t_session_set T) xs \<and> distinct xs \<and> t_session_count T = int (length xs) \<and>
    (\<forall>x. x \<in> set xs \<longleftrightarrow> t_sess T x \<noteq> None)"
proof -
  from tunnel_reach_inv [OF assms(2) tunnel_fresh_inv [OF assms(1)]] obtain xs where "sess_inv T xs" by blast
  then show ?thesis using hl.rep_distinct [of "t_session_set T" xs] by (auto simp: sess_inv_def intro!: exI [of _ xs])
qed

definition demo_tunnel :: HevSocks5Tunnel where
  "demo_tunnel =
     \<lparr>t_run = True, t_reject_quic = 1, t_reject_non_dns_udp = 0, t_tun_fd = -1, t_tun_fd_local = False, t_session_count = 0,
      t_event_fds = (-1, -1), t_tx_packets = 0, t_rx_packets = 0, t_tx_bytes = 0, t_rx_bytes = 0, t_tcp = NULL, t_udp = NULL,
      t_task_event = NULL, t_task_lwip_io = NULL, t_task_lwip_timer = NULL,
      t_session_set = empty_list (\<lambda>_. \<lparr>n_next = 0, n_prev = 0\<rparr>), t_dns = None, t_sess = (\<lambda>_. None), t_task = (\<lambda>_. 0),
      t_destroyed = [], t_aborted = [], t_open = [], t_pcbs = [], t_refs = (\<lambda>_. 0), t_scripts = [], t_wire = [], t_stack = []\<rparr>"

definition demo_limit :: HevConfig where
  "demo_limit = hev_config_static\<lparr>max_session_count := 1\<rparr>"

lemma demo_tunnel_fresh: "tunnel_fresh demo_tunnel"
  by (simp add: tunnel_fresh_def demo_tunnel_def empty_list_def)

lemma demo_accept:
  obtains T' where
    "tcp_accept_handler demo_limit ERR_OK (\<lambda>_. True) 1000 (replicate 260 0) demo_ip 443 100 7 demo_tunnel = Some (ERR_OK, T')"
proof -
  have "t_run demo_tunnel" "t_dns demo_tunnel = None" by (simp_all add: demo_tunnel_def)
  with demo_session_new that show ?thesis unfolding tcp_accept_handler_def Let_def by fastforce
qed

lemma demo_accept_step:
  assumes "tcp_accept_handler demo_limit ERR_OK (\<lambda>_. True) 1000 (replicate 260 0) demo_ip 443 100 7 demo_tunnel = Some (ERR_OK, T')"
  shows "(tunnel_step demo_limit)\<^sup>*\<^sup>* demo_tunnel T'"
  by (rule r_into_rtranclp, rule st_accept [OF _ _ assms]) (simp_all add: demo_tunnel_def)

theorem tunnel_session_set_witness:
  "\<exists>T' xs. (tunnel_step demo_limit)\<^sup>*\<^sup>* demo_tunnel T' \<and> list_rep (t_session_set T') xs \<and> t_session_count T' = int (length xs)"
proof -
  obtain T' where
    "tcp_accept_handler demo_limit ERR_OK (\<lambda>_. True) 1000 (replicate 260 0) demo_ip 443 100 7 demo_tunnel = Some (ERR_OK, T')"
    by (rule demo_accept)
  note s = demo_accept_step [OF this]
  from tunnel_session_set [OF demo_tunnel_fresh s] s show ?thesis by blast
qed

text \<open>C9 Telling a tunnel to stop takes effect: the walk over the sessions ends, every session is
  terminated (its timeout is zero), and from then on the tunnel starts no session, so that the ones it had can only
  end.\<close>

theorem tunnel_stop:
  assumes "tunnel_fresh T0" "(tunnel_step C)\<^sup>*\<^sup>* T0 T" "t_session_count T < int fuel"
  shows "\<exists>T'. event_task_entry fuel T = Some T' \<and> dom (t_sess T') = dom (t_sess T) \<and>
    (\<forall>x s. t_sess T' x = Some s \<longrightarrow> session_timeout s = 0) \<and>
    (\<forall>T''. (tunnel_step C)\<^sup>*\<^sup>* T' T'' \<longrightarrow> \<not> t_run T'' \<and> dom (t_sess T'') \<subseteq> dom (t_sess T'))"
proof -
  from tunnel_reach_inv [OF assms(2) tunnel_fresh_inv [OF assms(1)]] obtain xs where i: "sess_inv T xs" by blast
  then have "length xs < fuel" using assms(3) by (simp add: sess_inv_def)
  from event_task_ends [OF i this] obtain T' where
    T': "event_task_entry fuel T = Some T'" "\<not> t_run T'" "sess_inv T' xs"
      "\<And>x. t_sess T' x = map_option session_terminate (t_sess T x)" by blast
  have "dom (t_sess T') = dom (t_sess T)" using T'(4) by (auto simp: dom_def)
  moreover have "\<forall>x s. t_sess T' x = Some s \<longrightarrow> session_timeout s = 0" using T'(4) by auto
  ultimately show ?thesis using T'(1) stopped_steps [OF _ T'(3,2)] by blast
qed

theorem tunnel_stop_witness:
  "\<exists>T'. event_task_entry 1 demo_tunnel = Some T' \<and> \<not> t_run T'"
  using tunnel_stop [OF demo_tunnel_fresh rtranclp.rtrancl_refl, of 1 demo_limit] by (auto simp: demo_tunnel_def)

text \<open>C31 The session limit evicts the session that was active least recently: the set is in order of last activity (a session
  that yields moves to its end, a new one is put there), and accepting a connection that makes the
  number of sessions reach the limit terminates the first session of that order and no other; below the limit, or
  without one, no session is touched.\<close>

theorem tunnel_limit:
  assumes "list_rep (t_session_set T) xs" "t_session_count T = int (length xs)" "new \<noteq> NULL" "new \<notin> set xs"
    "tcp_accept_handler C ERR_OK mok sz mem ip port new task T = Some (ERR_OK, T')"
  shows "list_rep (t_session_set T') (xs @ [new]) \<and>
    (\<forall>x. x \<noteq> new \<longrightarrow> t_sess T' x =
      (if max_session_count C \<noteq> 0 \<and> max_session_count C \<le> int (length xs) + 1 \<and> xs \<noteq> [] \<and> x = hd xs
       then map_option session_terminate (t_sess T x) else t_sess T x)) \<and>
    (max_session_count C \<noteq> 0 \<longrightarrow> (\<forall>x \<in> set xs.
      list_rep (t_session_set (hev_socks5_tunnel_update_session C x T)) (remove1 x xs @ [x])))"
proof -
  obtain dns s k where e: "T' = hev_socks5_tunnel_insert_session C new (T\<lparr>t_dns := dns, t_sess := (t_sess T)(new \<mapsto> s), t_task := k\<rparr>)"
    using assms(5) unfolding tcp_accept_handler_def Let_def by (auto split: if_splits option.splits)
  note r = hl.rep_add_tail [OF assms(1,4,3)]
  have f: "hev_list_first (hev_list_add_tail (t_session_set T) new) = (if xs = [] then new else hd xs)"
    using first_rep [OF r] by (cases xs) simp_all
  have u: "list_rep (t_session_set (hev_socks5_tunnel_update_session C x T)) (remove1 x xs @ [x])"
    if "max_session_count C \<noteq> 0" "x \<in> set xs" for x
    using that hl.rep_touch [OF assms(1) that(2)]
    by (simp add: hev_socks5_tunnel_update_session_def hev_config_get_misc_max_session_count_def)
  have "list_rep (t_session_set T') (xs @ [new])"
    using r by (simp add: e hev_socks5_tunnel_insert_session_def Let_def)
  moreover have "t_sess T' x =
      (if max_session_count C \<noteq> 0 \<and> max_session_count C \<le> int (length xs) + 1 \<and> xs \<noteq> [] \<and> x = hd xs
       then map_option session_terminate (t_sess T x) else t_sess T x)" if "x \<noteq> new" for x
    using that assms(2) f
    by (auto simp: e hev_socks5_tunnel_insert_session_def Let_def terminate_at_sess hev_config_get_misc_max_session_count_def)
  ultimately show ?thesis using u by blast
qed

theorem tunnel_limit_witness:
  "\<exists>T'. tcp_accept_handler demo_limit ERR_OK (\<lambda>_. True) 1000 (replicate 260 0) demo_ip 443 100 7 demo_tunnel = Some (ERR_OK, T') \<and>
     list_rep (t_session_set T') [100]"
proof -
  obtain T' where
    a: "tcp_accept_handler demo_limit ERR_OK (\<lambda>_. True) 1000 (replicate 260 0) demo_ip 443 100 7 demo_tunnel = Some (ERR_OK, T')"
    by (rule demo_accept)
  have "list_rep (t_session_set demo_tunnel) []" "t_session_count demo_tunnel = int (length [])"
    by (simp_all add: demo_tunnel_def)
  from tunnel_limit [OF this _ _ a] a show ?thesis by simp
qed

text \<open>The destination port of an IPv4 UDP packet, as RFC 791 and RFC 768 place it.\<close>

definition udp4_port :: "u8 list \<Rightarrow> u16 option" where
  "udp4_port d =
     (let n = 4 * unat (d ! 0 AND 0x0F)
      in if 28 \<le> length d \<and> drop_bit 4 (d ! 0) = 4 \<and> d ! 9 = 17 \<and> 20 \<le> n \<and> n + 4 \<le> length d
         then Some (mk16 (d ! (n + 2)) (d ! (n + 3))) else None)"

lemma parse_udp4:
  "parse_udp_packet d (length d) =
     (case udp4_port d of None \<Rightarrow> (0, None) | Some port \<Rightarrow> (4 * unat (d ! 0 AND 0x0F), Some port))"
  by (auto simp: parse_udp_packet_def udp4_port_def Let_def mult.commute split: if_splits)

lemma udp4_port_header: "udp4_port d = Some port \<Longrightarrow> 4 * unat (d ! 0 AND 0x0F) \<noteq> 0"
  by (auto simp: udp4_port_def Let_def split: if_splits)

lemma icmp_pbuf: "send_icmp_port_unreachable ok d n h = Some p \<Longrightarrow> send_icmp_port_unreachable True d n h = Some p"
  by (cases ok) (auto simp: send_icmp_port_unreachable_def Let_def)




definition demo_tunnel_env :: tunnel_env where
  "demo_tunnel_env =
     \<lparr>te_nonblock = 0, te_open = 5, te_mtu = 0, te_ipv4 = 0, te_ipv6 = 0, te_state = 0, te_tcp = 1000, te_listen = 2000, te_udp = 3000,
      te_pair = Some (6, 7), te_ev_nonblock = 0, te_task_event = 10, te_task_io = 20, te_task_timer = 30,
      te_dns_mem = (True, (\<lambda>_. \<lparr>rb_pc = 0, rb_right = 0, rb_left = 0\<rparr>), (\<lambda>_. \<lparr>n_next = 0, n_prev = 0\<rparr>))\<rparr>"


subsection \<open>Two failures of the error paths\<close>

text \<open>A connection for which no task can be created is aborted twice: by the destructor of the session
  and by lwIP, which the handler does not tell.\<close>

lemma session_tcp_new_pcb:
  "hev_socks5_session_tcp_new dns mok sz mem ip port = Some (Some s, dns') \<Longrightarrow> ts_pcb s"
  by (auto simp: hev_socks5_session_tcp_new_def hev_socks5_session_tcp_construct_def Let_def
      split: if_splits option.splits prod.splits)

theorem accept_aborts_twice:
  assumes "t_run T" "hev_socks5_session_tcp_new (t_dns T) mok sz mem ip port = Some (Some s, dns')"
    "tcp_accept_handler C ERR_OK mok sz mem ip port new NULL T = Some (err, T')"
  shows "t_aborted (lwip_accepted err new T') = t_aborted T @ [new, new]"
  using assms session_tcp_new_pcb [OF assms(2)]
  by (auto simp: tcp_accept_handler_def lwip_accepted_def session_unref_def hev_socks5_session_tcp_destruct_def Let_def)

text \<open>\<^verbatim>\<open>gateway_fini\<close> leaves its two variables as they are. When the tunnel is started again and fails
  before the gateway is set up, it gives back the control blocks of the earlier run a second time.\<close>

lemma pcb_free_some:
  assumes "pcb_free p T = Some T'"
  shows "\<exists>ps. T' = T\<lparr>t_pcbs := ps\<rparr>"
proof (cases "p = NULL")
  case True
  with assms have "T' = T\<lparr>t_pcbs := t_pcbs T\<rparr>" by (simp add: pcb_free_def)
  then show ?thesis by blast
next
  case False
  with assms have "T' = T\<lparr>t_pcbs := remove1 p (t_pcbs T)\<rparr>" by (simp add: pcb_free_def split: if_splits)
  then show ?thesis by blast
qed

lemma gateway_fini_some: "gateway_fini T = Some T' \<Longrightarrow> \<exists>ps. T' = T\<lparr>t_pcbs := ps\<rparr>"
  by (auto simp: gateway_fini_def dest!: pcb_free_some split: option.splits)

lemma tunnel_fini_frame: "t_udp (tunnel_fini C T) = t_udp T" "t_pcbs (tunnel_fini C T) = t_pcbs T"
  by (simp_all add: tunnel_fini_def Let_def split: option.split)

lemma fini_keeps_udp: "hev_socks5_tunnel_fini C T = Some T' \<Longrightarrow> t_udp T' = t_udp T"
  by (auto simp: hev_socks5_tunnel_fini_def Let_def tunnel_fini_frame mapped_dns_fini_def
      dest!: gateway_fini_some split: option.splits)

theorem restart_failure_frees_twice:
  assumes "hev_socks5_tunnel_fini C' T' = Some T" "released T" "t_udp T' \<noteq> NULL" "0 \<le> fd0" "te_nonblock E < 0"
  shows "hev_socks5_tunnel_init C E fd0 T = None"
proof -
  have "t_udp T \<noteq> NULL" using fini_keeps_udp [OF assms(1)] assms(3) by simp
  then have "gateway_fini U = None" if "t_udp U = t_udp T" "t_pcbs U = t_pcbs T" for U
    using assms(2) that by (simp add: gateway_fini_def pcb_free_def released_def)
  then have "hev_socks5_tunnel_fini C T = None"
    by (simp add: hev_socks5_tunnel_fini_def Let_def mapped_dns_fini_def)
  with assms(4,5) show ?thesis by (simp add: hev_socks5_tunnel_init_def tunnel_init_def)
qed

end
