(* ===== verification/App.thy ===== *)
theory App
  imports Tunnel
begin

text \<open>
  Starting and stopping: the main function of the tunnel (\<^verbatim>\<open>hev-main.c\<close>) and the interface to the
  Android application (\<^verbatim>\<open>hev-socks5-tunnel/hev_jni.c\<close>), which runs it in a thread of its own and stops it
  through \<^verbatim>\<open>hev_socks5_tunnel_stop\<close>. The second part is a state machine of two threads, the one of
  the application that calls the interface and the one of the tunnel, which interleave freely.
\<close>

subsection \<open>The main function\<close>

record HevMain =
  mn_config :: HevConfig
  mn_misc :: HevSocks5Misc
  mn_tunnel :: HevSocks5Tunnel
  mn_logger :: bool
  mn_socks5_logger :: bool
  mn_task_system :: bool

text \<open>The results of the calls into the system, and what \<^verbatim>\<open>hev_task_system_run\<close> makes of the tunnel.\<close>

record main_env =
  me_logger :: int
  me_socks5_logger :: int
  me_task_system :: int
  me_tunnel :: tunnel_env
  me_run :: "HevSocks5Tunnel \<Rightarrow> HevSocks5Tunnel option"

definition hev_socks5_tunnel_main_inner :: "main_env \<Rightarrow> int \<Rightarrow> HevMain \<Rightarrow> (int \<times> HevMain) option" where
  "hev_socks5_tunnel_main_inner E tun_fd M =
     (let C = mn_config M;
          G = hev_socks5_set_connect_timeout (hev_config_get_misc_connect_timeout C) (mn_misc M);
          G = hev_socks5_set_tcp_timeout (hev_config_get_misc_tcp_read_write_timeout C) G;
          G = hev_socks5_set_udp_timeout (hev_config_get_misc_udp_read_write_timeout C) G;
          G = hev_socks5_set_udp_recv_buffer_size (hev_config_get_misc_udp_recv_buffer_size C) G;
          M = M\<lparr>mn_misc := G\<rparr>
      in if me_logger E < 0 then Some (-2, M)
         else let M = M\<lparr>mn_logger := True\<rparr>
         in if me_socks5_logger E < 0 then Some (-3, M)
         else let M = M\<lparr>mn_socks5_logger := True\<rparr>
         in if me_task_system E < 0 then Some (-4, M)
         else let M = M\<lparr>mn_task_system := True\<rparr>
         in case hev_socks5_tunnel_init C (me_tunnel E) tun_fd (mn_tunnel M) of
              None \<Rightarrow> None
            | Some (res, T) \<Rightarrow>
                if res < 0 then Some (-5, M\<lparr>mn_tunnel := T\<rparr>)
                else case hev_socks5_tunnel_run (me_run E) T of
                       None \<Rightarrow> None
                     | Some T \<Rightarrow>
                         (case hev_socks5_tunnel_fini C T of
                            None \<Rightarrow> None
                          | Some T \<Rightarrow>
                              Some (0, M\<lparr>mn_tunnel := T, mn_socks5_logger := False, mn_logger := False,
                                         mn_task_system := False\<rparr>)))"

definition hev_socks5_tunnel_main_from_str ::
  "bool \<Rightarrow> (u8 list \<Rightarrow> yaml_document option) \<Rightarrow> (u8 list \<Rightarrow> u32 option) \<Rightarrow> main_env \<Rightarrow> u8 list \<Rightarrow> int \<Rightarrow> HevMain \<Rightarrow>
   (int \<times> HevMain) option" where
  "hev_socks5_tunnel_main_from_str init_ok load pton E config_str tun_fd M =
     (let (res, C) = hev_config_init_from_str init_ok load pton config_str (mn_config M);
          M = M\<lparr>mn_config := C\<rparr>
      in if res < 0 then Some (-1, M) else hev_socks5_tunnel_main_inner E tun_fd M)"

definition hev_socks5_tunnel_main_from_file ::
  "bool \<Rightarrow> (u8 list \<Rightarrow> yaml_document option) \<Rightarrow> (u8 list \<Rightarrow> u32 option) \<Rightarrow> main_env \<Rightarrow> u8 list option \<Rightarrow> int \<Rightarrow> HevMain \<Rightarrow>
   (int \<times> HevMain) option" where
  "hev_socks5_tunnel_main_from_file init_ok load pton E contents tun_fd M =
     (let (res, C) = hev_config_init_from_file init_ok load pton contents (mn_config M);
          M = M\<lparr>mn_config := C\<rparr>
      in if res < 0 then Some (-1, M) else hev_socks5_tunnel_main_inner E tun_fd M)"

definition hev_socks5_tunnel_main ::
  "bool \<Rightarrow> (u8 list \<Rightarrow> yaml_document option) \<Rightarrow> (u8 list \<Rightarrow> u32 option) \<Rightarrow> main_env \<Rightarrow> u8 list option \<Rightarrow> int \<Rightarrow> HevMain \<Rightarrow>
   (int \<times> HevMain) option" where
  "hev_socks5_tunnel_main init_ok load pton E contents tun_fd M =
     hev_socks5_tunnel_main_from_file init_ok load pton E contents tun_fd M"

text \<open>When the tunnel cannot be initialised, the loggers and the task system stay initialised.\<close>

theorem main_failure_keeps_loggers:
  assumes "hev_socks5_tunnel_main_inner E tun_fd M = Some (-5, M')"
  shows "mn_logger M' \<and> mn_socks5_logger M' \<and> mn_task_system M'"
  using assms by (auto simp: hev_socks5_tunnel_main_inner_def Let_def split: if_splits option.splits)

subsection \<open>Two threads\<close>

text \<open>
  Where the thread of the tunnel is: not created; about to read the configuration string; past it;
  past the creation of the event descriptors, but not yet initialised; running; through with
  \<^verbatim>\<open>hev_socks5_tunnel_main_from_str\<close>; ended. And where the caller is: outside; polling for the event descriptor in
  \<^verbatim>\<open>hev_socks5_tunnel_stop\<close>; about to write to it; waiting in \<^verbatim>\<open>pthread_join\<close>.
\<close>

datatype thread = TNone | TStart | TParsed | TEvent | TRunning | TEnding | TDone

datatype caller = CIdle | CPoll | CWrite | CJoin

record app =
  tunnel_running :: bool
  config_content :: "u8 list option"
  tun_fd_global :: int
  app_thread :: thread
  app_given :: "u8 list"
  app_event :: bool
  app_signal :: bool
  app_caller :: caller
  app_unjoined :: nat
  app_crashed :: bool

text \<open>\<^verbatim>\<open>nativeStart\<close>: \<open>config\<close> is the string, \<open>None\<close> when Java cannot give it; \<open>dup\<close> and \<open>create\<close> say whether
  \<^verbatim>\<open>strdup\<close> and \<^verbatim>\<open>pthread_create\<close> succeed. A thread that has ended and is replaced was never joined.\<close>

definition nativeStart :: "u8 list option \<Rightarrow> bool \<Rightarrow> bool \<Rightarrow> int \<Rightarrow> app \<Rightarrow> int \<times> app" where
  "nativeStart config dup create tun_fd A =
     (if tunnel_running A then (-1, A)
      else case config of
             None \<Rightarrow> (-1, A)
           | Some config_str \<Rightarrow>
               (let A = A\<lparr>config_content := (if dup then Some config_str else None)\<rparr>
                in if config_content A = None then (-1, A)
                   else let A = A\<lparr>tun_fd_global := tun_fd, tunnel_running := True\<rparr>
                   in if \<not> create then (-1, A\<lparr>tunnel_running := False, config_content := None\<rparr>)
                      else (0, A\<lparr>app_thread := TStart, app_given := config_str,
                                 app_unjoined := app_unjoined A + (if app_thread A = TDone then 1 else 0)\<rparr>)))"

text \<open>\<^verbatim>\<open>nativeStop\<close> up to the loop of \<^verbatim>\<open>hev_socks5_tunnel_stop\<close>, one round of that loop, its write, which an
  assertion guards, and what follows the join.\<close>

definition nativeStop :: "app \<Rightarrow> app" where
  "nativeStop A = (if \<not> tunnel_running A then A else A\<lparr>app_caller := CPoll\<rparr>)"

definition stop_poll :: "app \<Rightarrow> app" where
  "stop_poll A = (if app_event A then A\<lparr>app_caller := CWrite\<rparr> else A)"

definition stop_write :: "app \<Rightarrow> app" where
  "stop_write A = (if app_event A then A\<lparr>app_signal := True, app_caller := CJoin\<rparr> else A\<lparr>app_crashed := True\<rparr>)"

definition stop_joined :: "app \<Rightarrow> app" where
  "stop_joined A =
     A\<lparr>app_thread := TNone, config_content := None, tunnel_running := False, tun_fd_global := -1, app_caller := CIdle\<rparr>"

text \<open>The thread of the tunnel: each step of \<^verbatim>\<open>tunnel_thread_func\<close>, with \<open>ok\<close> whether the part of the main
  function it stands for succeeds. Reading a configuration that was freed is a crash.\<close>

fun thread_step :: "bool \<Rightarrow> app \<Rightarrow> app" where
  "thread_step ok A =
     (case app_thread A of
        TStart \<Rightarrow>
          if config_content A \<noteq> Some (app_given A) then A\<lparr>app_crashed := True\<rparr>
          else A\<lparr>app_thread := (if ok then TParsed else TEnding)\<rparr>
      | TParsed \<Rightarrow> if ok then A\<lparr>app_thread := TEvent, app_event := True\<rparr> else A\<lparr>app_thread := TEnding\<rparr>
      | TEvent \<Rightarrow> if ok then A\<lparr>app_thread := TRunning\<rparr>
                  else A\<lparr>app_thread := TEnding, app_event := False, app_signal := False\<rparr>
      | TRunning \<Rightarrow> if app_signal A then A\<lparr>app_thread := TEnding, app_event := False, app_signal := False\<rparr> else A
      | TEnding \<Rightarrow> A\<lparr>app_thread := TDone, tunnel_running := False\<rparr>
      | _ \<Rightarrow> A)"

declare thread_step.simps [simp del]

definition nativeIsRunning :: "app \<Rightarrow> bool" where
  "nativeIsRunning A = tunnel_running A"

definition nativeSetRejectQuic :: "bool \<Rightarrow> HevSocks5Tunnel \<Rightarrow> HevSocks5Tunnel" where
  "nativeSetRejectQuic enabled = hev_socks5_tunnel_set_reject_quic (if enabled then 1 else 0)"

definition nativeSetRejectNonDnsUdp :: "bool \<Rightarrow> HevSocks5Tunnel \<Rightarrow> HevSocks5Tunnel" where
  "nativeSetRejectNonDnsUdp enabled = hev_socks5_tunnel_set_reject_non_dns_udp (if enabled then 1 else 0)"

definition nativeGetStats :: "app \<Rightarrow> HevSocks5Tunnel \<Rightarrow> 64 word \<times> 64 word \<times> 64 word \<times> 64 word" where
  "nativeGetStats A T = (if tunnel_running A then hev_socks5_tunnel_stats T else (0, 0, 0, 0))"

inductive app_step :: "app \<Rightarrow> app \<Rightarrow> bool" where
  app_start: "app_caller A = CIdle \<Longrightarrow> \<not> app_crashed A \<Longrightarrow> app_step A (snd (nativeStart config dup create tun_fd A))"
| app_stop: "app_caller A = CIdle \<Longrightarrow> \<not> app_crashed A \<Longrightarrow> app_step A (nativeStop A)"
| app_poll: "app_caller A = CPoll \<Longrightarrow> \<not> app_crashed A \<Longrightarrow> app_step A (stop_poll A)"
| app_write: "app_caller A = CWrite \<Longrightarrow> \<not> app_crashed A \<Longrightarrow> app_step A (stop_write A)"
| app_join: "app_caller A = CJoin \<Longrightarrow> app_thread A = TDone \<Longrightarrow> \<not> app_crashed A \<Longrightarrow> app_step A (stop_joined A)"
| app_run: "app_thread A \<noteq> TNone \<Longrightarrow> app_thread A \<noteq> TDone \<Longrightarrow> \<not> app_crashed A \<Longrightarrow> app_step A (thread_step ok A)"

definition app0 :: app where
  "app0 = \<lparr>tunnel_running = False, config_content = None, tun_fd_global = -1, app_thread = TNone, app_given = [],
     app_event = False, app_signal = False, app_caller = CIdle, app_unjoined = 0, app_crashed = False\<rparr>"

inductive_cases app_stepE: "app_step A A'"

lemmas app_defs = nativeStart_def nativeStop_def stop_poll_def stop_write_def stop_joined_def thread_step.simps

subsection \<open>Invariant\<close>

definition thread_alive :: "thread \<Rightarrow> bool" where
  "thread_alive t \<longleftrightarrow> t \<noteq> TNone \<and> t \<noteq> TDone"

definition app_inv :: "app \<Rightarrow> bool" where
  "app_inv A \<longleftrightarrow> (tunnel_running A \<longleftrightarrow> thread_alive (app_thread A)) \<and>
     (thread_alive (app_thread A) \<longrightarrow> config_content A = Some (app_given A)) \<and>
     (app_event A \<longleftrightarrow> app_thread A = TEvent \<or> app_thread A = TRunning) \<and>
     (app_caller A \<noteq> CIdle \<longrightarrow> app_thread A \<noteq> TNone) \<and>
     (app_crashed A \<longrightarrow> app_caller A = CWrite)"

lemma start_inv:
  assumes "app_inv A" "app_caller A = CIdle" "\<not> app_crashed A"
  shows "app_inv (snd (nativeStart config dup create tun_fd A))"
  using assms by (cases "app_thread A") (auto simp: app_inv_def nativeStart_def thread_alive_def Let_def split: option.split)

lemma thread_inv:
  assumes "app_inv A" "\<not> app_crashed A"
  shows "app_inv (thread_step ok A)"
  using assms by (cases "app_thread A") (auto simp: app_inv_def thread_step.simps thread_alive_def)

lemma app_step_inv:
  assumes "app_step A A'" "app_inv A"
  shows "app_inv A'"
  using assms
proof cases
  case app_start
  with start_inv assms(2) show ?thesis by blast
next
  case app_run
  with thread_inv assms(2) show ?thesis by blast
qed (use assms(2) in \<open>auto simp: app_inv_def nativeStop_def stop_poll_def stop_write_def stop_joined_def thread_alive_def\<close>)

lemma app_reach_inv:
  assumes "app_step\<^sup>*\<^sup>* app0 A"
  shows "app_inv A"
  using assms
proof (induction rule: rtranclp_induct)
  case base
  then show ?case by (simp add: app_inv_def app0_def thread_alive_def)
next
  case (step A B)
  then show ?case using app_step_inv by blast
qed

text \<open>A caller that polls while the thread has failed or ended polls for ever.\<close>

definition hung :: "app \<Rightarrow> bool" where
  "hung A \<longleftrightarrow> app_caller A = CPoll \<and> (app_thread A = TEnding \<or> app_thread A = TDone) \<and> \<not> app_event A"

lemma hung_step: "app_step A A' \<Longrightarrow> hung A \<Longrightarrow> hung A'"
  by (erule app_stepE) (auto simp: hung_def stop_poll_def thread_step.simps)

lemma hung_steps: "app_step\<^sup>*\<^sup>* A A' \<Longrightarrow> hung A \<Longrightarrow> hung A'"
  by (induction rule: rtranclp_induct) (auto intro: hung_step)

subsection \<open>Properties\<close>


text \<open>A start, and a stop that follows before the thread has done anything.\<close>

definition demo_started :: app where
  "demo_started = snd (nativeStart (Some [116]) True True 5 app0)"

definition demo_stopping :: app where
  "demo_stopping = nativeStop demo_started"

lemma demo_started_reach: "app_step\<^sup>*\<^sup>* app0 demo_started"
  unfolding demo_started_def by (rule r_into_rtranclp, rule app_start) (simp_all add: app0_def)

lemma demo_started_eq: "demo_started = app0\<lparr>config_content := Some [116], tun_fd_global := 5, tunnel_running := True,
    app_thread := TStart, app_given := [116]\<rparr>"
  by (simp add: demo_started_def nativeStart_def app0_def)

lemma demo_stopping_reach: "app_step\<^sup>*\<^sup>* app0 demo_stopping"
  unfolding demo_stopping_def
  by (rule rtranclp.rtrancl_into_rtrancl [OF demo_started_reach], rule app_stop) (simp_all add: demo_started_eq app0_def)

lemma demo_stopping_eq: "demo_stopping = demo_started\<lparr>app_caller := CPoll\<rparr>"
  by (simp add: demo_stopping_def nativeStop_def demo_started_eq)




end
