(* ===== verification/Spec2Isabelle.thy ===== *)
theory Spec2Isabelle
  imports Hev_List Hev_Ring_Buffer Socks5_Server App
begin

text \<open>
  \<^bold>\<open>Verification of the native tunnel of the TZ VPN application\<close>

  The application routes the packets of an Android VPN interface through a SOCKS5 proxy. The native
  code that does it lies under \<^verbatim>\<open>app/src/main/cpp\<close>: the tunnel \<^verbatim>\<open>hev-socks5-tunnel-src\<close> with its SOCKS5
  core, the vendored libraries it stands on (lwIP, a coroutine library, a YAML parser), and the
  interface to Java, \<^verbatim>\<open>hev-socks5-tunnel/hev_jni.c\<close>. This development models the tunnel, its core and the
  interface as executable functions, and proves the properties they are written for. Paths below are relative to
  \<^verbatim>\<open>hev-socks5-tunnel-src/src\<close>.

  \<^bold>\<open>How the parts work together.\<close> The interface starts a thread that reads the configuration and
  runs the tunnel. The tunnel reads packets from the TUN device, rejects some UDP with an ICMP answer, and gives the rest
  to lwIP, which ends the connections of the applications as if it were the remote host. Each
  connection or UDP flow that lwIP reports becomes a session: a task that connects to the proxy,
  shakes hands as a SOCKS5 client and forwards data in both directions. DNS queries to a configured
  address are answered with addresses of a private network, which stand for the names asked for; a
  later connection to such an address is requested from the proxy by name. The same core also has a SOCKS5
  server with authentication and a UDP relay.

  \<^bold>\<open>Theories, in the order of their imports.\<close>

  \<^item> \<^verbatim>\<open>Prelude\<close>: machine words, byte buffers, byte order, \<^verbatim>\<open>size_t\<close> arithmetic.
  \<^item> \<^verbatim>\<open>Hev_List\<close> (\<^verbatim>\<open>misc/hev-list.c\<close>): the intrusive list on a heap of nodes. The locale \<open>node_queue\<close> states
    what its clients rely on; the operations implement operations on sequences of nodes.
  \<^item> \<^verbatim>\<open>Hev_Ring_Buffer\<close> (\<^verbatim>\<open>misc/hev-ring-buffer.c\<close>): the ring buffer implements a pair of byte queues, pending and
    unacknowledged, wherever its indices wrap.
  \<^item> \<^verbatim>\<open>Hev_RBTree\<close>, \<^verbatim>\<open>Hev_RBTree_Erase\<close>, \<^verbatim>\<open>Hev_RBTree_Index\<close> (\<^verbatim>\<open>core/src/hev-rbtree.c\<close>): the pointer algorithms of the
    red-black tree, by a focus on a subtree in its context, end and keep a balanced tree of the right
    nodes in order; searches and traversals follow that order.
  \<^item> \<^verbatim>\<open>Socks5_Addr\<close> (\<^verbatim>\<open>core/src/hev-socks5-misc.c\<close>, \<^verbatim>\<open>hev-socks5-proto.h\<close>): SOCKS5 addresses as the packed bytes they
    are, with their conversions.
  \<^item> \<^verbatim>\<open>Task_IO\<close> (\<^verbatim>\<open>core/src/hev-socks5.c\<close> and the socket calls of the coroutine library): a socket answers from scripts of what the
    kernel does, call by call: a partial transfer, nothing yet, an error. The loops of the library are
    functions on them; scatter lists behave like their concatenation.
  \<^item> \<^verbatim>\<open>Socks5_Client\<close> (\<^verbatim>\<open>core/src/hev-socks5-client*.c\<close>): connecting and both handshakes. The locale
    \<open>client_class\<close> is the method table of a client, interpreted for the TCP and UDP clients here and
    for the two session classes in \<^verbatim>\<open>Session_Run\<close>.
  \<^item> \<^verbatim>\<open>Socks5_Auth\<close> (\<^verbatim>\<open>core/src/hev-socks5-authenticator.c\<close>, \<^verbatim>\<open>hev-socks5-user.c\<close>): users by name, over the tree.
  \<^item> \<^verbatim>\<open>Socks5_Server\<close> (\<^verbatim>\<open>core/src/hev-socks5-server.c\<close>): no handshake without valid credentials, and client and server
    complete their handshakes with each other.
  \<^item> \<^verbatim>\<open>Socks5_UDP\<close> (\<^verbatim>\<open>core/src/hev-socks5-udp.c\<close>): datagrams over the control connection and over a datagram socket.
  \<^item> \<^verbatim>\<open>Mapped_DNS\<close> (\<^verbatim>\<open>hev-mapped-dns.c\<close>): tree, list and array together are a bounded least-recently-used cache; the
    message handler stays inside its buffers and answers so that the address leads back to the name.
  \<^item> \<^verbatim>\<open>Lwip_Addr\<close> (\<^verbatim>\<open>misc/hev-utils.c\<close>): lwIP addresses to SOCKS5 addresses and back.
  \<^item> \<^verbatim>\<open>Tunnel_Packet\<close> (\<^verbatim>\<open>hev-socks5-tunnel.c\<close>, lines 299-412): recognising UDP and building ICMP answers, with the
    Internet checksum related to one's complement addition.
  \<^item> \<^verbatim>\<open>Session_TCP\<close>, \<^verbatim>\<open>Session_UDP\<close> (\<^verbatim>\<open>hev-socks5-session-tcp.c\<close>, \<^verbatim>\<open>hev-socks5-session-udp.c\<close>): a TCP session is two byte streams,
    a UDP session a first-in first-out queue of frames.
  \<^item> \<^verbatim>\<open>Config\<close> (\<^verbatim>\<open>hev-config.c\<close>): every document leaves well-formed settings.
  \<^item> \<^verbatim>\<open>Session_Run\<close> (\<^verbatim>\<open>hev-socks5-session.c\<close>): a session from its creation to its end; no data passes before the proxy has
    accepted.
  \<^item> \<^verbatim>\<open>Tunnel\<close> (\<^verbatim>\<open>hev-socks5-tunnel.c\<close>): the session set, the callbacks of lwIP, the packet loop, start and end, as a step
    relation in which sessions, lwIP and the device act in any order.
  \<^item> \<^verbatim>\<open>App\<close> (\<^verbatim>\<open>hev-main.c\<close>, \<^verbatim>\<open>hev-socks5-tunnel/hev_jni.c\<close>): the main function, and start and stop by the application as
    two interleaved threads.

  \<^bold>\<open>Conventions.\<close> A C structure is a record with its fields in the order of the source; behind them stand ghost
  fields for what the environment has seen (bytes sent, descriptors closed, packets written). A pointer is a natural
  number, 0 for \<^verbatim>\<open>NULL\<close>, and objects that are shared live in a map from addresses; a
  node embedded in a structure is named by the address of the structure. \<open>None\<close> as the result of an
  operation is undefined behaviour of the C code, such as the use of a null pointer or an access
  outside an array, so a theorem that gives \<open>Some\<close> also shows its absence. The host is
  little-endian, \<^verbatim>\<open>size_t\<close> has 64 bits. Numbers that can wrap are words or carry their modulus; counters
  bounded by memory are integers.

  \<^bold>\<open>Loops and fuel.\<close> Loops over data are structural recursion. Loops that wait for the outside run over the list of
  what it does, and stop with a value of its own (\<open>Inr\<close>) when the list ends while the task is still
  suspended; theorems hold for every list. Loops over a heap take a number of steps as fuel and return \<open>None\<close> without
  it: the length of the list plus one is proved to be enough for lists, the size of the tree for the tree, and the
  theorems about those loops state the result they return.

  \<^bold>\<open>What is a parameter.\<close> System calls, memory allocation, name resolution and the YAML parser are arguments
  or scripts; lwIP is the set of its callbacks and answers, except \<^verbatim>\<open>pbuf_free_header\<close> and its reaction to an
  accept callback, which are modelled. Addresses returned by an allocator are not in use.

  \<^bold>\<open>Not modelled.\<close> The set-up of the TUN device per platform (\<^verbatim>\<open>hev-tunnel-*.c\<close>, \<^verbatim>\<open>hev-wintun.c\<close>), whose results are
  parameters of the initialisation; the loggers, the script runner and the daemon mode, which only
  produce output; the relay loop of the server over TCP, a single call into the coroutine library; the
  scheduler of that library, whose effect is the interleaving of steps; the stack lwIP and the YAML parser as
  a whole; the second JNI interface \<^verbatim>\<open>hev-jni.c\<close>, which this application does not use; and the Kotlin and Go
  parts of the application.

  Modelling also showed where the code does not do what it means to. Stated and proved are: a cut frame taken for
  a number of messages, and host names too long for a frame (\<^verbatim>\<open>Socks5_UDP\<close>); a short datagram that stops a UDP
  session (\<^verbatim>\<open>Session_UDP\<close>); settings that survive a restart (\<^verbatim>\<open>Config\<close>); a termination that connecting
  undoes (\<^verbatim>\<open>Session_Run\<close>); a connection aborted twice, control blocks given back twice, and a descriptor left open (\<^verbatim>\<open>Tunnel\<close>); and
  a stop that never returns (\<^verbatim>\<open>App\<close>).
\<close>

end
